(* ===== verification/Prelude.thy ===== *)
theory Prelude
  imports Main "HOL-Library.Multiset" "HOL-Library.Product_Lexorder"
begin

section \<open>Shared vocabulary: identifiers, time, exceptions, rows of a table\<close>

text \<open>
  What every component of the development uses: the types that stand for Python's UUIDs and
  datetimes, the exceptions the code tells apart, and the operations on the rows of a table
  (write a row back by its key, write a batch back). The interface \<open>row_store\<close> states what a
  repository promises of reading and writing one row; each repository interprets it.
\<close>

named_theorems row_simps \<open>reading and writing the rows of a table by key\<close>
named_theorems frame_simps \<open>tables and columns that an operation leaves alone\<close>
named_theorems schema_intros \<open>operations that keep the constraints of the schema\<close>
named_theorems life_intros \<open>operations that keep the life-cycle invariant of the tasks\<close>

subsection \<open>Identifiers and time\<close>

text \<open>
  A UUID is its 128-bit integer (\<open>uuid.UUID.int\<close>), which is also how PostgreSQL and Python order
  UUIDs. A timezone-aware datetime is its number of microseconds since 0001-01-01T00:00:00+00:00, the
  resolution of Python's datetime and timedelta.
\<close>

type_synonym uuid = nat
type_synonym timestamp = int

definition seconds :: "int \<Rightarrow> timestamp" where
  "seconds n = n * 1000000"

lemma seconds_mono: "m \<le> n \<Longrightarrow> seconds m \<le> seconds n"
  by (simp add: seconds_def)

lemma seconds_strict_mono: "m < n \<Longrightarrow> seconds m < seconds n"
  by (simp add: seconds_def)

lemma seconds_add: "seconds (m + n) = seconds m + seconds n"
  by (simp add: seconds_def algebra_simps)

subsection \<open>Exceptions\<close>

text \<open>
  The exception classes the code distinguishes by \<open>except\<close> clauses and \<open>isinstance\<close> tests; any
  other class is \<open>OtherError\<close>. The second component is \<open>str(e)\<close>.
\<close>

datatype exn_class =
    TimeoutError
  | HttpxTimeoutException
  | HttpxConnectError
  | HttpxTooManyRedirects
  | HttpxRequestError
  | OperationalError
  | DisconnectionError
  | IntegrityError
  | MultipleResultsFound
  | RedisError
  | RuntimeError
  | OtherError

datatype exn = Exn (exn_class: exn_class) (exn_str: string)

subsection \<open>Rows of a table\<close>

text \<open>
  A table is the list of its rows; a row is found by its key. \<open>write_row\<close> is the UPDATE of the row
  with the key of the given row (nothing happens when no row has that key), \<open>write_rows\<close> the flush
  of several changed rows.
\<close>

definition find_by :: "('r \<Rightarrow> 'k) \<Rightarrow> 'k \<Rightarrow> 'r list \<Rightarrow> 'r option" where
  "find_by key k rs = find (\<lambda>r. key r = k) rs"

definition write_row :: "('r \<Rightarrow> 'k) \<Rightarrow> 'r \<Rightarrow> 'r list \<Rightarrow> 'r list" where
  "write_row key u rs = map (\<lambda>r. if key r = key u then u else r) rs"

fun write_rows :: "('r \<Rightarrow> 'k) \<Rightarrow> 'r list \<Rightarrow> 'r list \<Rightarrow> 'r list" where
  "write_rows key [] rs = rs"
| "write_rows key (u # us) rs = write_rows key us (write_row key u rs)"

lemma find_by_Nil [row_simps]: "find_by key k [] = None"
  by (simp add: find_by_def)

lemma find_by_Cons [row_simps]:
  "find_by key k (r # rs) = (if key r = k then Some r else find_by key k rs)"
  by (simp add: find_by_def)

lemma find_by_append [row_simps]:
  "find_by key k (rs @ qs) =
     (case find_by key k rs of None \<Rightarrow> find_by key k qs | Some r \<Rightarrow> Some r)"
  by (induction rs) (auto simp: row_simps)

lemma find_by_SomeD: "find_by key k rs = Some r \<Longrightarrow> r \<in> set rs \<and> key r = k"
  by (induction rs) (auto simp: row_simps split: if_splits)

lemma find_by_None: "find_by key k rs = None \<longleftrightarrow> k \<notin> key ` set rs"
  by (induction rs) (auto simp: row_simps)

lemma find_by_member:
  "distinct (map key rs) \<Longrightarrow> r \<in> set rs \<Longrightarrow> find_by key (key r) rs = Some r"
  by (induction rs) (auto simp: row_simps)

lemma find_by_eq_iff:
  "distinct (map key rs) \<Longrightarrow> find_by key k rs = Some r \<longleftrightarrow> r \<in> set rs \<and> key r = k"
  using find_by_member find_by_SomeD by fastforce

lemma write_row_Nil [row_simps]: "write_row key u [] = []"
  by (simp add: write_row_def)

lemma write_row_Cons [row_simps]:
  "write_row key u (r # rs) = (if key r = key u then u else r) # write_row key u rs"
  by (simp add: write_row_def)

lemma keys_write_row [simp]: "map key (write_row key u rs) = map key rs"
  by (simp add: write_row_def)

lemma length_write_row [simp]: "length (write_row key u rs) = length rs"
  by (simp add: write_row_def)

lemma key_image_write_row [simp]: "key ` set (write_row key u rs) = key ` set rs"
  by (metis keys_write_row list.set_map)

lemma set_write_row: "r \<in> set (write_row key u rs) \<Longrightarrow> r = u \<or> r \<in> set rs \<and> key r \<noteq> key u"
  by (auto simp: write_row_def split: if_splits)

lemma write_row_absent: "key u \<notin> key ` set rs \<Longrightarrow> write_row key u rs = rs"
  by (induction rs) (auto simp: row_simps)

lemma write_row_member: "key u \<in> key ` set rs \<Longrightarrow> u \<in> set (write_row key u rs)"
  by (induction rs) (auto simp: row_simps)

lemma write_row_other:
  "r \<in> set rs \<Longrightarrow> key r \<noteq> key u \<Longrightarrow> r \<in> set (write_row key u rs)"
  by (induction rs) (auto simp: row_simps)

lemma find_by_write_row [row_simps]:
  "find_by key k (write_row key u rs) =
     (if k = key u \<and> find_by key k rs \<noteq> None then Some u else find_by key k rs)"
  by (induction rs) (auto simp: row_simps)

lemma write_row_twice [simp]:
  "key u = key u' \<Longrightarrow> write_row key u (write_row key u' rs) = write_row key u rs"
  by (simp add: write_row_def)

lemma write_row_same: "distinct (map key rs) \<Longrightarrow> u \<in> set rs \<Longrightarrow> write_row key u rs = rs"
  by (induction rs) (auto simp: row_simps write_row_absent)

lemma keys_write_rows [simp]: "map key (write_rows key us rs) = map key rs"
  by (induction us arbitrary: rs) auto

lemma length_write_rows [simp]: "length (write_rows key us rs) = length rs"
  by (induction us arbitrary: rs) auto

lemma key_image_write_rows [simp]: "key ` set (write_rows key us rs) = key ` set rs"
  by (metis keys_write_rows list.set_map)

lemma set_write_rows:
  "r \<in> set (write_rows key us rs) \<Longrightarrow> r \<in> set us \<or> r \<in> set rs \<and> key r \<notin> key ` set us"
proof (induction us arbitrary: rs)
  case Nil
  then show ?case by simp
next
  case (Cons u us)
  then have "r \<in> set us \<or> r \<in> set (write_row key u rs) \<and> key r \<notin> key ` set us"
    by simp
  then show ?case by (auto dest: set_write_row)
qed

lemma write_rows_other:
  "r \<in> set rs \<Longrightarrow> key r \<notin> key ` set us \<Longrightarrow> r \<in> set (write_rows key us rs)"
  by (induction us arbitrary: rs) (auto intro: write_row_other)

lemma find_by_write_rows:
  "distinct (map key us) \<Longrightarrow>
   find_by key k (write_rows key us rs) =
     (if find_by key k rs = None then None
      else case find_by key k us of None \<Rightarrow> find_by key k rs | Some u \<Rightarrow> Some u)"
proof (induction us arbitrary: rs)
  case Nil
  then show ?case by (simp add: row_simps)
next
  case (Cons u us)
  have absent: "find_by key (key u) us = None"
    using Cons.prems by (simp add: find_by_None)
  have "find_by key k (write_rows key (u # us) rs) =
      (if find_by key k (write_row key u rs) = None then None
       else case find_by key k us of None \<Rightarrow> find_by key k (write_row key u rs)
            | Some v \<Rightarrow> Some v)"
    using Cons by simp
  then show ?case
    using absent by (auto simp: row_simps split: option.split)
qed

subsection \<open>Batches of selected rows\<close>

text \<open>
  The claim and recovery loops select some rows of a table, change each and write the changed rows
  back; keys do not change. These lemmas say what the table holds afterwards.
\<close>

lemma map_key_id: "(\<And>r. key (f r) = key r) \<Longrightarrow> map key (map f sel) = map key sel"
  by simp

lemma write_rows_changed:
  assumes "\<And>r. key (f r) = key r" and "distinct (map key sel)"
    and "set sel \<subseteq> set rs" and "distinct (map key rs)" and "r \<in> set rs"
  shows "find_by key (key r) (write_rows key (map f sel) rs) =
    Some (if r \<in> set sel then f r else r)"
proof -
  have dist: "distinct (map key (map f sel))"
    using assms(1,2) by (simp add: comp_def)
  have found: "find_by key (key r) rs = Some r"
    using assms(4,5) by (rule find_by_member)
  have "find_by key (key r) (map f sel) = (if r \<in> set sel then Some (f r) else None)"
  proof (cases "r \<in> set sel")
    case True
    then have "f r \<in> set (map f sel)" by simp
    from find_by_member [OF dist this] True show ?thesis by (simp add: assms(1))
  next
    case False
    have "key r \<notin> key ` set (map f sel)"
    proof
      assume "key r \<in> key ` set (map f sel)"
      then obtain s where "s \<in> set sel" and "key s = key r"
        using assms(1) by auto
      with assms(3,4,5) have "s = r" by (metis (no_types) find_by_member option.inject subsetD)
      with \<open>s \<in> set sel\<close> False show False by simp
    qed
    with False show ?thesis by (simp add: find_by_None)
  qed
  with found show ?thesis by (simp add: find_by_write_rows [OF dist])
qed

lemma distinct_take: "distinct xs \<Longrightarrow> distinct (take n xs)"
  by simp

lemma distinct_map_filter_key: "distinct (map key rs) \<Longrightarrow> distinct (map key (filter P rs))"
  by (induction rs) auto

text \<open>
  ORDER BY and LIMIT: the first \<open>n\<close> rows of the sorted rows are rows of the table, and no row that
  was left out sorts strictly before one that was taken.
\<close>

lemma set_take_sort_key: "set (take n (sort_key f xs)) \<subseteq> set xs"
  by (metis set_sort set_take_subset)

lemma take_sort_key_le:
  assumes "x \<in> set (take n (sort_key f xs))" and "y \<in> set xs"
    and "y \<notin> set (take n (sort_key f xs))"
  shows "f x \<le> f y"
proof -
  let ?ys = "sort_key f xs"
  have "sorted (map f (take n ?ys @ drop n ?ys))" by simp
  then have *: "\<forall>a \<in> set (take n ?ys). \<forall>b \<in> set (drop n ?ys). f a \<le> f b"
    by (auto simp only: map_append sorted_append set_map)
  have "y \<in> set ?ys" using assms(2) by simp
  then have "y \<in> set (take n ?ys) \<union> set (drop n ?ys)"
    by (metis append_take_drop_id set_append)
  with assms(1,3) * show ?thesis by blast
qed

lemma distinct_map_sort_key:
  "distinct (map key (sort_key f xs)) = distinct (map key xs)"
proof -
  have "mset (map key (sort_key f xs)) = mset (map key xs)" by simp
  then show ?thesis by (rule mset_eq_imp_distinct_iff)
qed

lemma insort_key_map:
  "(\<And>x. f (g x) = f x) \<Longrightarrow> insort_key f (g x) (map g xs) = map g (insort_key f x xs)"
  by (induction xs) auto

lemma sort_key_map: "(\<And>x. f (g x) = f x) \<Longrightarrow> sort_key f (map g xs) = map g (sort_key f xs)"
  by (induction xs) (simp_all add: insort_key_map)

lemma distinct_map_take: "distinct (map key xs) \<Longrightarrow> distinct (map key (take n xs))"
  by (simp add: take_map [symmetric])

subsection \<open>The interface of a repository\<close>

text \<open>
  What a repository promises of one table: reading the row just written gives it back, other rows
  are not disturbed, writing a row whose key is absent changes nothing, and the last write of a row
  wins. Every read-modify-write of the code goes through \<open>get_row\<close> and \<open>put_row\<close>.
\<close>

locale row_store =
  fixes get_row :: "'k \<Rightarrow> 'd \<Rightarrow> 'r option"
    and put_row :: "'r \<Rightarrow> 'd \<Rightarrow> 'd"
    and row_key :: "'r \<Rightarrow> 'k"
  assumes get_put_same: "get_row (row_key r) d \<noteq> None \<Longrightarrow> get_row (row_key r) (put_row r d) = Some r"
    and get_put_other: "k \<noteq> row_key r \<Longrightarrow> get_row k (put_row r d) = get_row k d"
    and put_absent: "get_row (row_key r) d = None \<Longrightarrow> put_row r d = d"
    and put_put: "row_key r = row_key r' \<Longrightarrow> put_row r (put_row r' d) = put_row r d"
    and get_key: "get_row k d = Some r \<Longrightarrow> row_key r = k"
begin

lemma get_put:
  "get_row k (put_row r d) = (if k = row_key r \<and> get_row k d \<noteq> None then Some r else get_row k d)"
  by (metis get_put_same get_put_other put_absent)

lemma put_keeps_keys: "get_row k (put_row r d) = None \<longleftrightarrow> get_row k d = None"
  by (auto simp: get_put)

lemma modify_found:
  assumes "get_row k d = Some r" and "row_key (f r) = row_key r"
  shows "get_row k (put_row (f r) d) = Some (f r)"
  using assms get_key [OF assms(1)] by (simp add: get_put)

end

end
