(* ===== verification/Model.thy ===== *)
theory Model
  imports Prelude
begin

section \<open>The data model (models.py): enums, rows, the database\<close>

text \<open>
  The enums and the ORM classes of \<open>models.py\<close> as datatypes and records, the tables of the database
  as lists of rows, and the constraints of the schema (primary keys, unique indexes, foreign keys)
  as the invariant \<open>schema_ok\<close>. The order of a list is the physical order of the rows, about which
  the code may assume nothing; queries with an ORDER BY sort it, with ties left in list order.
\<close>

subsection \<open>Enums\<close>

datatype task_status = PENDING | PROCESSING | COMPLETED | FAILED

datatype task_type = USER_REQUEST | REFRESH

text \<open>
  The CASE expression of the queue queries: USER_REQUEST sorts before REFRESH. It is the order of
  the enum wherever tasks are sorted by type.
\<close>

fun type_priority :: "task_type \<Rightarrow> nat" where
  "type_priority USER_REQUEST = 0"
| "type_priority REFRESH = 1"

instantiation task_type :: linorder
begin

definition less_eq_task_type :: "task_type \<Rightarrow> task_type \<Rightarrow> bool" where
  "less_eq_task_type a b \<longleftrightarrow> type_priority a \<le> type_priority b"

definition less_task_type :: "task_type \<Rightarrow> task_type \<Rightarrow> bool" where
  "less_task_type a b \<longleftrightarrow> type_priority a < type_priority b"

instance
proof
  fix a b c :: task_type
  show "a < b \<longleftrightarrow> a \<le> b \<and> \<not> b \<le> a"
    by (auto simp: less_eq_task_type_def less_task_type_def)
  show "a \<le> a"
    by (simp add: less_eq_task_type_def)
  show "a \<le> b \<Longrightarrow> b \<le> c \<Longrightarrow> a \<le> c"
    by (simp add: less_eq_task_type_def)
  show "a \<le> b \<Longrightarrow> b \<le> a \<Longrightarrow> a = b"
    by (cases a; cases b) (simp_all add: less_eq_task_type_def)
  show "a \<le> b \<or> b \<le> a"
    by (auto simp: less_eq_task_type_def)
qed

end

text \<open>The string values of the two \<open>StrEnum\<close> classes.\<close>

fun task_status_value :: "task_status \<Rightarrow> string" where
  "task_status_value PENDING = ''PENDING''"
| "task_status_value PROCESSING = ''PROCESSING''"
| "task_status_value COMPLETED = ''COMPLETED''"
| "task_status_value FAILED = ''FAILED''"

fun task_type_value :: "task_type \<Rightarrow> string" where
  "task_type_value USER_REQUEST = ''USER_REQUEST''"
| "task_type_value REFRESH = ''REFRESH''"

subsection \<open>Rows\<close>

text \<open>
  The JSONB column \<open>error_payload\<close>: every writer stores the same three keys \<open>code\<close>, \<open>message\<close> and
  \<open>retryable\<close>, or NULL.
\<close>

record error_payload =
  ep_code :: string
  ep_message :: string
  ep_retryable :: bool

record job =
  j_id :: uuid
  j_status :: task_status
  j_created_at :: timestamp
  j_updated_at :: timestamp

record domain =
  d_id :: uuid
  d_normalized_domain :: string
  d_is_active :: bool
  d_deactivated_at :: "timestamp option"
  d_created_at :: timestamp
  d_updated_at :: timestamp

record task =
  t_id :: uuid
  t_job_id :: "uuid option"
  t_domain_id :: uuid
  t_type :: task_type
  t_status :: task_status
  t_attempts :: nat
  t_next_attempt_at :: timestamp
  t_lease_expires_at :: "timestamp option"
  t_error_payload :: "error_payload option"
  t_created_at :: timestamp
  t_updated_at :: timestamp

record domain_detail =
  dd_domain_id :: uuid
  dd_ip_addresses :: "string list"
  dd_dns_records :: "(string \<times> string list) list"
  dd_http_status :: int
  dd_page_title :: "string option"
  dd_response_time :: int
  dd_response_headers :: "(string \<times> string) list"
  dd_fetched_at :: timestamp
  dd_next_refresh_at :: timestamp
  dd_version :: int

record idempotency_record =
  ir_id :: uuid
  ir_client_id :: string
  ir_idempotency_key :: string
  ir_request_hash :: string
  ir_job_id :: uuid
  ir_created_at :: timestamp

subsection \<open>The database\<close>

record db =
  db_jobs :: "job list"
  db_tasks :: "task list"
  db_domains :: "domain list"
  db_details :: "domain_detail list"
  db_idem :: "idempotency_record list"

definition empty_db :: db where
  "empty_db = \<lparr>db_jobs = [], db_tasks = [], db_domains = [], db_details = [], db_idem = []\<rparr>"

definition idem_key :: "idempotency_record \<Rightarrow> string \<times> string" where
  "idem_key r = (ir_client_id r, ir_idempotency_key r)"

subsection \<open>Constraints of the schema\<close>

text \<open>
  Primary keys, the unique index on \<open>normalized_domain\<close>, the unique constraint of the idempotency
  records and the foreign keys, as \<open>models.py\<close> and the migrations declare them.
\<close>

definition keys_ok :: "db \<Rightarrow> bool" where
  "keys_ok d \<longleftrightarrow>
     distinct (map j_id (db_jobs d)) \<and>
     distinct (map t_id (db_tasks d)) \<and>
     distinct (map d_id (db_domains d)) \<and>
     distinct (map d_normalized_domain (db_domains d)) \<and>
     distinct (map dd_domain_id (db_details d)) \<and>
     distinct (map ir_id (db_idem d)) \<and>
     distinct (map idem_key (db_idem d))"

definition task_refs_ok :: "db \<Rightarrow> task \<Rightarrow> bool" where
  "task_refs_ok d t \<longleftrightarrow>
     t_domain_id t \<in> d_id ` set (db_domains d) \<and>
     set_option (t_job_id t) \<subseteq> j_id ` set (db_jobs d)"

definition refs_ok :: "db \<Rightarrow> bool" where
  "refs_ok d \<longleftrightarrow>
     list_all (task_refs_ok d) (db_tasks d) \<and>
     list_all (\<lambda>dd. dd_domain_id dd \<in> d_id ` set (db_domains d)) (db_details d) \<and>
     list_all (\<lambda>r. ir_job_id r \<in> j_id ` set (db_jobs d)) (db_idem d)"

definition schema_ok :: "db \<Rightarrow> bool" where
  "schema_ok d \<longleftrightarrow> keys_ok d \<and> refs_ok d"

subsection \<open>A session of SQLAlchemy\<close>

text \<open>
  A session works on its own view of the database (\<open>s_work\<close>) until \<open>commit\<close> publishes it
  (\<open>s_committed\<close>, what every other session sees); \<open>rollback\<close> throws the work away, and so does
  leaving \<open>async with session_maker()\<close> without a commit. \<open>flush\<close> sends the pending statements of
  the session, which the model has already applied to \<open>s_work\<close>.
\<close>

record session =
  s_committed :: db
  s_work :: db

definition open_session :: "db \<Rightarrow> session" where
  "open_session d = \<lparr>s_committed = d, s_work = d\<rparr>"

definition commit :: "session \<Rightarrow> session" where
  "commit s = s\<lparr>s_committed := s_work s\<rparr>"

definition rollback :: "session \<Rightarrow> session" where
  "rollback s = s\<lparr>s_work := s_committed s\<rparr>"

definition close_session :: "session \<Rightarrow> db" where
  "close_session s = s_committed s"

definition in_session :: "(db \<Rightarrow> db) \<Rightarrow> session \<Rightarrow> session" where
  "in_session f s = s\<lparr>s_work := f (s_work s)\<rparr>"

lemma close_open [simp]: "close_session (open_session d) = d"
  by (simp add: close_session_def open_session_def)

lemma close_rollback [simp]: "close_session (rollback s) = close_session s"
  by (simp add: close_session_def rollback_def)

lemma close_commit [simp]: "close_session (commit s) = s_work s"
  by (simp add: close_session_def commit_def)

lemma close_in_session [simp]: "close_session (in_session f s) = close_session s"
  by (simp add: close_session_def in_session_def)

lemma work_in_session [simp]: "s_work (in_session f s) = f (s_work s)"
  by (simp add: in_session_def)

lemma work_open [simp]: "s_work (open_session d) = d"
  by (simp add: open_session_def)

lemma work_commit [simp]: "s_work (commit s) = s_work s"
  by (simp add: commit_def)

subsection \<open>Consequences of the constraints\<close>

lemma keys_okD:
  assumes "keys_ok d"
  shows "distinct (map j_id (db_jobs d))" "distinct (map t_id (db_tasks d))"
    "distinct (map d_id (db_domains d))" "distinct (map d_normalized_domain (db_domains d))"
    "distinct (map dd_domain_id (db_details d))" "distinct (map idem_key (db_idem d))"
  using assms by (simp_all add: keys_ok_def)

lemma task_refs_ok_updates [simp]:
  "task_refs_ok (d\<lparr>db_tasks := ts\<rparr>) = task_refs_ok d"
  "task_refs_ok (d\<lparr>db_details := dds\<rparr>) = task_refs_ok d"
  "task_refs_ok (d\<lparr>db_idem := rs\<rparr>) = task_refs_ok d"
  by (simp_all add: task_refs_ok_def fun_eq_iff)

lemma schema_ok_empty [simp]: "schema_ok empty_db"
  by (simp add: schema_ok_def keys_ok_def refs_ok_def empty_db_def)

end
