(* ===== verification/Task_Repo.thy ===== *)
theory Task_Repo
  imports Model
begin

section \<open>The task repository (repositories/task.py)\<close>

text \<open>
  The operations of \<open>TaskRepository\<close> on the database: creation, the lookups, the keyset page of a
  job, the summary of a job, and the two queue operations \<open>claim_tasks\<close> and
  \<open>recover_expired_tasks\<close>. SELECT ... FOR UPDATE SKIP LOCKED is a filter that leaves out the rows
  another open transaction has locked (\<open>locked\<close>), a sort and a limit.
\<close>

subsection \<open>Reading and writing one task\<close>

definition get_task :: "uuid \<Rightarrow> db \<Rightarrow> task option" where
  "get_task i d = find_by t_id i (db_tasks d)"

definition put_task :: "task \<Rightarrow> db \<Rightarrow> db" where
  "put_task t d = d\<lparr>db_tasks := write_row t_id t (db_tasks d)\<rparr>"

definition put_tasks :: "task list \<Rightarrow> db \<Rightarrow> db" where
  "put_tasks ts d = d\<lparr>db_tasks := write_rows t_id ts (db_tasks d)\<rparr>"

definition integrity_error :: exn where
  "integrity_error = Exn IntegrityError ''integrity constraint violated''"

definition create_task :: "task \<Rightarrow> db \<Rightarrow> exn + db" where
  "create_task t d =
     (if t_id t \<in> t_id ` set (db_tasks d) \<or> \<not> task_refs_ok d t then Inl integrity_error
      else Inr (d\<lparr>db_tasks := db_tasks d @ [t]\<rparr>))"

fun create_task_batch :: "task list \<Rightarrow> db \<Rightarrow> exn + db" where
  "create_task_batch [] d = Inr d"
| "create_task_batch (t # ts) d =
     (case create_task t d of Inl e \<Rightarrow> Inl e | Inr d' \<Rightarrow> create_task_batch ts d')"

subsection \<open>Refresh tasks\<close>

text \<open>
  \<open>scalar_one_or_none\<close> raises when the query finds more than one row; on a lookup by a unique key
  it cannot, but the query for a pending refresh task of a domain is not by a key.
\<close>

fun scalar_one_or_none :: "'a list \<Rightarrow> exn + 'a option" where
  "scalar_one_or_none [] = Inr None"
| "scalar_one_or_none [x] = Inr (Some x)"
| "scalar_one_or_none (x # y # zs) =
     Inl (Exn MultipleResultsFound ''Multiple rows were found when one or none was required'')"

definition non_terminal :: "task_status \<Rightarrow> bool" where
  "non_terminal s \<longleftrightarrow> s = PENDING \<or> s = PROCESSING"

definition pending_refresh_for :: "uuid \<Rightarrow> task \<Rightarrow> bool" where
  "pending_refresh_for i t \<longleftrightarrow>
     t_domain_id t = i \<and> t_type t = REFRESH \<and> non_terminal (t_status t)"

definition get_pending_refresh_task_for_domain :: "uuid \<Rightarrow> db \<Rightarrow> exn + task option" where
  "get_pending_refresh_task_for_domain i d =
     scalar_one_or_none (filter (pending_refresh_for i) (db_tasks d))"

definition new_refresh_task :: "uuid \<Rightarrow> uuid \<Rightarrow> timestamp \<Rightarrow> task" where
  "new_refresh_task i dm now =
     \<lparr>t_id = i, t_job_id = None, t_domain_id = dm, t_type = REFRESH, t_status = PENDING,
      t_attempts = 0, t_next_attempt_at = now, t_lease_expires_at = None,
      t_error_payload = None, t_created_at = now, t_updated_at = now\<rparr>"

text \<open>
  The loop of \<open>create_refresh_tasks\<close>. Each lookup flushes the session first (autoflush), so it sees
  the tasks the loop has just added; \<open>ids\<close> supplies the results of \<open>uuid.uuid4()\<close> in order, one
  for each task created.
\<close>

fun create_refresh_tasks ::
  "uuid list \<Rightarrow> timestamp \<Rightarrow> (nat \<Rightarrow> uuid) \<Rightarrow> nat \<Rightarrow> db \<Rightarrow> exn + (task list \<times> db)" where
  "create_refresh_tasks [] now ids n d = Inr ([], d)"
| "create_refresh_tasks (dm # dms) now ids n d =
     (case get_pending_refresh_task_for_domain dm d of
        Inl e \<Rightarrow> Inl e
      | Inr (Some _) \<Rightarrow> create_refresh_tasks dms now ids n d
      | Inr None \<Rightarrow>
          (let t = new_refresh_task (ids n) dm now in
           case create_task t d of
             Inl e \<Rightarrow> Inl e
           | Inr d' \<Rightarrow>
               (case create_refresh_tasks dms now ids (Suc n) d' of
                  Inl e \<Rightarrow> Inl e
                | Inr (ts, d'') \<Rightarrow> Inr (t # ts, d''))))"

subsection \<open>Tasks of a job\<close>

definition get_by_job_id :: "uuid \<Rightarrow> db \<Rightarrow> task list" where
  "get_by_job_id j d = sort_key t_created_at (filter (\<lambda>t. t_job_id t = Some j) (db_tasks d))"

definition cursor_order :: "task \<Rightarrow> timestamp \<times> uuid" where
  "cursor_order t = (t_created_at t, t_id t)"

definition after_cursor :: "timestamp option \<Rightarrow> uuid option \<Rightarrow> task \<Rightarrow> bool" where
  "after_cursor at i t =
     (case (at, i) of
        (Some c, Some k) \<Rightarrow>
          t_created_at t > c \<or> (t_created_at t = c \<and> t_id t > k)
      | _ \<Rightarrow> True)"

definition get_by_job_id_paginated ::
  "uuid \<Rightarrow> nat \<Rightarrow> timestamp option \<Rightarrow> uuid option \<Rightarrow> db \<Rightarrow> task list" where
  "get_by_job_id_paginated j limit at i d =
     take (limit + 1)
       (sort_key cursor_order
         (filter (\<lambda>t. t_job_id t = Some j \<and> after_cursor at i t) (db_tasks d)))"

definition get_summary_by_job_id :: "uuid \<Rightarrow> db \<Rightarrow> (task_status \<rightharpoonup> nat)" where
  "get_summary_by_job_id j d = (\<lambda>s.
     let n = length (filter (\<lambda>t. t_job_id t = Some j \<and> t_status t = s) (db_tasks d))
     in if n = 0 then None else Some n)"

subsection \<open>Claiming tasks\<close>

definition queue_order :: "task \<Rightarrow> task_type \<times> timestamp \<times> uuid" where
  "queue_order t = (t_type t, t_created_at t, t_id t)"

definition claimable :: "(uuid \<Rightarrow> bool) \<Rightarrow> task_type list \<Rightarrow> task \<Rightarrow> bool" where
  "claimable locked types t \<longleftrightarrow>
     t_status t = PENDING \<and> t_type t \<in> set types \<and> \<not> locked (t_id t)"

definition claim_select :: "(uuid \<Rightarrow> bool) \<Rightarrow> int \<Rightarrow> task_type list \<Rightarrow> db \<Rightarrow> task list" where
  "claim_select locked limit types d =
     take (nat limit) (sort_key queue_order (filter (claimable locked types) (db_tasks d)))"

definition claim_mark :: "timestamp \<Rightarrow> timestamp \<Rightarrow> task \<Rightarrow> task" where
  "claim_mark lease now t =
     t\<lparr>t_status := PROCESSING, t_lease_expires_at := Some lease, t_updated_at := now,
       t_attempts := t_attempts t + 1\<rparr>"

definition claim_tasks ::
  "(uuid \<Rightarrow> bool) \<Rightarrow> int \<Rightarrow> timestamp \<Rightarrow> task_type list option \<Rightarrow> timestamp \<Rightarrow> db
     \<Rightarrow> task list \<times> db" where
  "claim_tasks locked limit lease types now d =
     (if limit \<le> 0 then ([], d)
      else
        (let types' = (case types of None \<Rightarrow> [USER_REQUEST, REFRESH] | Some ts \<Rightarrow> ts);
             claimed = map (claim_mark lease now) (claim_select locked limit types' d)
         in (claimed, put_tasks claimed d)))"

subsection \<open>Recovering expired tasks\<close>

text \<open>
  The backoff of a retry, in seconds: \<open>min(60 * 2 ** (attempts - 1), 3600)\<close>. With no attempt made the
  power is \<open>2 ** -1 = 0.5\<close> and the delay 30 seconds.
\<close>

definition base_delay :: int where
  "base_delay = 60"

definition backoff_delay :: "nat \<Rightarrow> int" where
  "backoff_delay attempts =
     (if attempts = 0 then min (base_delay div 2) 3600
      else min (base_delay * 2 ^ (attempts - 1)) 3600)"

definition expired :: "(uuid \<Rightarrow> bool) \<Rightarrow> timestamp \<Rightarrow> task \<Rightarrow> bool" where
  "expired locked now t \<longleftrightarrow>
     t_status t = PROCESSING \<and>
     (case t_lease_expires_at t of None \<Rightarrow> False | Some l \<Rightarrow> l < now) \<and>
     \<not> locked (t_id t)"

definition recover_select :: "(uuid \<Rightarrow> bool) \<Rightarrow> int \<Rightarrow> timestamp \<Rightarrow> db \<Rightarrow> task list" where
  "recover_select locked limit now d =
     take (nat limit) (sort_key queue_order (filter (expired locked now) (db_tasks d)))"

definition max_attempts_payload :: "string \<Rightarrow> error_payload" where
  "max_attempts_payload msg =
     \<lparr>ep_code = ''MAX_ATTEMPTS_EXCEEDED'', ep_message = msg, ep_retryable = False\<rparr>"

text \<open>
  One round of the loop of \<open>recover_expired_tasks\<close>: \<open>now\<close> is the reading of the clock before the
  loop, \<open>clock\<close> and \<open>jitter\<close> give the reading and the random number taken for each task, \<open>msg\<close> the
  text of the error for the maximum number of attempts.
\<close>

definition recover_mark ::
  "nat \<Rightarrow> string \<Rightarrow> timestamp \<Rightarrow> (uuid \<Rightarrow> timestamp) \<Rightarrow> (uuid \<Rightarrow> int) \<Rightarrow> task \<Rightarrow> task" where
  "recover_mark max_attempts msg now clock jitter t =
     (let t = t\<lparr>t_updated_at := now\<rparr> in
      if t_attempts t \<ge> max_attempts then
        t\<lparr>t_status := FAILED, t_error_payload := Some (max_attempts_payload msg),
          t_lease_expires_at := None\<rparr>
      else
        t\<lparr>t_status := PENDING, t_lease_expires_at := None,
          t_next_attempt_at :=
            clock (t_id t) + seconds (backoff_delay (t_attempts t) + jitter (t_id t))\<rparr>)"

definition recover_expired_tasks ::
  "nat \<Rightarrow> string \<Rightarrow> (uuid \<Rightarrow> bool) \<Rightarrow> int \<Rightarrow> timestamp \<Rightarrow> timestamp \<Rightarrow> (uuid \<Rightarrow> timestamp)
     \<Rightarrow> (uuid \<Rightarrow> int) \<Rightarrow> db \<Rightarrow> task list \<times> db" where
  "recover_expired_tasks max_attempts msg locked limit now now' clock jitter d =
     (if limit \<le> 0 then ([], d)
      else
        (let recovered = map (recover_mark max_attempts msg now' clock jitter)
                             (recover_select locked limit now d)
         in (recovered, put_tasks recovered d)))"

subsection \<open>The general update\<close>

definition update_task_status ::
  "uuid \<Rightarrow> task_status \<Rightarrow> timestamp option \<Rightarrow> nat option \<Rightarrow> timestamp option
     \<Rightarrow> error_payload option \<Rightarrow> timestamp \<Rightarrow> db \<Rightarrow> task option \<times> db" where
  "update_task_status i st lease attempts next_at payload now d =
     (case get_task i d of
        None \<Rightarrow> (None, d)
      | Some t \<Rightarrow>
          (let t = t\<lparr>t_status := st, t_updated_at := now\<rparr>;
               t = (case lease of None \<Rightarrow> t | Some l \<Rightarrow> t\<lparr>t_lease_expires_at := Some l\<rparr>);
               t = (case attempts of None \<Rightarrow> t | Some a \<Rightarrow> t\<lparr>t_attempts := a\<rparr>);
               t = (case next_at of None \<Rightarrow> t | Some n \<Rightarrow> t\<lparr>t_next_attempt_at := n\<rparr>);
               t = (case payload of None \<Rightarrow> t | Some p \<Rightarrow> t\<lparr>t_error_payload := Some p\<rparr>)
           in (Some t, put_task t d)))"


subsection \<open>The repository as a row store\<close>

interpretation task_rows: row_store get_task put_task t_id
  by unfold_locales
    (auto simp: get_task_def put_task_def row_simps find_by_None write_row_absent
      dest: find_by_SomeD)

lemma get_task_SomeD: "get_task i d = Some t \<Longrightarrow> t \<in> set (db_tasks d) \<and> t_id t = i"
  by (auto simp: get_task_def dest: find_by_SomeD)

lemma get_task_member:
  "keys_ok d \<Longrightarrow> t \<in> set (db_tasks d) \<Longrightarrow> get_task (t_id t) d = Some t"
  by (simp add: get_task_def find_by_member keys_okD)

lemma put_task_frame [frame_simps]:
  "db_jobs (put_task t d) = db_jobs d" "db_domains (put_task t d) = db_domains d"
  "db_details (put_task t d) = db_details d" "db_idem (put_task t d) = db_idem d"
  by (simp_all add: put_task_def)

lemma put_tasks_frame [frame_simps]:
  "db_jobs (put_tasks ts d) = db_jobs d" "db_domains (put_tasks ts d) = db_domains d"
  "db_details (put_tasks ts d) = db_details d" "db_idem (put_tasks ts d) = db_idem d"
  by (simp_all add: put_tasks_def)

lemma tasks_put_task: "x \<in> set (db_tasks (put_task t d)) \<Longrightarrow> x = t \<or> x \<in> set (db_tasks d)"
  by (auto simp: put_task_def dest: set_write_row)

lemma task_ids_put_task [simp]: "map t_id (db_tasks (put_task t d)) = map t_id (db_tasks d)"
  by (simp add: put_task_def)

lemma task_ids_put_tasks [simp]: "map t_id (db_tasks (put_tasks ts d)) = map t_id (db_tasks d)"
  by (simp add: put_tasks_def)

lemma tasks_put_tasks:
  "x \<in> set (db_tasks (put_tasks ts d)) \<Longrightarrow>
   x \<in> set ts \<or> x \<in> set (db_tasks d) \<and> t_id x \<notin> t_id ` set ts"
  by (auto simp: put_tasks_def dest: set_write_rows)

lemma get_task_put_tasks_changed:
  assumes "keys_ok d" and "\<And>t. t_id (f t) = t_id t" and "distinct (map t_id sel)"
    and "set sel \<subseteq> set (db_tasks d)" and "t \<in> set (db_tasks d)"
  shows "get_task (t_id t) (put_tasks (map f sel) d) = Some (if t \<in> set sel then f t else t)"
  using write_rows_changed [of t_id f sel "db_tasks d" t] assms
  by (simp add: get_task_def put_tasks_def keys_okD)

subsection \<open>Constraints of the schema are kept\<close>

lemma task_refs_ok_cong:
  "d_id ` set (db_domains d') = d_id ` set (db_domains d) \<Longrightarrow>
   j_id ` set (db_jobs d') = j_id ` set (db_jobs d) \<Longrightarrow>
   task_refs_ok d' t = task_refs_ok d t"
  by (simp add: task_refs_ok_def)

lemma schema_ok_tasks:
  assumes "schema_ok d" and "map t_id ts = map t_id (db_tasks d)"
    and "\<forall>t \<in> set ts. task_refs_ok d t"
  shows "schema_ok (d\<lparr>db_tasks := ts\<rparr>)"
proof -
  from assms show ?thesis
    by (simp add: schema_ok_def keys_ok_def refs_ok_def list_all_iff)
qed

lemma schema_ok_task_refs: "schema_ok d \<Longrightarrow> t \<in> set (db_tasks d) \<Longrightarrow> task_refs_ok d t"
  by (simp add: schema_ok_def refs_ok_def list_all_iff)

lemma schema_ok_put_task [schema_intros]:
  assumes "schema_ok d" and "get_task (t_id t) d = Some t0"
    and "t_job_id t = t_job_id t0" and "t_domain_id t = t_domain_id t0"
  shows "schema_ok (put_task t d)"
proof -
  have "task_refs_ok d t0"
    using assms(1,2) by (auto intro: schema_ok_task_refs dest: get_task_SomeD)
  then have "task_refs_ok d t"
    using assms(3,4) by (simp add: task_refs_ok_def)
  with assms(1) have "\<forall>x \<in> set (write_row t_id t (db_tasks d)). task_refs_ok d x"
    by (auto dest!: set_write_row intro: schema_ok_task_refs)
  with assms(1) show ?thesis
    unfolding put_task_def by (intro schema_ok_tasks) simp_all
qed

lemma schema_ok_put_tasks:
  assumes "schema_ok d" and "set sel \<subseteq> set (db_tasks d)"
    and "\<And>t. t_job_id (f t) = t_job_id t" and "\<And>t. t_domain_id (f t) = t_domain_id t"
  shows "schema_ok (put_tasks (map f sel) d)"
proof -
  have "\<forall>x \<in> set (write_rows t_id (map f sel) (db_tasks d)). task_refs_ok d x"
  proof
    fix x assume "x \<in> set (write_rows t_id (map f sel) (db_tasks d))"
    then consider t where "t \<in> set sel" "x = f t" | "x \<in> set (db_tasks d)"
      by (auto dest!: set_write_rows)
    then show "task_refs_ok d x"
    proof cases
      case 1
      then have "task_refs_ok d t" using assms(1,2) by (auto intro: schema_ok_task_refs)
      with 1 assms(3,4) show ?thesis by (simp add: task_refs_ok_def)
    next
      case 2
      with assms(1) show ?thesis by (rule schema_ok_task_refs)
    qed
  qed
  with assms(1) show ?thesis
    unfolding put_tasks_def by (intro schema_ok_tasks) simp_all
qed

lemma create_task_InrD:
  assumes "create_task t d = Inr d'"
  shows "d' = d\<lparr>db_tasks := db_tasks d @ [t]\<rparr>" "t_id t \<notin> t_id ` set (db_tasks d)"
    "task_refs_ok d t"
  using assms by (auto simp: create_task_def split: if_splits)

lemma schema_ok_create_task:
  assumes "schema_ok d" and "create_task t d = Inr d'"
  shows "schema_ok d'"
proof -
  note new = create_task_InrD [OF assms(2)]
  from assms(1) new(2,3) show ?thesis
    by (simp add: new(1) schema_ok_def keys_ok_def refs_ok_def)
qed

lemma create_task_batch_InrD:
  "create_task_batch ts d = Inr d' \<Longrightarrow> d' = d\<lparr>db_tasks := db_tasks d @ ts\<rparr>"
proof (induction ts arbitrary: d)
  case Nil
  then show ?case by simp
next
  case (Cons t ts)
  then obtain d1 where "create_task t d = Inr d1" and "create_task_batch ts d1 = Inr d'"
    by (auto split: sum.splits)
  with Cons.IH [of d1] create_task_InrD(1) [of t d d1] show ?case by simp
qed

lemma schema_ok_create_task_batch:
  "schema_ok d \<Longrightarrow> create_task_batch ts d = Inr d' \<Longrightarrow> schema_ok d'"
  by (induction ts arbitrary: d)
    (auto split: sum.splits dest: schema_ok_create_task)

subsection \<open>Selecting rows for the queue\<close>

lemma claim_select_subset: "set (claim_select locked limit types d) \<subseteq> set (db_tasks d)"
  unfolding claim_select_def using set_take_sort_key by fastforce

lemma claim_select_claimable:
  "t \<in> set (claim_select locked limit types d) \<Longrightarrow> claimable locked types t"
  unfolding claim_select_def using set_take_sort_key by fastforce

lemma claim_selectD:
  assumes "t \<in> set (claim_select locked limit types d)"
  shows "t \<in> set (db_tasks d)" "t_status t = PENDING" "\<not> locked (t_id t)" "t_type t \<in> set types"
  using subsetD [OF claim_select_subset assms] claim_select_claimable [OF assms]
  by (simp_all add: claimable_def)

lemma distinct_ids_claim_select:
  "keys_ok d \<Longrightarrow> distinct (map t_id (claim_select locked limit types d))"
  by (simp add: claim_select_def distinct_map_take distinct_map_sort_key
      distinct_map_filter_key keys_okD)

lemma length_claim_select:
  "length (claim_select locked limit types d) =
     min (nat limit) (length (filter (claimable locked types) (db_tasks d)))"
  by (simp add: claim_select_def min.commute)

lemma claim_select_first:
  assumes "c \<in> set (claim_select locked limit types d)" and "t \<in> set (db_tasks d)"
    and "claimable locked types t" and "t \<notin> set (claim_select locked limit types d)"
  shows "queue_order c \<le> queue_order t"
  using assms unfolding claim_select_def
  by (intro take_sort_key_le [where xs = "filter (claimable locked types) (db_tasks d)"]) auto

lemma claim_mark_fields [simp]:
  "t_id (claim_mark lease now t) = t_id t"
  "t_job_id (claim_mark lease now t) = t_job_id t"
  "t_domain_id (claim_mark lease now t) = t_domain_id t"
  "t_status (claim_mark lease now t) = PROCESSING"
  "t_attempts (claim_mark lease now t) = Suc (t_attempts t)"
  "t_lease_expires_at (claim_mark lease now t) = Some lease"
  "t_error_payload (claim_mark lease now t) = t_error_payload t"
  "queue_order (claim_mark lease now t) = queue_order t"
  by (simp_all add: claim_mark_def queue_order_def)

lemma recover_select_subset: "set (recover_select locked limit now d) \<subseteq> set (db_tasks d)"
  unfolding recover_select_def using set_take_sort_key by fastforce

lemma recover_select_expired:
  "t \<in> set (recover_select locked limit now d) \<Longrightarrow> expired locked now t"
  unfolding recover_select_def using set_take_sort_key by fastforce

lemma recover_selectD:
  assumes "t \<in> set (recover_select locked limit now d)"
  shows "t \<in> set (db_tasks d)" "t_status t = PROCESSING" "\<not> locked (t_id t)"
  using subsetD [OF recover_select_subset assms] recover_select_expired [OF assms]
  by (simp_all add: expired_def)

lemma distinct_ids_recover_select:
  "keys_ok d \<Longrightarrow> distinct (map t_id (recover_select locked limit now d))"
  by (simp add: recover_select_def distinct_map_take distinct_map_sort_key
      distinct_map_filter_key keys_okD)

lemma recover_mark_fields [simp]:
  "t_id (recover_mark m msg now clock jitter t) = t_id t"
  "t_job_id (recover_mark m msg now clock jitter t) = t_job_id t"
  "t_domain_id (recover_mark m msg now clock jitter t) = t_domain_id t"
  "t_attempts (recover_mark m msg now clock jitter t) = t_attempts t"
  "t_lease_expires_at (recover_mark m msg now clock jitter t) = None"
  "t_type (recover_mark m msg now clock jitter t) = t_type t"
  by (simp_all add: recover_mark_def Let_def)

lemma recover_mark_status:
  "t_status (recover_mark m msg now clock jitter t) =
     (if m \<le> t_attempts t then FAILED else PENDING)"
  by (simp add: recover_mark_def Let_def)

lemma schema_ok_claim_tasks [schema_intros]:
  "schema_ok d \<Longrightarrow> claim_tasks locked limit lease types now d = (ts, d') \<Longrightarrow> schema_ok d'"
  by (auto simp: claim_tasks_def Let_def
      intro!: schema_ok_put_tasks dest: subsetD [OF claim_select_subset] split: if_splits)

lemma schema_ok_recover [schema_intros]:
  "schema_ok d \<Longrightarrow>
   recover_expired_tasks m msg locked limit now now' clock jitter d = (ts, d') \<Longrightarrow> schema_ok d'"
  by (auto simp: recover_expired_tasks_def Let_def
      intro!: schema_ok_put_tasks dest: subsetD [OF recover_select_subset] split: if_splits)

end
