(* ===== verification/Job_Repo.thy ===== *)
theory Job_Repo
  imports Task_Repo
begin

section \<open>The job and idempotency repositories (repositories/job.py, repositories/idempotency.py)\<close>

text \<open>
  Jobs are read and written by identifier. An idempotency record is unique in its client and key:
  inserting a second one raises an integrity error, which \<open>upsert\<close> turns into the record that is
  there, inside a savepoint.
\<close>

subsection \<open>Jobs\<close>

definition get_job :: "uuid \<Rightarrow> db \<Rightarrow> job option" where
  "get_job i d = find_by j_id i (db_jobs d)"

definition put_job :: "job \<Rightarrow> db \<Rightarrow> db" where
  "put_job j d = d\<lparr>db_jobs := write_row j_id j (db_jobs d)\<rparr>"

definition create_job_row :: "job \<Rightarrow> db \<Rightarrow> exn + db" where
  "create_job_row j d =
     (if j_id j \<in> j_id ` set (db_jobs d) then Inl integrity_error
      else Inr (d\<lparr>db_jobs := db_jobs d @ [j]\<rparr>))"

definition update_job_status :: "uuid \<Rightarrow> task_status \<Rightarrow> timestamp \<Rightarrow> db \<Rightarrow> job option \<times> db" where
  "update_job_status i st now d =
     (case get_job i d of
        None \<Rightarrow> (None, d)
      | Some j \<Rightarrow> (let j = j\<lparr>j_status := st, j_updated_at := now\<rparr> in (Some j, put_job j d)))"

definition job_exists :: "uuid \<Rightarrow> db \<Rightarrow> bool" where
  "job_exists i d \<longleftrightarrow> get_job i d \<noteq> None"

subsection \<open>Idempotency records\<close>

definition get_idem :: "string \<Rightarrow> string \<Rightarrow> db \<Rightarrow> idempotency_record option" where
  "get_idem client key d = find_by idem_key (client, key) (db_idem d)"

definition create_idem :: "idempotency_record \<Rightarrow> db \<Rightarrow> exn + db" where
  "create_idem r d =
     (if ir_id r \<in> ir_id ` set (db_idem d) \<or> idem_key r \<in> idem_key ` set (db_idem d) \<or>
         ir_job_id r \<notin> j_id ` set (db_jobs d)
      then Inl integrity_error
      else Inr (d\<lparr>db_idem := db_idem d @ [r]\<rparr>))"

text \<open>
  \<open>upsert\<close>: look the key up, otherwise insert in a savepoint; when that raises an integrity error the
  savepoint is undone and the key is looked up again.
\<close>

definition upsert_idem :: "idempotency_record \<Rightarrow> db \<Rightarrow> exn + (idempotency_record \<times> bool \<times> db)" where
  "upsert_idem r d =
     (case get_idem (ir_client_id r) (ir_idempotency_key r) d of
        Some ex \<Rightarrow> Inr (ex, False, d)
      | None \<Rightarrow>
          (case create_idem r d of
             Inr d' \<Rightarrow> Inr (r, True, d')
           | Inl e \<Rightarrow>
               if exn_class e = IntegrityError then
                 (case get_idem (ir_client_id r) (ir_idempotency_key r) d of
                    Some ex \<Rightarrow> Inr (ex, False, d)
                  | None \<Rightarrow> Inl e)
               else Inl e))"

subsection \<open>The repositories as row stores, and the constraints of the schema\<close>

interpretation job_rows: row_store get_job put_job j_id
  by unfold_locales
    (auto simp: get_job_def put_job_def row_simps find_by_None write_row_absent
      dest: find_by_SomeD)

lemma get_job_SomeD: "get_job i d = Some j \<Longrightarrow> j \<in> set (db_jobs d) \<and> j_id j = i"
  by (auto simp: get_job_def dest: find_by_SomeD)

lemma put_job_frame [frame_simps, simp]:
  "db_tasks (put_job j d) = db_tasks d" "db_domains (put_job j d) = db_domains d"
  "db_details (put_job j d) = db_details d" "db_idem (put_job j d) = db_idem d"
  by (simp_all add: put_job_def)

lemma get_task_put_job [frame_simps, simp]: "get_task i (put_job j d) = get_task i d"
  by (simp add: get_task_def)

lemma get_job_put_task [frame_simps, simp]: "get_job i (put_task t d) = get_job i d"
  by (simp add: get_job_def put_task_def)

lemma job_ids_put_job [simp]: "map j_id (db_jobs (put_job j d)) = map j_id (db_jobs d)"
  by (simp add: put_job_def)

lemma job_id_set_put_job [simp]: "j_id ` set (db_jobs (put_job j d)) = j_id ` set (db_jobs d)"
  by (simp add: put_job_def)

lemma task_refs_ok_put_job [simp]: "task_refs_ok (put_job j d) = task_refs_ok d"
  by (simp add: task_refs_ok_def fun_eq_iff)

lemma schema_ok_put_job [schema_intros]: "schema_ok d \<Longrightarrow> schema_ok (put_job j d)"
  by (simp add: schema_ok_def keys_ok_def refs_ok_def)

lemma schema_ok_create_job_row:
  assumes "schema_ok d" and "create_job_row j d = Inr d'"
  shows "schema_ok d'"
proof -
  have new: "d' = d\<lparr>db_jobs := db_jobs d @ [j]\<rparr>" "j_id j \<notin> j_id ` set (db_jobs d)"
    using assms(2) by (auto simp: create_job_row_def split: if_splits)
  have "task_refs_ok d t \<Longrightarrow> task_refs_ok d' t" for t
    by (auto simp: new(1) task_refs_ok_def)
  with assms(1) new show ?thesis
    by (auto simp: schema_ok_def keys_ok_def refs_ok_def list_all_iff)
qed

lemma create_idem_InrD:
  assumes "create_idem r d = Inr d'"
  shows "d' = d\<lparr>db_idem := db_idem d @ [r]\<rparr>" "idem_key r \<notin> idem_key ` set (db_idem d)"
    "ir_id r \<notin> ir_id ` set (db_idem d)" "ir_job_id r \<in> j_id ` set (db_jobs d)"
  using assms by (auto simp: create_idem_def split: if_splits)

lemma schema_ok_create_idem:
  assumes "schema_ok d" and "create_idem r d = Inr d'"
  shows "schema_ok d'"
  using assms(1) create_idem_InrD [OF assms(2)]
  by (simp add: schema_ok_def keys_ok_def refs_ok_def)

lemma schema_ok_upsert_idem:
  "schema_ok d \<Longrightarrow> upsert_idem r d = Inr (r', new, d') \<Longrightarrow> schema_ok d'"
  by (auto simp: upsert_idem_def split: option.splits sum.splits if_splits
      intro: schema_ok_create_idem)

end
