(* ===== verification/Domain_Repo.thy ===== *)
theory Domain_Repo
  imports Job_Repo Py_Str
begin

section \<open>The domain repository (repositories/domain.py)\<close>

text \<open>
  Domains are found by identifier and by normalized name, which the unique index keeps unique; they
  are created one by one or in a batch, reactivated on request, and their details deleted.
\<close>

subsection \<open>Operations\<close>

definition get_domain :: "uuid \<Rightarrow> db \<Rightarrow> domain option" where
  "get_domain i d = find_by d_id i (db_domains d)"

definition put_domain :: "domain \<Rightarrow> db \<Rightarrow> db" where
  "put_domain dm d = d\<lparr>db_domains := write_row d_id dm (db_domains d)\<rparr>"

definition create_domain :: "domain \<Rightarrow> db \<Rightarrow> exn + db" where
  "create_domain dm d =
     (if d_id dm \<in> d_id ` set (db_domains d) \<or>
         d_normalized_domain dm \<in> d_normalized_domain ` set (db_domains d)
      then Inl integrity_error
      else Inr (d\<lparr>db_domains := db_domains d @ [dm]\<rparr>))"

definition get_by_normalized_domain :: "string \<Rightarrow> db \<Rightarrow> domain option" where
  "get_by_normalized_domain name d = find_by d_normalized_domain name (db_domains d)"

definition get_by_normalized_domains :: "string list \<Rightarrow> db \<Rightarrow> domain list" where
  "get_by_normalized_domains names d =
     (if names = [] then []
      else filter (\<lambda>dm. d_normalized_domain dm \<in> set names) (db_domains d))"

fun create_domain_batch :: "domain list \<Rightarrow> db \<Rightarrow> exn + db" where
  "create_domain_batch [] d = Inr d"
| "create_domain_batch (dm # dms) d =
     (case create_domain dm d of Inl e \<Rightarrow> Inl e | Inr d' \<Rightarrow> create_domain_batch dms d')"

definition new_domain :: "uuid \<Rightarrow> string \<Rightarrow> timestamp \<Rightarrow> domain" where
  "new_domain i name now =
     \<lparr>d_id = i, d_normalized_domain = name, d_is_active = True, d_deactivated_at = None,
      d_created_at = now, d_updated_at = now\<rparr>"

definition get_or_create_domain :: "string \<Rightarrow> uuid \<Rightarrow> timestamp \<Rightarrow> db \<Rightarrow> exn + (domain \<times> db)" where
  "get_or_create_domain name new_id now d =
     (case get_by_normalized_domain name d of
        Some dm \<Rightarrow> Inr (dm, d)
      | None \<Rightarrow>
          (let dm = new_domain new_id name now in
           case create_domain dm d of Inl e \<Rightarrow> Inl e | Inr d' \<Rightarrow> Inr (dm, d')))"

definition update_domain ::
  "uuid \<Rightarrow> bool option \<Rightarrow> timestamp option \<Rightarrow> timestamp \<Rightarrow> db \<Rightarrow> domain option \<times> db" where
  "update_domain i active deactivated now d =
     (case get_domain i d of
        None \<Rightarrow> (None, d)
      | Some dm \<Rightarrow>
          (let dm = (case active of None \<Rightarrow> dm | Some a \<Rightarrow> dm\<lparr>d_is_active := a\<rparr>);
               dm = (case deactivated of None \<Rightarrow> dm | Some x \<Rightarrow> dm\<lparr>d_deactivated_at := Some x\<rparr>);
               dm = dm\<lparr>d_updated_at := now\<rparr>
           in (Some dm, put_domain dm d)))"

definition reactivate :: "timestamp \<Rightarrow> domain \<Rightarrow> domain" where
  "reactivate now dm = dm\<lparr>d_is_active := True, d_deactivated_at := None, d_updated_at := now\<rparr>"

definition get_or_create_with_reactivation ::
  "string \<Rightarrow> uuid \<Rightarrow> timestamp \<Rightarrow> db \<Rightarrow> exn + (domain \<times> bool \<times> db)" where
  "get_or_create_with_reactivation name new_id now d =
     (case get_by_normalized_domain name d of
        Some dm \<Rightarrow>
          if \<not> d_is_active dm
          then Inr (reactivate now dm, True, put_domain (reactivate now dm) d)
          else Inr (dm, False, d)
      | None \<Rightarrow>
          (let dm = new_domain new_id name now in
           case create_domain dm d of Inl e \<Rightarrow> Inl e | Inr d' \<Rightarrow> Inr (dm, False, d')))"

definition clear_domain_detail :: "uuid \<Rightarrow> db \<Rightarrow> db" where
  "clear_domain_detail i d = d\<lparr>db_details := filter (\<lambda>dd. dd_domain_id dd \<noteq> i) (db_details d)\<rparr>"

definition clear_domain_details_batch :: "uuid list \<Rightarrow> db \<Rightarrow> db" where
  "clear_domain_details_batch ids d =
     (if ids = [] then d
      else d\<lparr>db_details := filter (\<lambda>dd. dd_domain_id dd \<notin> set ids) (db_details d)\<rparr>)"

text \<open>
  Soft deactivation, which the processor, its retry handler and the recovery cycle all perform with
  the same four statements.
\<close>

definition deactivate :: "timestamp \<Rightarrow> domain \<Rightarrow> domain" where
  "deactivate now dm =
     dm\<lparr>d_is_active := False, d_deactivated_at := Some now, d_updated_at := now\<rparr>"

subsection \<open>The repository as a row store, and the constraints of the schema\<close>

interpretation domain_rows: row_store get_domain put_domain d_id
  by unfold_locales
    (auto simp: get_domain_def put_domain_def row_simps find_by_None write_row_absent
      dest: find_by_SomeD)

lemma get_domain_SomeD: "get_domain i d = Some dm \<Longrightarrow> dm \<in> set (db_domains d) \<and> d_id dm = i"
  by (auto simp: get_domain_def dest: find_by_SomeD)

lemma put_domain_frame [frame_simps, simp]:
  "db_tasks (put_domain dm d) = db_tasks d" "db_jobs (put_domain dm d) = db_jobs d"
  "db_details (put_domain dm d) = db_details d" "db_idem (put_domain dm d) = db_idem d"
  by (simp_all add: put_domain_def)

lemma get_put_domain_frame [frame_simps, simp]:
  "get_task i (put_domain dm d) = get_task i d" "get_job i (put_domain dm d) = get_job i d"
  "get_domain i (put_task t d) = get_domain i d" "get_domain i (put_job j d) = get_domain i d"
  by (simp_all add: get_task_def get_job_def get_domain_def frame_simps)

lemma domain_id_set_put_domain [simp]:
  "d_id ` set (db_domains (put_domain dm d)) = d_id ` set (db_domains d)"
  by (simp add: put_domain_def)

lemma task_refs_ok_put_domain [simp]: "task_refs_ok (put_domain dm d) = task_refs_ok d"
  by (simp add: task_refs_ok_def fun_eq_iff)

lemma names_write_row:
  "find_by d_id (d_id dm) ds = Some dm0 \<Longrightarrow> distinct (map d_id ds) \<Longrightarrow>
   d_normalized_domain dm = d_normalized_domain dm0 \<Longrightarrow>
   map d_normalized_domain (write_row d_id dm ds) = map d_normalized_domain ds"
  by (induction ds) (auto simp: row_simps write_row_absent split: if_splits)

lemma schema_ok_put_domain [schema_intros]:
  assumes "schema_ok d" and "get_domain (d_id dm) d = Some dm0"
    and "d_normalized_domain dm = d_normalized_domain dm0"
  shows "schema_ok (put_domain dm d)"
proof -
  have "map d_normalized_domain (db_domains (put_domain dm d)) = map d_normalized_domain (db_domains d)"
    using assms names_write_row [of dm "db_domains d" dm0]
    by (simp add: put_domain_def get_domain_def schema_ok_def keys_ok_def)
  moreover have "map d_id (db_domains (put_domain dm d)) = map d_id (db_domains d)"
    by (simp add: put_domain_def)
  ultimately show ?thesis
    using assms(1) by (simp add: schema_ok_def keys_ok_def refs_ok_def)
qed

lemma create_domain_InrD:
  assumes "create_domain dm d = Inr d'"
  shows "d' = d\<lparr>db_domains := db_domains d @ [dm]\<rparr>" "d_id dm \<notin> d_id ` set (db_domains d)"
    "d_normalized_domain dm \<notin> d_normalized_domain ` set (db_domains d)"
  using assms by (auto simp: create_domain_def split: if_splits)

lemma schema_ok_create_domain:
  assumes "schema_ok d" and "create_domain dm d = Inr d'"
  shows "schema_ok d'"
proof -
  note new = create_domain_InrD [OF assms(2)]
  have "task_refs_ok d t \<Longrightarrow> task_refs_ok d' t" for t
    by (auto simp: new(1) task_refs_ok_def)
  with assms(1) new show ?thesis
    by (auto simp: schema_ok_def keys_ok_def refs_ok_def list_all_iff)
qed

lemma create_domain_batch_InrD:
  "create_domain_batch dms d = Inr d' \<Longrightarrow> d' = d\<lparr>db_domains := db_domains d @ dms\<rparr>"
proof (induction dms arbitrary: d)
  case Nil
  then show ?case by simp
next
  case (Cons dm dms)
  then obtain d1 where "create_domain dm d = Inr d1" and "create_domain_batch dms d1 = Inr d'"
    by (auto split: sum.splits)
  with Cons.IH [of d1] create_domain_InrD(1) [of dm d d1] show ?case by simp
qed

lemma schema_ok_create_domain_batch:
  "schema_ok d \<Longrightarrow> create_domain_batch dms d = Inr d' \<Longrightarrow> schema_ok d'"
  by (induction dms arbitrary: d)
    (auto split: sum.splits dest: schema_ok_create_domain)

lemma schema_ok_filter_details [schema_intros]:
  "schema_ok d \<Longrightarrow> schema_ok (d\<lparr>db_details := filter P (db_details d)\<rparr>)"
  by (auto simp: schema_ok_def keys_ok_def refs_ok_def list_all_iff distinct_map_filter_key)

lemma schema_ok_clear_batch [schema_intros]:
  "schema_ok d \<Longrightarrow> schema_ok (clear_domain_details_batch ids d)"
  by (simp add: clear_domain_details_batch_def schema_ok_filter_details)

lemma deactivate_fields [simp]:
  "d_id (deactivate now dm) = d_id dm"
  "d_normalized_domain (deactivate now dm) = d_normalized_domain dm"
  "\<not> d_is_active (deactivate now dm)"
  "d_deactivated_at (deactivate now dm) = Some now"
  by (simp_all add: deactivate_def)

lemma reactivate_fields [simp]:
  "d_id (reactivate now dm) = d_id dm"
  "d_normalized_domain (reactivate now dm) = d_normalized_domain dm"
  "d_is_active (reactivate now dm)"
  "d_deactivated_at (reactivate now dm) = None"
  by (simp_all add: reactivate_def)

end
