(* ===== verification/Detail_Repo.thy ===== *)
theory Detail_Repo
  imports Domain_Repo
begin

section \<open>The detail repository (repositories/domain\_detail.py)\<close>

text \<open>
  A domain has at most one detail row, keyed by the domain. \<open>upsert_with_occ\<close> writes it only if its
  version is still the one the caller read: first a conditional UPDATE, then, when that matched no
  row, an INSERT if there is none and an error if there is one.
\<close>

subsection \<open>Operations\<close>

definition get_detail :: "uuid \<Rightarrow> db \<Rightarrow> domain_detail option" where
  "get_detail i d = find_by dd_domain_id i (db_details d)"

definition put_detail :: "domain_detail \<Rightarrow> db \<Rightarrow> db" where
  "put_detail dd d = d\<lparr>db_details := write_row dd_domain_id dd (db_details d)\<rparr>"

definition create_detail :: "domain_detail \<Rightarrow> db \<Rightarrow> exn + db" where
  "create_detail dd d =
     (if dd_domain_id dd \<in> dd_domain_id ` set (db_details d) \<or>
         dd_domain_id dd \<notin> d_id ` set (db_domains d)
      then Inl integrity_error
      else Inr (d\<lparr>db_details := db_details d @ [dd]\<rparr>))"

text \<open>INSERT ... ON CONFLICT (domain\_id) DO UPDATE.\<close>

definition upsert_detail :: "domain_detail \<Rightarrow> db \<Rightarrow> exn + (domain_detail \<times> db)" where
  "upsert_detail dd d =
     (case (if get_detail (dd_domain_id dd) d \<noteq> None then Inr (put_detail dd d)
            else create_detail dd d) of
        Inl e \<Rightarrow> Inl e
      | Inr d' \<Rightarrow>
          (case get_detail (dd_domain_id dd) d' of
             None \<Rightarrow> Inl (Exn RuntimeError ''DomainDetail not found after upsert'')
           | Some u \<Rightarrow> Inr (u, d')))"

definition occ_matches :: "domain_detail \<Rightarrow> int \<Rightarrow> domain_detail \<Rightarrow> bool" where
  "occ_matches dd expected r \<longleftrightarrow> dd_domain_id r = dd_domain_id dd \<and> dd_version r = expected"

definition occ_update :: "domain_detail \<Rightarrow> int \<Rightarrow> db \<Rightarrow> nat \<times> db" where
  "occ_update dd expected d =
     (length (filter (occ_matches dd expected) (db_details d)),
      d\<lparr>db_details :=
          map (\<lambda>r. if occ_matches dd expected r then dd\<lparr>dd_version := expected + 1\<rparr> else r)
            (db_details d)\<rparr>)"

definition occ_conflict :: "int \<Rightarrow> int \<Rightarrow> exn" where
  "occ_conflict expected found =
     Exn RuntimeError (''OCC conflict: expected version '' @ str_of_int expected @
                       '', found version '' @ str_of_int found)"

definition upsert_with_occ :: "domain_detail \<Rightarrow> int \<Rightarrow> db \<Rightarrow> exn + (domain_detail \<times> db)" where
  "upsert_with_occ dd expected d =
     (let (rowcount, d1) = occ_update dd expected d in
      case (if rowcount = 0 then
              (case get_detail (dd_domain_id dd) d1 of
                 None \<Rightarrow> create_detail (dd\<lparr>dd_version := 1\<rparr>) d1
               | Some ex \<Rightarrow> Inl (occ_conflict expected (dd_version ex)))
            else Inr d1) of
        Inl e \<Rightarrow> Inl e
      | Inr d2 \<Rightarrow>
          (case get_detail (dd_domain_id dd) d2 of
             None \<Rightarrow> Inl (Exn RuntimeError ''DomainDetail not found after upsert_with_occ'')
           | Some u \<Rightarrow> Inr (u, d2)))"

definition get_stale_domains :: "int \<Rightarrow> timestamp \<Rightarrow> db \<Rightarrow> domain_detail list" where
  "get_stale_domains limit now d =
     take (nat limit)
       (sort_key dd_next_refresh_at (filter (\<lambda>dd. dd_next_refresh_at dd \<le> now) (db_details d)))"

text \<open>The join of the details with their domains.\<close>

definition detail_join :: "db \<Rightarrow> (domain_detail \<times> domain) list" where
  "detail_join d =
     concat (map (\<lambda>dd. map (Pair dd) (filter (\<lambda>dm. d_id dm = dd_domain_id dd) (db_domains d)))
              (db_details d))"

definition get_domains_needing_refresh :: "int \<Rightarrow> timestamp \<Rightarrow> db \<Rightarrow> (uuid \<times> string) list" where
  "get_domains_needing_refresh limit now d =
     map (\<lambda>(dd, dm). (dd_domain_id dd, d_normalized_domain dm))
       (take (nat limit)
         (sort_key (\<lambda>(dd, dm). dd_next_refresh_at dd)
           (filter (\<lambda>(dd, dm). d_is_active dm \<and> dd_next_refresh_at dd \<le> now) (detail_join d))))"

subsection \<open>The repository as a row store\<close>

interpretation detail_rows: row_store get_detail put_detail dd_domain_id
  by unfold_locales
    (auto simp: get_detail_def put_detail_def row_simps find_by_None write_row_absent
      dest: find_by_SomeD)

lemma get_detail_SomeD:
  "get_detail i d = Some dd \<Longrightarrow> dd \<in> set (db_details d) \<and> dd_domain_id dd = i"
  by (auto simp: get_detail_def dest: find_by_SomeD)

subsection \<open>What the conditional write does\<close>

text \<open>
  On a table whose key is unique, the conditional UPDATE is the write of one row, or nothing.
\<close>

lemma filter_unique_key:
  "distinct (map key rs) \<Longrightarrow>
   filter (\<lambda>r. key r = k \<and> P r) rs =
     (case find_by key k rs of None \<Rightarrow> [] | Some r \<Rightarrow> if P r then [r] else [])"
proof (induction rs)
  case Nil
  then show ?case by (simp add: row_simps)
next
  case (Cons r rs)
  show ?case
  proof (cases "key r = k")
    case True
    then have "find_by key k rs = None"
      using Cons.prems by (auto simp: find_by_None)
    with Cons True show ?thesis by (simp add: row_simps)
  next
    case False
    with Cons show ?thesis by (simp add: row_simps)
  qed
qed

lemma map_unique_key:
  "distinct (map key rs) \<Longrightarrow> key u = k \<Longrightarrow>
   map (\<lambda>r. if key r = k \<and> P r then u else r) rs =
     (case find_by key k rs of None \<Rightarrow> rs | Some r \<Rightarrow> if P r then write_row key u rs else rs)"
proof (induction rs)
  case Nil
  then show ?case by (simp add: row_simps)
next
  case (Cons r rs)
  show ?case
  proof (cases "key r = k")
    case True
    then have "find_by key k rs = None" and "key u \<notin> key ` set rs"
      using Cons.prems by (auto simp: find_by_None)
    with Cons True show ?thesis by (simp add: row_simps write_row_absent)
  next
    case False
    with Cons show ?thesis by (auto simp: row_simps split: option.split)
  qed
qed

lemma occ_update_cases:
  assumes "keys_ok d"
  shows "occ_update dd expected d =
    (case get_detail (dd_domain_id dd) d of
       None \<Rightarrow> (0, d)
     | Some r \<Rightarrow> if dd_version r = expected then (1, put_detail (dd\<lparr>dd_version := expected + 1\<rparr>) d)
                else (0, d))"
  using filter_unique_key [of dd_domain_id "db_details d" "dd_domain_id dd" "\<lambda>r. dd_version r = expected"]
    map_unique_key [of dd_domain_id "db_details d" "dd\<lparr>dd_version := expected + 1\<rparr>"
      "dd_domain_id dd" "\<lambda>r. dd_version r = expected"]
    assms
  by (auto simp: occ_update_def occ_matches_def [abs_def] get_detail_def put_detail_def keys_okD
      split: option.split)

lemma get_detail_append:
  "get_detail (dd_domain_id dd) d = None \<Longrightarrow>
   get_detail (dd_domain_id dd) (d\<lparr>db_details := db_details d @ [dd]\<rparr>) = Some dd"
  by (simp add: get_detail_def row_simps)

lemma create_detail_absent:
  "get_detail (dd_domain_id dd) d = None \<Longrightarrow>
   create_detail dd d =
     (if dd_domain_id dd \<in> d_id ` set (db_domains d) then Inr (d\<lparr>db_details := db_details d @ [dd]\<rparr>)
      else Inl integrity_error)"
  by (auto simp: create_detail_def get_detail_def find_by_None)

text \<open>The four outcomes of the conditional upsert.\<close>

lemma upsert_with_occ_cases:
  assumes "keys_ok d"
  shows "upsert_with_occ dd expected d =
    (case get_detail (dd_domain_id dd) d of
       Some r \<Rightarrow>
         if dd_version r = expected
         then Inr (dd\<lparr>dd_version := expected + 1\<rparr>, put_detail (dd\<lparr>dd_version := expected + 1\<rparr>) d)
         else Inl (occ_conflict expected (dd_version r))
     | None \<Rightarrow>
         if dd_domain_id dd \<in> d_id ` set (db_domains d)
         then Inr (dd\<lparr>dd_version := 1\<rparr>, d\<lparr>db_details := db_details d @ [dd\<lparr>dd_version := 1\<rparr>]\<rparr>)
         else Inl integrity_error)"
  using get_detail_append [of "dd\<lparr>dd_version := 1\<rparr>" d] create_detail_absent [of "dd\<lparr>dd_version := 1\<rparr>" d]
    detail_rows.get_put_same [of "dd\<lparr>dd_version := expected + 1\<rparr>" d]
  by (auto simp: upsert_with_occ_def occ_update_cases [OF assms] split: option.split)

subsection \<open>Constraints of the schema\<close>

lemma put_detail_frame [frame_simps, simp]:
  "db_tasks (put_detail dd d) = db_tasks d" "db_jobs (put_detail dd d) = db_jobs d"
  "db_domains (put_detail dd d) = db_domains d" "db_idem (put_detail dd d) = db_idem d"
  by (simp_all add: put_detail_def)

lemma schema_ok_put_detail [schema_intros]:
  assumes "schema_ok d" and "get_detail (dd_domain_id dd) d \<noteq> None"
  shows "schema_ok (put_detail dd d)"
proof -
  have refs: "task_refs_ok (put_detail dd d) = task_refs_ok d"
    by (simp add: put_detail_def)
  from assms(2) obtain r where "get_detail (dd_domain_id dd) d = Some r" by blast
  then have "r \<in> set (db_details d)" and "dd_domain_id r = dd_domain_id dd"
    by (auto dest: get_detail_SomeD)
  with assms(1) have "dd_domain_id dd \<in> d_id ` set (db_domains d)"
    unfolding schema_ok_def refs_ok_def list_all_iff by metis
  with assms(1) have "\<forall>r \<in> set (db_details (put_detail dd d)). dd_domain_id r \<in> d_id ` set (db_domains d)"
    by (auto simp: put_detail_def schema_ok_def refs_ok_def list_all_iff dest!: set_write_row)
  with assms(1) show ?thesis
    by (simp add: schema_ok_def keys_ok_def refs_ok_def refs list_all_iff) (simp add: put_detail_def)
qed

lemma schema_ok_create_detail:
  "schema_ok d \<Longrightarrow> create_detail dd d = Inr d' \<Longrightarrow> schema_ok d'"
  by (auto simp: create_detail_def schema_ok_def keys_ok_def refs_ok_def split: if_splits)

lemma schema_ok_upsert_with_occ [schema_intros]:
  assumes "schema_ok d" and "upsert_with_occ dd expected d = Inr (u, d')"
  shows "schema_ok d'"
proof -
  have keys: "keys_ok d" using assms(1) by (simp add: schema_ok_def)
  show ?thesis
  proof (cases "get_detail (dd_domain_id dd) d")
    case None
    then have "create_detail (dd\<lparr>dd_version := 1\<rparr>) d = Inr d'"
      using assms(2) create_detail_absent [of "dd\<lparr>dd_version := 1\<rparr>" d]
      by (auto simp: upsert_with_occ_cases [OF keys] split: if_splits)
    with assms(1) show ?thesis by (rule schema_ok_create_detail)
  next
    case (Some r)
    then have "d' = put_detail (dd\<lparr>dd_version := expected + 1\<rparr>) d"
      using assms(2) by (auto simp: upsert_with_occ_cases [OF keys] split: if_splits)
    with assms(1) Some show ?thesis by (auto intro: schema_ok_put_detail)
  qed
qed

lemma upsert_with_occ_frame:
  assumes "keys_ok d" and "upsert_with_occ dd expected d = Inr (u, d')"
  shows "db_tasks d' = db_tasks d" "db_jobs d' = db_jobs d" "db_domains d' = db_domains d"
    "db_idem d' = db_idem d"
  using assms(2) by (auto simp: upsert_with_occ_cases [OF assms(1)] split: option.splits if_splits)

end
