(* ===== verification/Task_Queue.thy ===== *)
theory Task_Queue
  imports Task_Repo
begin

section \<open>The task queue in the database: claims, leases, retries\<close>

text \<open>
  What the two queue operations of the task repository guarantee. A claim takes the first eligible
  tasks in queue order and gives them a lease; two claims never take the same task; recovery sends
  an expired task back for a retry or fails it. The life-cycle invariant \<open>task_ok\<close> ties the status
  of a task to its lease, its number of attempts and its error.
\<close>

subsection \<open>The life-cycle invariant of a task\<close>

definition retry_payload :: "error_payload option \<Rightarrow> bool" where
  "retry_payload p \<longleftrightarrow> (case p of None \<Rightarrow> True | Some e \<Rightarrow> ep_retryable e)"

definition failure_payload :: "error_payload option \<Rightarrow> bool" where
  "failure_payload p \<longleftrightarrow> (case p of None \<Rightarrow> False | Some e \<Rightarrow> \<not> ep_retryable e)"

definition task_ok :: "nat \<Rightarrow> task \<Rightarrow> bool" where
  "task_ok m t \<longleftrightarrow>
     t_attempts t \<le> m \<and>
     (case t_status t of
        PENDING \<Rightarrow> t_attempts t < m \<and> t_lease_expires_at t = None \<and> retry_payload (t_error_payload t)
      | PROCESSING \<Rightarrow>
          1 \<le> t_attempts t \<and> t_lease_expires_at t \<noteq> None \<and> retry_payload (t_error_payload t)
      | COMPLETED \<Rightarrow> True
      | FAILED \<Rightarrow> failure_payload (t_error_payload t))"

definition tasks_ok :: "nat \<Rightarrow> db \<Rightarrow> bool" where
  "tasks_ok m d \<longleftrightarrow> list_all (task_ok m) (db_tasks d)"

lemma tasks_okD: "tasks_ok m d \<Longrightarrow> t \<in> set (db_tasks d) \<Longrightarrow> task_ok m t"
  by (simp add: tasks_ok_def list_all_iff)

lemma tasks_ok_get: "tasks_ok m d \<Longrightarrow> get_task i d = Some t \<Longrightarrow> task_ok m t"
  by (auto dest: get_task_SomeD tasks_okD)

lemma tasks_ok_put_task [life_intros]:
  "tasks_ok m d \<Longrightarrow> task_ok m t \<Longrightarrow> tasks_ok m (put_task t d)"
  by (auto simp: tasks_ok_def list_all_iff dest!: tasks_put_task)

lemma tasks_ok_put_tasks [life_intros]:
  "tasks_ok m d \<Longrightarrow> list_all (task_ok m) ts \<Longrightarrow> tasks_ok m (put_tasks ts d)"
  by (auto simp: tasks_ok_def list_all_iff dest!: tasks_put_tasks)

lemma tasks_ok_create_task:
  "tasks_ok m d \<Longrightarrow> task_ok m t \<Longrightarrow> create_task t d = Inr d' \<Longrightarrow> tasks_ok m d'"
  by (auto simp: tasks_ok_def dest: create_task_InrD)

lemma task_ok_claim_mark:
  "task_ok m t \<Longrightarrow> t_status t = PENDING \<Longrightarrow> task_ok m (claim_mark lease now t)"
  by (simp add: task_ok_def)

lemma task_ok_recover_mark:
  "task_ok m t \<Longrightarrow> t_status t = PROCESSING \<Longrightarrow> task_ok m (recover_mark m msg now clock jitter t)"
  by (auto simp: task_ok_def recover_mark_def Let_def max_attempts_payload_def failure_payload_def)

lemma task_ok_new_refresh: "0 < m \<Longrightarrow> task_ok m (new_refresh_task i dm now)"
  by (simp add: task_ok_def new_refresh_task_def retry_payload_def)

lemma tasks_ok_claim_tasks [life_intros]:
  assumes "tasks_ok m d" and "claim_tasks locked limit lease types now d = (ts, d')"
  shows "tasks_ok m d'"
proof -
  have "task_ok m (claim_mark lease now t)"
    if "t \<in> set (claim_select locked limit types' d)" for t types'
    using claim_selectD [OF that] assms(1) by (auto intro: task_ok_claim_mark tasks_okD)
  with assms show ?thesis
    by (auto simp: claim_tasks_def Let_def list_all_iff intro!: tasks_ok_put_tasks
        split: if_splits)
qed

lemma tasks_ok_recover [life_intros]:
  assumes "tasks_ok m d"
    and "recover_expired_tasks m msg locked limit now now' clock jitter d = (ts, d')"
  shows "tasks_ok m d'"
proof -
  have "task_ok m (recover_mark m msg now' clock jitter t)"
    if "t \<in> set (recover_select locked limit now d)" for t
    using recover_selectD [OF that] assms(1) by (auto intro: task_ok_recover_mark tasks_okD)
  with assms show ?thesis
    by (auto simp: recover_expired_tasks_def Let_def list_all_iff intro!: tasks_ok_put_tasks
        split: if_splits)
qed

subsection \<open>Changing the selected rows\<close>

lemma sel_iff_id:
  assumes "keys_ok d" and "set sel \<subseteq> set (db_tasks d)" and "t \<in> set (db_tasks d)"
  shows "t_id t \<in> t_id ` set sel \<longleftrightarrow> t \<in> set sel"
proof
  assume "t_id t \<in> t_id ` set sel"
  then obtain s where "s \<in> set sel" and "t_id s = t_id t" by auto
  with assms have "s = t"
    by (metis get_task_member option.inject subsetD)
  with \<open>s \<in> set sel\<close> show "t \<in> set sel" by simp
qed auto

lemma put_selected_effect:
  assumes "keys_ok d" and "set sel \<subseteq> set (db_tasks d)" and "distinct (map t_id sel)"
    and "\<And>t. t_id (f t) = t_id t" and "t \<in> set (db_tasks d)"
  shows "get_task (t_id t) (put_tasks (map f sel) d) =
           Some (if t_id t \<in> t_id ` set (map f sel) then f t else t)"
    and "t_id t \<in> t_id ` set (map f sel) \<longleftrightarrow> t \<in> set sel"
proof -
  have "t_id ` set (map f sel) = t_id ` set sel"
    by (simp add: image_image assms(4))
  then show *: "t_id t \<in> t_id ` set (map f sel) \<longleftrightarrow> t \<in> set sel"
    using sel_iff_id [OF assms(1,2,5)] by simp
  show "get_task (t_id t) (put_tasks (map f sel) d) =
      Some (if t_id t \<in> t_id ` set (map f sel) then f t else t)"
    unfolding * by (rule get_task_put_tasks_changed [OF assms(1,4,3,2,5)])
qed

lemma task_ids_put_tasks_set [simp]:
  "t_id ` set (db_tasks (put_tasks ts d)) = t_id ` set (db_tasks d)"
  by (simp add: put_tasks_def)

subsection \<open>Concrete rows for the witnesses\<close>

definition demo_job :: job where
  "demo_job = \<lparr>j_id = 1, j_status = PENDING, j_created_at = 0, j_updated_at = 0\<rparr>"

definition demo_domain :: domain where
  "demo_domain = \<lparr>d_id = 2, d_normalized_domain = ''example.com'', d_is_active = True,
     d_deactivated_at = None, d_created_at = 0, d_updated_at = 0\<rparr>"

definition demo_task :: "uuid \<Rightarrow> task_type \<Rightarrow> task_status \<Rightarrow> nat \<Rightarrow> timestamp option \<Rightarrow> task" where
  "demo_task i ty st n lease =
     \<lparr>t_id = i, t_job_id = Some 1, t_domain_id = 2, t_type = ty, t_status = st, t_attempts = n,
      t_next_attempt_at = 0, t_lease_expires_at = lease, t_error_payload = None,
      t_created_at = int i, t_updated_at = 0\<rparr>"

definition demo_db :: db where
  "demo_db = \<lparr>db_jobs = [demo_job],
     db_tasks = [demo_task 10 REFRESH PENDING 0 None, demo_task 11 USER_REQUEST PENDING 0 None,
                 demo_task 12 USER_REQUEST PROCESSING 1 (Some 100),
                 demo_task 13 USER_REQUEST PROCESSING 3 (Some 100)],
     db_domains = [demo_domain], db_details = [], db_idem = []\<rparr>"

lemmas demo_defs = demo_db_def demo_task_def demo_job_def demo_domain_def

lemma demo_schema: "schema_ok demo_db"
  by (simp add: schema_ok_def keys_ok_def refs_ok_def task_refs_ok_def demo_defs)

lemma demo_keys: "keys_ok demo_db"
  using demo_schema by (simp add: schema_ok_def)

lemma demo_tasks_ok: "tasks_ok 3 demo_db"
  by (simp add: tasks_ok_def task_ok_def retry_payload_def demo_defs)

subsection \<open>Claiming\<close>

lemma claim_tasks_fst:
  "fst (claim_tasks locked limit lease types now d) =
     (if limit \<le> 0 then []
      else map (claim_mark lease now)
             (claim_select locked limit
               (case types of None \<Rightarrow> [USER_REQUEST, REFRESH] | Some ts \<Rightarrow> ts) d))"
  by (simp add: claim_tasks_def Let_def)

lemma claim_tasks_snd:
  "snd (claim_tasks locked limit lease types now d) =
     (if limit \<le> 0 then d else put_tasks (fst (claim_tasks locked limit lease types now d)) d)"
  by (simp add: claim_tasks_def Let_def)

lemma claim_tasks_fstE:
  assumes "c \<in> set (fst (claim_tasks locked limit lease types now d))"
  obtains t where "t \<in> set (db_tasks d)" "t_status t = PENDING" "\<not> locked (t_id t)"
    "c = claim_mark lease now t"
proof -
  from assms obtain t types' where t: "t \<in> set (claim_select locked limit types' d)"
    and "c = claim_mark lease now t"
    by (auto simp: claim_tasks_fst split: if_splits)
  with claim_selectD [OF t] show thesis by (intro that)
qed

lemma claimable_default:
  "claimable locked [USER_REQUEST, REFRESH] = (\<lambda>t. t_status t = PENDING \<and> \<not> locked (t_id t))"
proof
  fix t
  show "claimable locked [USER_REQUEST, REFRESH] t = (t_status t = PENDING \<and> \<not> locked (t_id t))"
    by (cases "t_type t") (auto simp: claimable_def)
qed



text \<open>
  Claims are served in queue order: user requests before refreshes, then older tasks first,
  then by identifier. No eligible task that is left behind sorts before a claimed one.
\<close>

theorem claim_tasks_priority:
  assumes "keys_ok d" and "claim_tasks locked limit lease None now d = (claimed, d')"
    and "c \<in> set claimed"
    and "t \<in> set (db_tasks d)" and "t_status t = PENDING" and "\<not> locked (t_id t)"
    and "t_id t \<notin> t_id ` set claimed"
  shows "(t_type c, t_created_at c, t_id c) \<le> (t_type t, t_created_at t, t_id t)"
proof -
  define sel where "sel = claim_select locked limit [USER_REQUEST, REFRESH] d"
  have claimed: "claimed = map (claim_mark lease now) sel"
    using assms(2,3) by (auto simp: claim_tasks_def Let_def sel_def split: if_splits)
  then obtain s where s: "s \<in> set sel" "c = claim_mark lease now s"
    using assms(3) by auto
  have "t \<notin> set sel" using assms(7) by (auto simp: claimed image_image)
  then have "queue_order s \<le> queue_order t"
    using claim_select_first [of s locked limit "[USER_REQUEST, REFRESH]" d t] s(1) assms(4,5,6)
    by (simp add: sel_def claimable_default)
  with s(2) show ?thesis by (simp add: queue_order_def claim_mark_def)
qed

theorem claim_tasks_priority_witness:
  "USER_REQUEST \<le> REFRESH \<and>
   (USER_REQUEST, 11 :: int, 11 :: nat) \<le> (REFRESH, 10, 10)"
proof -
  obtain ts d' where c: "claim_tasks (\<lambda>_. False) 1 500 None 7 demo_db = (ts, d')"
    by fastforce
  have ts: "ts = [claim_mark 500 7 (demo_task 11 USER_REQUEST PENDING 0 None)]"
    using c by (auto simp: claim_tasks_def Let_def claim_select_def claimable_def queue_order_def
        less_eq_task_type_def less_task_type_def demo_defs)
  have "(t_type c, t_created_at c, t_id c) \<le> (t_type t, t_created_at t, t_id t)"
    if "c = claim_mark 500 7 (demo_task 11 USER_REQUEST PENDING 0 None)"
      and "t = demo_task 10 REFRESH PENDING 0 None" for c t
    using claim_tasks_priority [OF demo_keys c, of c t] that by (simp add: ts demo_defs)
  then show ?thesis
    by (simp add: claim_mark_def demo_task_def less_eq_task_type_def)
qed

text \<open>
  C10. Two claims never take the same task: not when the second runs while the first still holds
  its row locks (SKIP LOCKED leaves those rows out), and not when it runs after the first has
  committed (the rows are no longer PENDING).
\<close>

theorem claims_disjoint:
  assumes "keys_ok d" and "claim_tasks locked limit lease types now d = (ts, d1)"
  shows "t_id ` set ts \<inter> t_id ` set (fst (claim_tasks
             (\<lambda>i. locked2 i \<or> i \<in> t_id ` set ts) limit2 lease2 types2 now2 d)) = {} \<and>
         t_id ` set ts \<inter> t_id ` set (fst (claim_tasks locked3 limit2 lease2 types2 now2 d1)) = {}"
proof (intro conjI equals0I)
  fix i assume "i \<in> t_id ` set ts \<inter> t_id ` set (fst (claim_tasks
             (\<lambda>i. locked2 i \<or> i \<in> t_id ` set ts) limit2 lease2 types2 now2 d))"
  then show False by (auto elim!: claim_tasks_fstE) (metis image_eqI)
next
  fix i assume i: "i \<in> t_id ` set ts \<inter> t_id ` set (fst (claim_tasks locked3 limit2 lease2 types2 now2 d1))"
  then obtain t where t: "t \<in> set (db_tasks d1)" "t_status t = PENDING" "t_id t = i"
    by (auto elim!: claim_tasks_fstE)
  have "t_status x = PROCESSING" if "x \<in> set ts" for x
    using that assms(2) by (auto simp: claim_tasks_def Let_def split: if_splits)
  moreover have "t \<in> set ts \<or> t_id t \<notin> t_id ` set ts"
    using t(1) assms(2) by (auto simp: claim_tasks_def Let_def dest!: tasks_put_tasks split: if_splits)
  ultimately show False using t i by auto
qed

theorem claims_disjoint_witness:
  "t_id ` set (fst (claim_tasks (\<lambda>_. False) 1 500 None 7 demo_db)) = {11} \<and>
   11 \<notin> t_id ` set (fst (claim_tasks (\<lambda>_. False) 5 500 None 8
          (snd (claim_tasks (\<lambda>_. False) 1 500 None 7 demo_db))))"
proof -
  obtain ts d' where c: "claim_tasks (\<lambda>_. False) 1 500 None 7 demo_db = (ts, d')"
    by fastforce
  have ts: "ts = [claim_mark 500 7 (demo_task 11 USER_REQUEST PENDING 0 None)]"
    using c by (auto simp: claim_tasks_def Let_def claim_select_def claimable_def queue_order_def
        less_eq_task_type_def less_task_type_def demo_defs)
  then have ids: "t_id ` set ts = {11}" by (simp add: demo_task_def)
  have "t_id ` set ts \<inter> t_id ` set (fst (claim_tasks (\<lambda>_. False) 5 500 None 8 d')) = {}"
    using claims_disjoint [OF demo_keys c] by blast
  with ids show ?thesis unfolding c by (simp add: disjoint_iff)
qed

text \<open>
  The claim query does not look at \<open>next_attempt_at\<close>: whatever the schedule of the retries, the
  same tasks are claimed. The backoff a retry computes therefore does not delay its next claim.
\<close>

theorem claim_ignores_schedule:
  "map t_id (fst (claim_tasks locked limit lease types now
       (d\<lparr>db_tasks := map (\<lambda>t. t\<lparr>t_next_attempt_at := schedule t\<rparr>) (db_tasks d)\<rparr>))) =
   map t_id (fst (claim_tasks locked limit lease types now d))"
proof -
  let ?g = "\<lambda>t. t\<lparr>t_next_attempt_at := schedule t\<rparr>"
  have "filter (claimable locked ts) (map ?g xs) = map ?g (filter (claimable locked ts) xs)" for ts xs
    by (simp add: filter_map comp_def claimable_def [abs_def])
  moreover have "sort_key queue_order (map ?g xs) = map ?g (sort_key queue_order xs)" for xs
    by (rule sort_key_map) (simp add: queue_order_def)
  ultimately show ?thesis
    by (simp add: claim_tasks_fst claim_select_def take_map)
qed

subsection \<open>Recovery and the backoff\<close>

text \<open>
  The backoff of a retry: 60 seconds after the first attempt, doubled after each further one, at
  most an hour (from the seventh attempt on).
\<close>

theorem backoff_delay_steps:
  "backoff_delay n =
     (if n = 0 then 30 else if n \<le> 6 then 60 * 2 ^ (n - 1) else 3600)"
proof (cases "n \<le> 6")
  case True
  then have "n = 0 \<or> n = 1 \<or> n = 2 \<or> n = 3 \<or> n = 4 \<or> n = 5 \<or> n = 6" by auto
  then show ?thesis by (auto simp: backoff_delay_def base_delay_def)
next
  case False
  then have "(2::int) ^ 6 \<le> 2 ^ (n - 1)" by (intro power_increasing) auto
  with False show ?thesis by (simp add: backoff_delay_def base_delay_def)
qed

lemma backoff_delay_bounds: "1 \<le> n \<Longrightarrow> 60 \<le> backoff_delay n \<and> backoff_delay n \<le> 3600"
  by (auto simp: backoff_delay_def base_delay_def)

lemma retry_window:
  assumes "1 \<le> n" and "0 \<le> jitter" and "jitter \<le> 60"
  shows "now + seconds 60 \<le> now + seconds (backoff_delay n + jitter)"
    and "now + seconds (backoff_delay n + jitter) \<le> now + seconds 3660"
  using backoff_delay_bounds [OF assms(1)] assms(2,3)
  by (auto intro!: seconds_mono)



end
