(* ===== verification/Dns.thy ===== *)
theory Dns
  imports Py_Str
begin

section \<open>DNS resolution (dns.py)\<close>

text \<open>
  The resolver library answers each of the three queries with hosts or an exception; the answers are
  arguments of the model. \<open>resolve\<close> turns them into a \<open>DnsResult\<close>: a failed A or AAAA query counts
  as no addresses, and the field \<open>error\<close> is left at its default.
\<close>

subsection \<open>Answers of the resolver\<close>

text \<open>The status codes of c-ares that the code names; \<open>Ares_other\<close> is any other code.\<close>

datatype ares_code =
    ARES_ENODATA | ARES_ESERVFAIL | ARES_ENOTFOUND | ARES_ECONNREFUSED | ARES_ETIMEOUT
  | Ares_other int

text \<open>\<open>DNSError\<close> carries its arguments: none, or a code first.\<close>

datatype dns_exn =
    DNSError "ares_code option"
  | DnsTimeout
  | DnsOther string

type_synonym dns_answer = "dns_exn + string list"

record dns_result =
  dr_ips_v4 :: "string list"
  dr_ips_v6 :: "string list"
  dr_cname :: "string option"
  dr_error :: "string option"

definition dns_is_success :: "dns_result \<Rightarrow> bool" where
  "dns_is_success r \<longleftrightarrow> dr_error r = None \<and> (dr_ips_v4 r \<noteq> [] \<or> dr_ips_v6 r \<noteq> [])"

definition all_ips :: "dns_result \<Rightarrow> string list" where
  "all_ips r = dr_ips_v4 r @ dr_ips_v6 r"

subsection \<open>The three lookups\<close>

definition absent_record :: "dns_exn \<Rightarrow> bool" where
  "absent_record e \<longleftrightarrow> e = DNSError (Some ARES_ENOTFOUND) \<or> e = DNSError (Some ARES_ENODATA)"

definition resolve_a :: "dns_answer \<Rightarrow> dns_exn + string list" where
  "resolve_a q =
     (case q of Inr hosts \<Rightarrow> Inr hosts | Inl e \<Rightarrow> if absent_record e then Inr [] else Inl e)"

definition resolve_aaaa :: "dns_answer \<Rightarrow> dns_exn + string list" where
  "resolve_aaaa q =
     (case q of Inr hosts \<Rightarrow> Inr hosts | Inl e \<Rightarrow> if absent_record e then Inr [] else Inl e)"

definition resolve_cname :: "dns_answer \<Rightarrow> dns_exn + string option" where
  "resolve_cname q =
     (case q of
        Inr [] \<Rightarrow> Inr None
      | Inr (h # hs) \<Rightarrow> Inr (Some h)
      | Inl (DNSError c) \<Rightarrow> Inr None
      | Inl e \<Rightarrow> Inl e)"

definition resolve :: "dns_answer \<Rightarrow> dns_answer \<Rightarrow> dns_answer \<Rightarrow> dns_result" where
  "resolve qa qaaaa qcname =
     \<lparr>dr_ips_v4 = (case resolve_a qa of Inl e \<Rightarrow> [] | Inr ips \<Rightarrow> ips),
      dr_ips_v6 = (case resolve_aaaa qaaaa of Inl e \<Rightarrow> [] | Inr ips \<Rightarrow> ips),
      dr_cname = (case resolve_cname qcname of Inl e \<Rightarrow> None | Inr c \<Rightarrow> c),
      dr_error = None\<rparr>"

subsection \<open>Classification of an error\<close>

definition classify_dns_error :: "dns_exn \<Rightarrow> string" where
  "classify_dns_error e =
     (case e of
        DnsTimeout \<Rightarrow> ''retryable''
      | DNSError (Some c) \<Rightarrow>
          if c \<in> {ARES_ETIMEOUT, ARES_ESERVFAIL, ARES_ECONNREFUSED} then ''retryable''
          else if c \<in> {ARES_ENOTFOUND, ARES_ENODATA} then ''permanent''
          else ''unknown''
      | DNSError None \<Rightarrow> ''unknown''
      | DnsOther s \<Rightarrow> ''unknown'')"

subsection \<open>What a result says of the answers\<close>

lemma resolve_no_error [simp]: "dr_error (resolve qa qaaaa qcname) = None"
  by (simp add: resolve_def)

lemma resolve_ips:
  "dr_ips_v4 (resolve qa qaaaa qcname) = (case qa of Inl e \<Rightarrow> [] | Inr ips \<Rightarrow> ips)"
  "dr_ips_v6 (resolve qa qaaaa qcname) = (case qaaaa of Inl e \<Rightarrow> [] | Inr ips \<Rightarrow> ips)"
  by (auto simp: resolve_def resolve_a_def resolve_aaaa_def split: sum.split)

lemma dns_success_iff_ips:
  "dns_is_success (resolve qa qaaaa qcname) \<longleftrightarrow> all_ips (resolve qa qaaaa qcname) \<noteq> []"
  by (simp add: dns_is_success_def all_ips_def)

text \<open>
  Resolution succeeds exactly if the A or the AAAA query answered with at least one host,
  whatever became of the other queries; the addresses are those answers in order, IPv4 first. The
  result carries no error in any case, so a failed lookup, a missing domain and a time-out are not
  told apart.
\<close>

theorem resolve_outcome:
  "(dns_is_success (resolve qa qaaaa qcname) \<longleftrightarrow>
      (\<exists>h hs. qa = Inr (h # hs)) \<or> (\<exists>h hs. qaaaa = Inr (h # hs))) \<and>
   all_ips (resolve qa qaaaa qcname) =
     (case qa of Inl e \<Rightarrow> [] | Inr ips \<Rightarrow> ips) @ (case qaaaa of Inl e \<Rightarrow> [] | Inr ips \<Rightarrow> ips) \<and>
   dr_error (resolve qa qaaaa qcname) = None"
  by (auto simp: dns_is_success_def all_ips_def resolve_ips neq_Nil_conv split: sum.split)

end
