(* ===== verification/Http_Client.thy ===== *)
theory Http_Client
  imports Py_Str
begin

section \<open>HTTP probing (http\_client.py)\<close>

text \<open>
  \<open>probe\<close> asks for the URL of the validated address over HTTPS, then over HTTP, and never for
  another URL; redirects are not followed. What the HTTP library answers to a URL (a response whose
  body has been read, or the exception of the request or of reading the body) is an argument of the
  model, as are the time that passes and the UTF-8 decoding of a body. A body is the list of its
  bytes, as characters.
\<close>

subsection \<open>Results\<close>

record http_result =
  hr_status_code :: int
  hr_headers :: "(string \<times> string) list"
  hr_body :: string
  hr_response_time_ms :: int
  hr_page_title :: "string option"
  hr_error :: "string option"
  hr_redirected_from :: "string option"

definition http_is_success :: "http_result \<Rightarrow> bool" where
  "http_is_success r \<longleftrightarrow> hr_error r = None \<and> 200 \<le> hr_status_code r \<and> hr_status_code r < 400"

definition is_client_error :: "http_result \<Rightarrow> bool" where
  "is_client_error r \<longleftrightarrow> 400 \<le> hr_status_code r \<and> hr_status_code r < 500"

definition is_server_error :: "http_result \<Rightarrow> bool" where
  "is_server_error r \<longleftrightarrow> 500 \<le> hr_status_code r \<and> hr_status_code r < 600"

definition truthy :: "string option \<Rightarrow> bool" where
  "truthy s \<longleftrightarrow> s \<noteq> None \<and> s \<noteq> Some []"

definition is_retryable_error :: "http_result \<Rightarrow> bool" where
  "is_retryable_error r \<longleftrightarrow> truthy (hr_error r) \<or> is_server_error r"

definition is_permanent_failure :: "http_result \<Rightarrow> bool" where
  "is_permanent_failure r \<longleftrightarrow>
     \<not> truthy (hr_error r) \<and> is_client_error r \<and> hr_status_code r \<notin> {408, 429}"

subsection \<open>Reading the body\<close>

text \<open>
  The loop over the chunks: the chunk that takes the total above the limit is cut and ends the loop.
\<close>

fun read_chunks :: "nat \<Rightarrow> nat \<Rightarrow> string list \<Rightarrow> string list" where
  "read_chunks limit tot [] = []"
| "read_chunks limit tot (chunk # rest) =
     (let tot' = tot + length chunk in
      if tot' > limit then [take (limit - (tot' - length chunk)) chunk]
      else chunk # read_chunks limit tot' rest)"

definition read_body_limited :: "nat \<Rightarrow> string list \<Rightarrow> string" where
  "read_body_limited limit chunks = concat (read_chunks limit 0 chunks)"

subsection \<open>The page title\<close>

text \<open>
  The search for the regular expression of a title element, ignoring case and with the dot matching
  newlines: at each position the opening tag, any characters but the closing bracket, then the
  shortest text up to the closing tag.
\<close>

definition starts_with_ci :: "string \<Rightarrow> string \<Rightarrow> bool" where
  "starts_with_ci s p \<longleftrightarrow> py_lower (take (length p) s) = p"

fun until_close :: "string \<Rightarrow> string option" where
  "until_close [] = None"
| "until_close (c # cs) =
     (if starts_with_ci (c # cs) ''</title>'' then Some []
      else map_option (Cons c) (until_close cs))"

definition match_title :: "string \<Rightarrow> string option" where
  "match_title s =
     (if starts_with_ci s ''<title'' then
        (case dropWhile (\<lambda>c. c \<noteq> CHR ''>'') (drop 6 s) of
           [] \<Rightarrow> None
         | c # rest \<Rightarrow> until_close rest)
      else None)"

fun search_title :: "string \<Rightarrow> string option" where
  "search_title [] = None"
| "search_title (c # cs) =
     (case match_title (c # cs) of Some t \<Rightarrow> Some t | None \<Rightarrow> search_title cs)"

definition printable :: "char \<Rightarrow> bool" where
  "printable c \<longleftrightarrow> 32 \<le> code c \<or> code c \<in> {9, 10, 13}"

definition extract_title :: "(string \<Rightarrow> string) \<Rightarrow> string \<Rightarrow> string option" where
  "extract_title decode body =
     (if body = [] then None
      else case search_title (decode body) of
        None \<Rightarrow> None
      | Some raw \<Rightarrow>
          (let title = py_strip raw;
               title = (if length title > 500 then take 500 title @ ''...'' else title);
               title = filter printable title
           in if title = [] then None else Some title))"

subsection \<open>Filtering the headers\<close>

definition blocked_headers :: "string list" where
  "blocked_headers =
     [''authorization'', ''cookie'', ''set-cookie'', ''proxy-authorization'', ''www-authenticate'',
      ''proxy-authenticate'']"

definition allowed_prefixes :: "string list" where
  "allowed_prefixes =
     [''content-'', ''cache-'', ''etag'', ''last-modified'', ''server'', ''x-'', ''access-control-'']"

fun filter_headers :: "(string \<times> string) list \<Rightarrow> (string \<times> string) list" where
  "filter_headers [] = []"
| "filter_headers ((key, value) # rest) =
     (let key_lower = py_lower key in
      if key_lower \<in> set blocked_headers then filter_headers rest
      else if list_ex (starts_with key_lower) allowed_prefixes then
        (key, if length value > 1000 then take 1000 value @ ''...'' else value) # filter_headers rest
      else filter_headers rest)"

subsection \<open>Probing\<close>

record http_response =
  rs_status_code :: int
  rs_headers :: "(string \<times> string) list"
  rs_chunks :: "string list"

text \<open>
  The \<open>except\<close> clauses of \<open>probe\<close>: the text of the error, and whether the loop goes on to the next
  URL.
\<close>

definition probe_error :: "exn \<Rightarrow> string" where
  "probe_error e =
     (case exn_class e of
        HttpxTimeoutException \<Rightarrow> ''Timeout: ''
      | HttpxConnectError \<Rightarrow> ''Connection failed: ''
      | HttpxTooManyRedirects \<Rightarrow> ''Too many redirects: ''
      | HttpxRequestError \<Rightarrow> ''Request error: ''
      | _ \<Rightarrow> ''Unexpected error: '') @ exn_str e"

definition http_result_of ::
  "nat \<Rightarrow> (string \<Rightarrow> string) \<Rightarrow> int \<Rightarrow> http_response \<Rightarrow> http_result" where
  "http_result_of limit decode elapsed rs =
     (let body = read_body_limited limit (rs_chunks rs) in
      \<lparr>hr_status_code = rs_status_code rs, hr_headers = filter_headers (rs_headers rs),
       hr_body = body, hr_response_time_ms = elapsed, hr_page_title = extract_title decode body,
       hr_error = None, hr_redirected_from = None\<rparr>)"

definition failed_result :: "int \<Rightarrow> string option \<Rightarrow> http_result" where
  "failed_result elapsed last_error =
     \<lparr>hr_status_code = 0, hr_headers = [], hr_body = [], hr_response_time_ms = elapsed,
      hr_page_title = None,
      hr_error = Some (case last_error of None \<Rightarrow> ''All probe attempts failed'' | Some e \<Rightarrow> e),
      hr_redirected_from = None\<rparr>"

text \<open>The loop returns the result and the URLs it asked for.\<close>

fun probe_urls ::
  "nat \<Rightarrow> (string \<Rightarrow> string) \<Rightarrow> int \<Rightarrow> (string \<Rightarrow> exn + http_response) \<Rightarrow> string option
     \<Rightarrow> string list \<Rightarrow> http_result \<times> string list" where
  "probe_urls limit decode elapsed client last_error [] = (failed_result elapsed last_error, [])"
| "probe_urls limit decode elapsed client last_error (url # urls) =
     (case client url of
        Inr rs \<Rightarrow> (http_result_of limit decode elapsed rs, [url])
      | Inl e \<Rightarrow>
          if exn_class e = HttpxTooManyRedirects
          then (failed_result elapsed (Some (probe_error e)), [url])
          else (let (r, asked) =
                  probe_urls limit decode elapsed client (Some (probe_error e)) urls
                in (r, url # asked)))"

definition probe ::
  "nat \<Rightarrow> (string \<Rightarrow> string) \<Rightarrow> int \<Rightarrow> (string \<Rightarrow> exn + http_response) \<Rightarrow> string
     \<Rightarrow> http_result \<times> string list" where
  "probe limit decode elapsed client validated_ip =
     probe_urls limit decode elapsed client None
       [''https://'' @ validated_ip, ''http://'' @ validated_ip]"

subsection \<open>Bounds on what is kept of a response\<close>

lemma concat_read_chunks:
  "tot \<le> limit \<Longrightarrow> concat (read_chunks limit tot chunks) = take (limit - tot) (concat chunks)"
proof (induction limit tot chunks rule: read_chunks.induct)
  case (1 limit tot)
  then show ?case by simp
next
  case (2 limit tot chunk rest)
  show ?case
  proof (cases "tot + length chunk > limit")
    case True
    then show ?thesis by (simp add: Let_def)
  next
    case False
    with 2 have "concat (read_chunks limit (tot + length chunk) rest) =
        take (limit - (tot + length chunk)) (concat rest)" by simp
    with False show ?thesis by (simp add: Let_def)
  qed
qed

text \<open>
  The chunked reader keeps exactly the first \<open>limit\<close> bytes of the body, however the body is cut
  into chunks.
\<close>

theorem read_body_prefix: "read_body_limited limit chunks = take limit (concat chunks)"
  by (simp add: read_body_limited_def concat_read_chunks)

lemma length_filter_take: "length (filter P (take n xs @ ys)) \<le> n + length ys"
proof -
  have "length (filter P (take n xs @ ys)) \<le> length (take n xs @ ys)" by (rule length_filter_le)
  also have "\<dots> \<le> n + length ys" by simp
  finally show ?thesis .
qed

lemma extract_title_bounds:
  assumes "extract_title decode body = Some t"
  shows "t \<noteq> []" "length t \<le> 503" "list_all printable t"
proof -
  from assms obtain raw where raw: "search_title (decode body) = Some raw"
    by (auto simp: extract_title_def split: if_splits option.splits)
  define s where "s = py_strip raw"
  define u where "u = (if length s > 500 then take 500 s @ ''...'' else s)"
  have t: "t = filter printable u" and ne: "t \<noteq> []"
    using assms raw by (auto simp: extract_title_def s_def u_def Let_def split: if_splits)
  have "length t \<le> length u" unfolding t by (rule length_filter_le)
  also have "\<dots> \<le> 503" by (simp add: u_def)
  finally show "length t \<le> 503" .
  show "t \<noteq> []" by (rule ne)
  show "list_all printable t" by (simp add: t list_all_iff)
qed

lemma filter_headersD:
  "(k, v) \<in> set (filter_headers hs) \<Longrightarrow>
   py_lower k \<notin> set blocked_headers \<and> list_ex (starts_with (py_lower k)) allowed_prefixes \<and>
   length v \<le> 1003 \<and> k \<in> fst ` set hs"
  by (induction hs rule: filter_headers.induct) (auto simp: Let_def split: if_splits)

lemma probe_urls_result:
  "probe_urls limit decode elapsed client le urls = (r, asked) \<Longrightarrow>
   (\<exists>e. r = failed_result elapsed e) \<or> (\<exists>rs. r = http_result_of limit decode elapsed rs)"
  by (induction urls arbitrary: le r asked) (auto split: sum.splits if_splits prod.splits)



subsection \<open>The fallback from HTTPS to HTTP\<close>

text \<open>
  The probe asks for the HTTPS URL of the validated address and, only if that raised an exception
  other than too many redirects, for its HTTP URL; no other URL is asked for. The result is the
  response of the last URL asked for, or status 0 with the text of its exception.
\<close>

theorem probe_fallback:
  "probe limit decode elapsed client ip =
     (case client (''https://'' @ ip) of
        Inr rs \<Rightarrow> (http_result_of limit decode elapsed rs, [''https://'' @ ip])
      | Inl e \<Rightarrow>
          if exn_class e = HttpxTooManyRedirects
          then (failed_result elapsed (Some (probe_error e)), [''https://'' @ ip])
          else
            ((case client (''http://'' @ ip) of
                Inr rs \<Rightarrow> http_result_of limit decode elapsed rs
              | Inl e' \<Rightarrow> failed_result elapsed (Some (probe_error e'))),
             [''https://'' @ ip, ''http://'' @ ip]))"
  by (auto simp: probe_def Let_def split: sum.split)

lemma probe_asked:
  "snd (probe limit decode elapsed client ip) \<in>
     {[''https://'' @ ip], [''https://'' @ ip, ''http://'' @ ip]}"
  by (simp add: probe_def Let_def split: sum.split prod.split)

subsection \<open>The failure matrix\<close>

text \<open>
  A response of the server falls into exactly one class: success (2xx, 3xx), retryable (5xx),
  permanent (4xx but 408 and 429), or none of them (408, 429, and the codes outside 200 to 599),
  which \<open>is_success\<close>, \<open>is_retryable_error\<close> and \<open>is_permanent_failure\<close> all deny. A probe without a
  response is retryable and nothing else.
\<close>

theorem http_failure_matrix:
  "(http_is_success (http_result_of limit decode elapsed rs) \<longleftrightarrow>
      200 \<le> rs_status_code rs \<and> rs_status_code rs < 400) \<and>
   (is_retryable_error (http_result_of limit decode elapsed rs) \<longleftrightarrow>
      500 \<le> rs_status_code rs \<and> rs_status_code rs < 600) \<and>
   (is_permanent_failure (http_result_of limit decode elapsed rs) \<longleftrightarrow>
      400 \<le> rs_status_code rs \<and> rs_status_code rs < 500 \<and>
      rs_status_code rs \<noteq> 408 \<and> rs_status_code rs \<noteq> 429) \<and>
   is_retryable_error (failed_result elapsed (Some (probe_error e))) \<and>
   \<not> http_is_success (failed_result elapsed (Some (probe_error e))) \<and>
   \<not> is_permanent_failure (failed_result elapsed (Some (probe_error e)))"
proof -
  have "probe_error e \<noteq> []" by (simp add: probe_error_def split: exn_class.split)
  then show ?thesis
    by (auto simp: http_is_success_def is_retryable_error_def is_permanent_failure_def truthy_def
        is_client_error_def is_server_error_def http_result_of_def failed_result_def Let_def)
qed

end
