(* ===== verification/Processor_Writes.thy ===== *)
theory Processor_Writes
  imports Detail_Repo Task_Queue Dns Http_Client
begin

section \<open>What the processor writes (domain\_processor.py, the write helpers)\<close>

text \<open>
  Each helper opens a short session, reads the task, changes rows and commits; the statements of one
  session are one step here. \<open>clk n\<close> is the \<open>n\<close>-th reading of the clock in the helper. Only the
  session that persists the result of a probe is interleaved with other transactions (\<open>o1\<close> to \<open>o3\<close>),
  because the version check it makes is about them.
\<close>

subsection \<open>The status of a job\<close>

definition count_non_terminal :: "uuid \<Rightarrow> db \<Rightarrow> nat" where
  "count_non_terminal j d =
     length (filter (\<lambda>t. t_job_id t = Some j \<and> non_terminal (t_status t)) (db_tasks d))"

definition check_and_update_job_status :: "timestamp \<Rightarrow> uuid option \<Rightarrow> db \<Rightarrow> db" where
  "check_and_update_job_status now job_id d =
     (case job_id of
        None \<Rightarrow> d
      | Some j \<Rightarrow>
          (case get_job j d of
             None \<Rightarrow> d
           | Some jb \<Rightarrow>
               if count_non_terminal j d = 0 then
                 (if j_status jb \<noteq> COMPLETED
                  then put_job (jb\<lparr>j_status := COMPLETED, j_updated_at := now\<rparr>) d else d)
               else
                 (if j_status jb = PENDING
                  then put_job (jb\<lparr>j_status := PROCESSING, j_updated_at := now\<rparr>) d else d)))"

subsection \<open>Completing and failing a task\<close>

definition run_session :: "(db \<Rightarrow> db) \<Rightarrow> db \<Rightarrow> db" where
  "run_session f d = close_session (commit (in_session f (open_session d)))"

definition complete_task :: "(nat \<Rightarrow> timestamp) \<Rightarrow> uuid \<Rightarrow> task_status \<Rightarrow> db \<Rightarrow> db" where
  "complete_task clk i st d =
     (case get_task i d of
        None \<Rightarrow> d
      | Some t \<Rightarrow>
          check_and_update_job_status (clk 1) (t_job_id t)
            (put_task (t\<lparr>t_status := st, t_updated_at := clk 0\<rparr>) d))"

definition write_complete_task :: "(nat \<Rightarrow> timestamp) \<Rightarrow> uuid \<Rightarrow> task_status \<Rightarrow> db \<Rightarrow> db" where
  "write_complete_task clk i st = run_session (complete_task clk i st)"

definition category_payload :: "string \<Rightarrow> string \<Rightarrow> error_payload" where
  "category_payload error category =
     \<lparr>ep_code = py_upper category @ ''_ERROR'', ep_message = error,
      ep_retryable = (category = ''retryable'')\<rparr>"

definition fail_task :: "(nat \<Rightarrow> timestamp) \<Rightarrow> uuid \<Rightarrow> string \<Rightarrow> string \<Rightarrow> db \<Rightarrow> db" where
  "fail_task clk i error category d =
     (case get_task i d of
        None \<Rightarrow> d
      | Some t \<Rightarrow>
          check_and_update_job_status (clk 1) (t_job_id t)
            (put_task (t\<lparr>t_status := FAILED, t_updated_at := clk 0,
                         t_error_payload := Some (category_payload error category)\<rparr>) d))"

definition write_fail_task :: "(nat \<Rightarrow> timestamp) \<Rightarrow> uuid \<Rightarrow> string \<Rightarrow> string \<Rightarrow> db \<Rightarrow> db" where
  "write_fail_task clk i error category = run_session (fail_task clk i error category)"

definition should_soft_deactivate :: "string \<Rightarrow> string \<Rightarrow> bool" where
  "should_soft_deactivate category err_code \<longleftrightarrow>
     category = ''security'' \<or> err_code \<in> {''DNS_PERMANENT_FAILURE'', ''PERMANENT_ERROR''} \<or>
     err_code = ''MAX_ATTEMPTS_EXCEEDED''"

definition deactivate_if_active :: "timestamp \<Rightarrow> uuid \<Rightarrow> db \<Rightarrow> db" where
  "deactivate_if_active now i d =
     (case get_domain i d of
        None \<Rightarrow> d
      | Some dm \<Rightarrow> if d_is_active dm then put_domain (deactivate now dm) d else d)"

definition write_fail_task_with_deactivation ::
  "(nat \<Rightarrow> timestamp) \<Rightarrow> uuid \<Rightarrow> uuid \<Rightarrow> string \<Rightarrow> string \<Rightarrow> string \<Rightarrow> db \<Rightarrow> db" where
  "write_fail_task_with_deactivation clk i domain_id error category err_code =
     run_session (\<lambda>d.
       (let d1 = fail_task clk i error category d in
        if should_soft_deactivate category err_code
        then deactivate_if_active (clk 2) domain_id d1 else d1))"

subsection \<open>Rescheduling a task\<close>

definition attempts_message :: "nat \<Rightarrow> string \<Rightarrow> string" where
  "attempts_message m error =
     ''Task exceeded maximum attempts ('' @ digits_of m @ ''): '' @ error"

definition transient_payload :: "string \<Rightarrow> error_payload" where
  "transient_payload error =
     \<lparr>ep_code = ''TRANSIENT_ERROR'', ep_message = error, ep_retryable = True\<rparr>"

definition reschedule_task ::
  "nat \<Rightarrow> (nat \<Rightarrow> timestamp) \<Rightarrow> int \<Rightarrow> uuid \<Rightarrow> string \<Rightarrow> db \<Rightarrow> db" where
  "reschedule_task m clk jitter i error d =
     (case get_task i d of
        None \<Rightarrow> d
      | Some t \<Rightarrow>
          if t_attempts t \<ge> m then
            (let d1 = put_task (t\<lparr>t_status := FAILED, t_lease_expires_at := None,
                                  t_updated_at := clk 0,
                                  t_error_payload :=
                                    Some (max_attempts_payload (attempts_message m error))\<rparr>) d;
                 d2 = check_and_update_job_status (clk 1) (t_job_id t) d1
             in if should_soft_deactivate ''transient'' ''MAX_ATTEMPTS_EXCEEDED''
                then deactivate_if_active (clk 2) (t_domain_id t) d2 else d2)
          else
            put_task (t\<lparr>t_status := PENDING, t_lease_expires_at := None, t_updated_at := clk 0,
                        t_error_payload := Some (transient_payload error),
                        t_next_attempt_at :=
                          clk 1 + seconds (backoff_delay (t_attempts t) + jitter)\<rparr>) d)"

definition write_reschedule_task ::
  "nat \<Rightarrow> (nat \<Rightarrow> timestamp) \<Rightarrow> int \<Rightarrow> uuid \<Rightarrow> string \<Rightarrow> db \<Rightarrow> db" where
  "write_reschedule_task m clk jitter i error = run_session (reschedule_task m clk jitter i error)"

subsection \<open>Persisting an observation\<close>

definition dns_records_of :: "dns_result \<Rightarrow> (string \<times> string list) list" where
  "dns_records_of r =
     (if dr_ips_v4 r \<noteq> [] then [(''A'', dr_ips_v4 r)] else []) @
     (if dr_ips_v6 r \<noteq> [] then [(''AAAA'', dr_ips_v6 r)] else []) @
     (case dr_cname r of
        None \<Rightarrow> [] | Some c \<Rightarrow> if c \<noteq> [] then [(''CNAME'', [c])] else [])"

definition next_refresh :: "(nat \<Rightarrow> timestamp) \<Rightarrow> http_result \<Rightarrow> timestamp" where
  "next_refresh clk http = clk 1 + seconds (if http_is_success http then 86400 else 3600)"

definition observation ::
  "(nat \<Rightarrow> timestamp) \<Rightarrow> uuid \<Rightarrow> dns_result \<Rightarrow> http_result \<Rightarrow> int \<Rightarrow> domain_detail" where
  "observation clk domain_id dns http version =
     \<lparr>dd_domain_id = domain_id, dd_ip_addresses = dr_ips_v4 dns @ dr_ips_v6 dns,
      dd_dns_records = dns_records_of dns, dd_http_status = hr_status_code http,
      dd_page_title = hr_page_title http, dd_response_time = hr_response_time_ms http,
      dd_response_headers = hr_headers http, dd_fetched_at = clk 2,
      dd_next_refresh_at = next_refresh clk http, dd_version = version\<rparr>"

definition version_of :: "domain_detail option \<Rightarrow> int" where
  "version_of dd = (case dd of None \<Rightarrow> 0 | Some r \<Rightarrow> dd_version r)"

text \<open>
  \<open>_persist_domain_detail\<close>: read the version, write on condition of it, and after a conflict read
  again and write once more. Other transactions commit between the read and the write (\<open>o1\<close>), before
  the second read (\<open>o2\<close>) and before the second write (\<open>o3\<close>). \<open>reread\<close> is what the second read in the
  same session returns: SQLAlchemy may hand out the object it has loaded before, so the model does
  not assume it to be the row as it is now. The database in the result has what the others did, and
  the write of this session if it succeeded.
\<close>

definition persist_domain_detail ::
  "(nat \<Rightarrow> timestamp) \<Rightarrow> (db \<Rightarrow> db) \<Rightarrow> (db \<Rightarrow> db) \<Rightarrow> (db \<Rightarrow> db)
     \<Rightarrow> (uuid \<Rightarrow> db \<Rightarrow> domain_detail option) \<Rightarrow> uuid \<Rightarrow> dns_result \<Rightarrow> http_result \<Rightarrow> db
     \<Rightarrow> (exn + domain_detail) \<times> db" where
  "persist_domain_detail clk o1 o2 o3 reread domain_id dns http d =
     (let existing = get_detail domain_id d;
          expected = version_of existing;
          detail = observation clk domain_id dns http
                     (if existing \<noteq> None then expected + 1 else 1);
          d1 = o1 d
      in case upsert_with_occ detail expected d1 of
           Inr (u, d') \<Rightarrow> (Inr u, d')
         | Inl e \<Rightarrow>
             if exn_class e = RuntimeError \<and> contains (exn_str e) ''OCC conflict'' then
               (let d2 = o2 d1 in
                case reread domain_id d2 of
                  None \<Rightarrow> (Inl e, d2)
                | Some again \<Rightarrow>
                    (let d3 = o3 d2 in
                     case upsert_with_occ (detail\<lparr>dd_version := dd_version again + 1\<rparr>)
                            (dd_version again) d3 of
                       Inr (u, d') \<Rightarrow> (Inr u, d')
                     | Inl e' \<Rightarrow> (Inl e', d3)))
             else (Inl e, d1))"

text \<open>The write phase: the observation and the completion of the task in one transaction.\<close>

definition write_results ::
  "(nat \<Rightarrow> timestamp) \<Rightarrow> (nat \<Rightarrow> timestamp) \<Rightarrow> (db \<Rightarrow> db) \<Rightarrow> (db \<Rightarrow> db) \<Rightarrow> (db \<Rightarrow> db)
     \<Rightarrow> (uuid \<Rightarrow> db \<Rightarrow> domain_detail option) \<Rightarrow> uuid \<Rightarrow> uuid \<Rightarrow> dns_result \<Rightarrow> http_result \<Rightarrow> db
     \<Rightarrow> (exn + domain_detail) \<times> db" where
  "write_results clk clk' o1 o2 o3 reread i domain_id dns http d =
     (case persist_domain_detail clk o1 o2 o3 reread domain_id dns http d of
        (Inl e, d') \<Rightarrow> (Inl e, d')
      | (Inr u, d') \<Rightarrow> (Inr u, run_session (complete_task clk' i COMPLETED) d'))"

subsection \<open>Effects on the tables\<close>

lemma run_session_eq [simp]: "run_session f d = f d"
  by (simp add: run_session_def in_session_def commit_def open_session_def close_session_def)

lemma check_job_frame [frame_simps, simp]:
  "db_tasks (check_and_update_job_status now j d) = db_tasks d"
  "db_domains (check_and_update_job_status now j d) = db_domains d"
  "db_details (check_and_update_job_status now j d) = db_details d"
  "db_idem (check_and_update_job_status now j d) = db_idem d"
  by (auto simp: check_and_update_job_status_def split: option.split)

lemma get_task_check_job [frame_simps, simp]:
  "get_task i (check_and_update_job_status now j d) = get_task i d"
  by (simp add: get_task_def)

lemma deactivate_frame [frame_simps, simp]:
  "db_tasks (deactivate_if_active now i d) = db_tasks d"
  "db_jobs (deactivate_if_active now i d) = db_jobs d"
  "db_details (deactivate_if_active now i d) = db_details d"
  by (auto simp: deactivate_if_active_def split: option.split)

lemma get_task_deactivate [frame_simps, simp]:
  "get_task i (deactivate_if_active now k d) = get_task i d"
  by (simp add: get_task_def)

lemma schema_ok_check_job [schema_intros]:
  "schema_ok d \<Longrightarrow> schema_ok (check_and_update_job_status now j d)"
  by (auto simp: check_and_update_job_status_def schema_ok_put_job split: option.split)

lemma schema_ok_deactivate [schema_intros]:
  assumes "schema_ok d"
  shows "schema_ok (deactivate_if_active now i d)"
proof (cases "get_domain i d")
  case None
  with assms show ?thesis by (simp add: deactivate_if_active_def)
next
  case (Some dm)
  then have "get_domain (d_id (deactivate now dm)) d = Some dm"
    by (auto dest: get_domain_SomeD)
  with Some assms schema_ok_put_domain [OF assms this] show ?thesis
    by (simp add: deactivate_if_active_def)
qed

lemma schema_ok_put_same:
  assumes "schema_ok d" and "get_task i d = Some t" and "t_id t' = t_id t"
    and "t_job_id t' = t_job_id t" and "t_domain_id t' = t_domain_id t"
  shows "schema_ok (put_task t' d)"
proof -
  have "get_task (t_id t') d = Some t" using assms(2,3) by (auto dest: get_task_SomeD)
  then show ?thesis by (rule schema_ok_put_task [OF assms(1) _ assms(4,5)])
qed

lemma schema_ok_complete_task [schema_intros]: "schema_ok d \<Longrightarrow> schema_ok (complete_task clk i st d)"
  by (auto simp: complete_task_def intro!: schema_ok_check_job elim!: schema_ok_put_same
      split: option.split)

lemma schema_ok_fail_task [schema_intros]: "schema_ok d \<Longrightarrow> schema_ok (fail_task clk i e c d)"
  by (auto simp: fail_task_def intro!: schema_ok_check_job elim!: schema_ok_put_same
      split: option.split)

lemma schema_ok_reschedule_task [schema_intros]:
  "schema_ok d \<Longrightarrow> schema_ok (reschedule_task m clk jitter i e d)"
  by (auto simp: reschedule_task_def Let_def intro!: schema_ok_check_job schema_ok_deactivate
      elim!: schema_ok_put_same split: option.split)

lemma schema_ok_write_fail_deact [schema_intros]:
  "schema_ok d \<Longrightarrow> schema_ok (write_fail_task_with_deactivation clk i dm e c code' d)"
  by (simp add: write_fail_task_with_deactivation_def Let_def schema_ok_fail_task schema_ok_deactivate)

lemma tasks_ok_cong: "db_tasks d' = db_tasks d \<Longrightarrow> tasks_ok m d' = tasks_ok m d"
  by (simp add: tasks_ok_def)

lemma tasks_ok_frames [simp]:
  "tasks_ok m (check_and_update_job_status now j d) = tasks_ok m d"
  "tasks_ok m (deactivate_if_active now i d) = tasks_ok m d"
  by (simp_all add: tasks_ok_def)

lemma tasks_ok_complete_task [life_intros]:
  assumes "tasks_ok m d"
  shows "tasks_ok m (complete_task clk i COMPLETED d)"
proof -
  have "task_ok m (t\<lparr>t_status := COMPLETED, t_updated_at := clk 0\<rparr>)" if "get_task i d = Some t" for t
    using tasks_ok_get [OF assms that] by (simp add: task_ok_def)
  with assms show ?thesis
    by (auto simp: complete_task_def intro!: tasks_ok_put_task split: option.split)
qed

lemma tasks_ok_fail_task [life_intros]:
  assumes "tasks_ok m d" and "category \<noteq> ''retryable''"
  shows "tasks_ok m (fail_task clk i e category d)"
proof -
  have "task_ok m (t\<lparr>t_status := FAILED, t_updated_at := clk 0,
      t_error_payload := Some (category_payload e category)\<rparr>)" if "get_task i d = Some t" for t
    using tasks_ok_get [OF assms(1) that] assms(2)
    by (simp add: task_ok_def failure_payload_def category_payload_def)
  with assms show ?thesis
    by (auto simp: fail_task_def intro!: tasks_ok_put_task split: option.split)
qed

lemma tasks_ok_write_fail_deact [life_intros]:
  "tasks_ok m d \<Longrightarrow> category \<noteq> ''retryable'' \<Longrightarrow>
   tasks_ok m (write_fail_task_with_deactivation clk i dm e category code' d)"
  by (simp add: write_fail_task_with_deactivation_def Let_def tasks_ok_fail_task)

lemma tasks_ok_reschedule_task [life_intros]:
  assumes "tasks_ok m d"
  shows "tasks_ok m (reschedule_task m clk jitter i e d)"
proof (cases "get_task i d")
  case None
  with assms show ?thesis by (simp add: reschedule_task_def)
next
  case (Some t)
  note ok = tasks_ok_get [OF assms Some]
  show ?thesis
    using Some ok assms
    by (auto simp: reschedule_task_def Let_def task_ok_def failure_payload_def retry_payload_def
        max_attempts_payload_def transient_payload_def intro!: tasks_ok_put_task)
qed

subsection \<open>What the helpers guarantee\<close>

lemma count_zero_iff:
  "count_non_terminal j d = 0 \<longleftrightarrow>
     (\<forall>t \<in> set (db_tasks d). t_job_id t = Some j \<longrightarrow> t_status t = COMPLETED \<or> t_status t = FAILED)"
proof -
  have "\<not> non_terminal s \<longleftrightarrow> s = COMPLETED \<or> s = FAILED" for s
    by (cases s) (simp_all add: non_terminal_def)
  then show ?thesis by (auto simp: count_non_terminal_def filter_empty_conv)
qed

definition next_job_status :: "bool \<Rightarrow> task_status \<Rightarrow> task_status" where
  "next_job_status all_terminal st =
     (if all_terminal then COMPLETED else if st = PENDING then PROCESSING else st)"

lemma check_job_get:
  "get_job k (check_and_update_job_status now (Some j) d) =
     (case get_job k d of
        None \<Rightarrow> None
      | Some jb \<Rightarrow>
          if k = j \<and> next_job_status (count_non_terminal j d = 0) (j_status jb) \<noteq> j_status jb
          then Some (jb\<lparr>j_status := next_job_status (count_non_terminal j d = 0) (j_status jb),
                        j_updated_at := now\<rparr>)
          else Some jb)"
proof (cases "get_job j d")
  case None
  then show ?thesis
    by (auto simp: check_and_update_job_status_def split: option.split)
next
  case (Some jb)
  then have "j_id jb = j" by (auto dest: get_job_SomeD)
  with Some show ?thesis
    by (auto simp: check_and_update_job_status_def next_job_status_def job_rows.get_put split: option.split)
qed

text \<open>
  The job status follows the tasks: after the check a job is COMPLETED if none of its tasks is
  PENDING or PROCESSING, and otherwise not PENDING any more; a job that is past PENDING keeps its
  status while tasks are open. No other job and no task changes.
\<close>

theorem job_status_follows_tasks:
  assumes "get_job j d = Some jb"
  shows "(\<exists>jb'. get_job j (check_and_update_job_status now (Some j) d) = Some jb' \<and>
      j_id jb' = j \<and>
      j_status jb' =
        (if \<forall>t \<in> set (db_tasks d). t_job_id t = Some j \<longrightarrow> t_status t = COMPLETED \<or> t_status t = FAILED
         then COMPLETED
         else if j_status jb = PENDING then PROCESSING else j_status jb)) \<and>
    (\<forall>k. k \<noteq> j \<longrightarrow> get_job k (check_and_update_job_status now (Some j) d) = get_job k d) \<and>
    db_tasks (check_and_update_job_status now (Some j) d) = db_tasks d"
proof -
  have "j_id jb = j" using assms by (auto dest: get_job_SomeD)
  then show ?thesis
    unfolding count_zero_iff [symmetric] check_job_get
    using assms by (auto simp: next_job_status_def split: option.split)
qed

theorem job_status_follows_tasks_witness:
  "\<exists>jb'. get_job 1 (check_and_update_job_status 5 (Some 1) demo_db) = Some jb' \<and> j_status jb' = PROCESSING"
proof -
  have "get_job 1 demo_db = Some demo_job" by (simp add: get_job_def row_simps demo_defs)
  from job_status_follows_tasks [OF this, of 5] show ?thesis
    by (auto simp: demo_db_def demo_task_def demo_job_def)
qed

lemma get_task_put_task:
  "get_task k (put_task t d) = (if k = t_id t \<and> get_task k d \<noteq> None then Some t else get_task k d)"
  by (rule task_rows.get_put)

lemma get_task_complete_task:
  assumes "get_task i d = Some t"
  shows "get_task k (complete_task clk i st d) =
    (if k = i then Some (t\<lparr>t_status := st, t_updated_at := clk 0\<rparr>) else get_task k d)"
  using assms get_task_SomeD [OF assms] by (auto simp: complete_task_def get_task_put_task)

lemma get_task_fail_task:
  assumes "get_task i d = Some t"
  shows "get_task k (fail_task clk i e c d) =
    (if k = i then Some (t\<lparr>t_status := FAILED, t_updated_at := clk 0,
       t_error_payload := Some (category_payload e c)\<rparr>) else get_task k d)"
  using assms get_task_SomeD [OF assms] by (auto simp: fail_task_def get_task_put_task)

lemma tasks_put_task_iff:
  assumes "keys_ok d" and "get_task (t_id t) d \<noteq> None"
  shows "x \<in> set (db_tasks (put_task t d)) \<longleftrightarrow> x = t \<or> (x \<in> set (db_tasks d) \<and> t_id x \<noteq> t_id t)"
proof
  assume "x \<in> set (db_tasks (put_task t d))"
  then show "x = t \<or> (x \<in> set (db_tasks d) \<and> t_id x \<noteq> t_id t)"
    unfolding put_task_def by (auto dest: set_write_row)
next
  have "t_id t \<in> t_id ` set (db_tasks d)"
    using assms(2) by (auto simp: get_task_def find_by_None)
  then have "t \<in> set (db_tasks (put_task t d))" by (simp add: put_task_def write_row_member)
  moreover assume "x = t \<or> (x \<in> set (db_tasks d) \<and> t_id x \<noteq> t_id t)"
  ultimately show "x \<in> set (db_tasks (put_task t d))"
    by (auto simp: put_task_def intro: write_row_other)
qed

text \<open>
  Completing a task completes its job exactly when it was the last open one: the task becomes
  COMPLETED and no other task changes, and the job is COMPLETED afterwards if and only if it was
  before or every other task of it is COMPLETED or FAILED. A job never stays PENDING.
\<close>

theorem last_task_completes_job:
  assumes "keys_ok d" and "get_task i d = Some t" and "t_job_id t = Some j" and "get_job j d = Some jb"
  shows "get_task i (write_complete_task clk i COMPLETED d) =
      Some (t\<lparr>t_status := COMPLETED, t_updated_at := clk 0\<rparr>) \<and>
    (\<forall>k. k \<noteq> i \<longrightarrow> get_task k (write_complete_task clk i COMPLETED d) = get_task k d) \<and>
    (\<exists>jb'. get_job j (write_complete_task clk i COMPLETED d) = Some jb' \<and>
      (j_status jb' = COMPLETED \<longleftrightarrow> j_status jb = COMPLETED \<or>
         (\<forall>x \<in> set (db_tasks d). t_job_id x = Some j \<and> t_id x \<noteq> i \<longrightarrow>
            t_status x = COMPLETED \<or> t_status x = FAILED)) \<and>
      j_status jb' \<noteq> PENDING)"
proof -
  define t' where "t' = t\<lparr>t_status := COMPLETED, t_updated_at := clk 0\<rparr>"
  define d1 where "d1 = put_task t' d"
  have id: "t_id t' = i" and "t_id t = i"
    using assms(2) by (auto simp: t'_def dest: get_task_SomeD)
  have run: "write_complete_task clk i COMPLETED d = check_and_update_job_status (clk 1) (Some j) d1"
    using assms(2,3) by (simp add: write_complete_task_def complete_task_def d1_def t'_def)
  have "x \<in> set (db_tasks d1) \<longleftrightarrow> x = t' \<or> (x \<in> set (db_tasks d) \<and> t_id x \<noteq> i)" for x
    unfolding d1_def using tasks_put_task_iff [OF assms(1), of t'] id assms(2) by simp
  then have zero: "count_non_terminal j d1 = 0 \<longleftrightarrow>
      (\<forall>x \<in> set (db_tasks d). t_job_id x = Some j \<and> t_id x \<noteq> i \<longrightarrow>
         t_status x = COMPLETED \<or> t_status x = FAILED)"
    unfolding count_zero_iff by (auto simp: t'_def)
  have "get_job j d1 = Some jb" using assms(4) by (simp add: d1_def)
  then have "\<exists>jb'. get_job j (write_complete_task clk i COMPLETED d) = Some jb' \<and>
      j_status jb' = next_job_status (count_non_terminal j d1 = 0) (j_status jb)"
    unfolding run check_job_get by simp
  then obtain jb' where jb': "get_job j (write_complete_task clk i COMPLETED d) = Some jb'"
    and st: "j_status jb' = next_job_status (count_non_terminal j d1 = 0) (j_status jb)"
    by blast
  have "j_status jb' = COMPLETED \<longleftrightarrow> j_status jb = COMPLETED \<or> count_non_terminal j d1 = 0"
    and "j_status jb' \<noteq> PENDING"
    by (auto simp: st next_job_status_def)
  with jb' show ?thesis
    using get_task_complete_task [OF assms(2), of _ clk COMPLETED]
    by (simp only: zero) (simp add: write_complete_task_def)
qed

theorem last_task_completes_job_witness:
  "\<exists>jb'. get_job 1 (write_complete_task (\<lambda>n. 9) 12 COMPLETED
     (demo_db\<lparr>db_tasks := [demo_task 12 USER_REQUEST PROCESSING 1 (Some 100)]\<rparr>)) = Some jb' \<and>
     j_status jb' = COMPLETED"
proof -
  let ?d = "demo_db\<lparr>db_tasks := [demo_task 12 USER_REQUEST PROCESSING 1 (Some 100)]\<rparr>"
  have "keys_ok ?d" by (simp add: keys_ok_def demo_defs)
  moreover have "get_task 12 ?d = Some (demo_task 12 USER_REQUEST PROCESSING 1 (Some 100))"
    and "t_job_id (demo_task 12 USER_REQUEST PROCESSING 1 (Some 100)) = Some 1"
    and "get_job 1 ?d = Some demo_job"
    by (simp_all add: get_task_def get_job_def row_simps demo_defs)
  ultimately show ?thesis
    using last_task_completes_job [of ?d 12 _ 1 demo_job "\<lambda>n. 9"] by (simp add: demo_task_def) blast
qed

lemma get_domain_frames [simp]:
  "get_domain i (check_and_update_job_status now j d) = get_domain i d"
  by (simp add: get_domain_def)

lemma get_domain_fail_task [simp]: "get_domain k (fail_task clk i e c d) = get_domain k d"
  by (auto simp: fail_task_def get_domain_def frame_simps split: option.split)

lemma get_domain_deactivate:
  "get_domain k (deactivate_if_active now i d) =
     (case get_domain k d of
        None \<Rightarrow> None
      | Some dm \<Rightarrow> Some (if k = i \<and> d_is_active dm then deactivate now dm else dm))"
proof (cases "get_domain i d")
  case None
  then show ?thesis by (auto simp: deactivate_if_active_def split: option.split)
next
  case (Some dm)
  then have "d_id dm = i" by (auto dest: get_domain_SomeD)
  with Some show ?thesis
    by (auto simp: deactivate_if_active_def domain_rows.get_put split: option.split)
qed

lemma reschedule_branches:
  assumes "get_task i d = Some t"
  shows "t_attempts t < m \<Longrightarrow> reschedule_task m clk jitter i e d =
      put_task (t\<lparr>t_status := PENDING, t_lease_expires_at := None, t_updated_at := clk 0,
        t_error_payload := Some (transient_payload e),
        t_next_attempt_at := clk 1 + seconds (backoff_delay (t_attempts t) + jitter)\<rparr>) d"
    and "m \<le> t_attempts t \<Longrightarrow> reschedule_task m clk jitter i e d =
      deactivate_if_active (clk 2) (t_domain_id t)
        (check_and_update_job_status (clk 1) (t_job_id t)
          (put_task (t\<lparr>t_status := FAILED, t_lease_expires_at := None, t_updated_at := clk 0,
             t_error_payload := Some (max_attempts_payload (attempts_message m e))\<rparr>) d))"
  using assms by (simp_all add: reschedule_task_def should_soft_deactivate_def)



text \<open>
  A permanent failure is final and deactivates by policy: the task is FAILED with an error that
  is not retryable, no other task changes, and the domain is made inactive exactly for security
  rejections, permanent DNS errors and used-up attempts; a permanent HTTP failure leaves it active.
\<close>

theorem fail_with_deactivation_effect:
  assumes "get_task i d = Some t" and "get_domain k d = Some dm" and "category \<noteq> ''retryable''"
  shows "(\<exists>t'. get_task i (write_fail_task_with_deactivation clk i k e category c d) = Some t' \<and>
      t_status t' = FAILED \<and> failure_payload (t_error_payload t')) \<and>
    (\<forall>x. x \<noteq> i \<longrightarrow>
      get_task x (write_fail_task_with_deactivation clk i k e category c d) = get_task x d) \<and>
    (\<exists>dm'. get_domain k (write_fail_task_with_deactivation clk i k e category c d) = Some dm' \<and>
      (d_is_active dm' \<longleftrightarrow> d_is_active dm \<and>
         \<not> (category = ''security'' \<or> c = ''DNS_PERMANENT_FAILURE'' \<or> c = ''PERMANENT_ERROR'' \<or>
            c = ''MAX_ATTEMPTS_EXCEEDED''))) \<and>
    (\<forall>x. x \<noteq> k \<longrightarrow>
      get_domain x (write_fail_task_with_deactivation clk i k e category c d) = get_domain x d)"
  using assms get_task_fail_task [OF assms(1), of _ clk e category]
  by (auto simp: write_fail_task_with_deactivation_def Let_def get_domain_deactivate
      should_soft_deactivate_def failure_payload_def category_payload_def split: option.split)

theorem fail_with_deactivation_effect_witness:
  "\<exists>dm'. get_domain 2 (write_fail_task_with_deactivation (\<lambda>n. 7) 12 2 ''HTTP 404'' ''permanent''
     ''HTTP_PERMANENT_FAILURE'' demo_db) = Some dm' \<and> d_is_active dm'"
proof -
  have "get_task 12 demo_db = Some (demo_task 12 USER_REQUEST PROCESSING 1 (Some 100))"
    and "get_domain 2 demo_db = Some demo_domain"
    by (simp_all add: get_task_def get_domain_def row_simps demo_defs)
  then show ?thesis
    using fail_with_deactivation_effect [of 12 demo_db _ 2 demo_domain "''permanent''" "\<lambda>n. 7"
        "''HTTP 404''" "''HTTP_PERMANENT_FAILURE''"]
    by (simp add: demo_domain_def)
qed

text \<open>
  C39. The writers of the processor do not look at the status of the task: a task that is already
  COMPLETED, in a job that is COMPLETED, goes back to PENDING when a second run of it reports a
  transient failure, while its job stays COMPLETED.
\<close>

theorem reschedule_reopens_completed:
  assumes "get_task i d = Some t" and "t_status t = COMPLETED" and "t_attempts t < m"
    and "t_job_id t = Some j" and "get_job j d = Some jb" and "j_status jb = COMPLETED"
  shows "(\<exists>t'. get_task i (write_reschedule_task m clk jitter i e d) = Some t' \<and> t_status t' = PENDING) \<and>
    (\<exists>jb'. get_job j (write_reschedule_task m clk jitter i e d) = Some jb' \<and> j_status jb' = COMPLETED)"
  using assms get_task_SomeD [OF assms(1)]
  by (simp add: write_reschedule_task_def reschedule_branches(1) get_task_put_task)

theorem reschedule_reopens_completed_witness:
  "\<exists>t'. get_task 12 (write_reschedule_task 3 (\<lambda>n. 7) 30 12 ''x''
     (demo_db\<lparr>db_jobs := [demo_job\<lparr>j_status := COMPLETED\<rparr>],
              db_tasks := [demo_task 12 USER_REQUEST COMPLETED 1 None]\<rparr>)) = Some t' \<and>
     t_status t' = PENDING"
proof -
  let ?d = "demo_db\<lparr>db_jobs := [demo_job\<lparr>j_status := COMPLETED\<rparr>],
              db_tasks := [demo_task 12 USER_REQUEST COMPLETED 1 None]\<rparr>"
  have "get_task 12 ?d = Some (demo_task 12 USER_REQUEST COMPLETED 1 None)"
    and "get_job 1 ?d = Some (demo_job\<lparr>j_status := COMPLETED\<rparr>)"
    by (simp_all add: get_task_def get_job_def row_simps demo_defs)
  then show ?thesis
    using reschedule_reopens_completed [of 12 ?d _ 3 1 _ "\<lambda>n. 7" 30 "''x''"]
    by (simp add: demo_task_def)
qed
subsection \<open>Optimistic concurrency\<close>

lemma get_detail_append_other:
  "k \<noteq> dd_domain_id dd \<Longrightarrow>
   get_detail k (d\<lparr>db_details := db_details d @ [dd]\<rparr>) = get_detail k d"
  by (simp add: get_detail_def row_simps split: option.split)

lemma upsert_with_occ_InrD:
  assumes "keys_ok d" and "upsert_with_occ dd expected d = Inr (u, d')"
  shows "u = dd\<lparr>dd_version := dd_version u\<rparr>"
    and "get_detail (dd_domain_id dd) d' = Some u"
    and "case get_detail (dd_domain_id dd) d of
           None \<Rightarrow> dd_version u = 1
         | Some r \<Rightarrow> dd_version r = expected \<and> dd_version u = dd_version r + 1"
    and "\<forall>k. k \<noteq> dd_domain_id dd \<longrightarrow> get_detail k d' = get_detail k d"
proof -
  note cases = assms(2) [unfolded upsert_with_occ_cases [OF assms(1)]]
  show "u = dd\<lparr>dd_version := dd_version u\<rparr>"
    using cases by (auto split: option.splits if_splits)
  show "case get_detail (dd_domain_id dd) d of
           None \<Rightarrow> dd_version u = 1
         | Some r \<Rightarrow> dd_version r = expected \<and> dd_version u = dd_version r + 1"
    using cases by (auto split: option.splits if_splits)
  show "get_detail (dd_domain_id dd) d' = Some u"
    using cases get_detail_append [of "dd\<lparr>dd_version := 1\<rparr>" d]
      detail_rows.get_put_same [of "dd\<lparr>dd_version := expected + 1\<rparr>" d]
    by (auto split: option.splits if_splits)
  show "\<forall>k. k \<noteq> dd_domain_id dd \<longrightarrow> get_detail k d' = get_detail k d"
    using cases get_detail_append_other [of _ "dd\<lparr>dd_version := 1\<rparr>" d]
    by (auto simp: detail_rows.get_put split: option.splits if_splits)
qed

definition occ_write :: "uuid \<Rightarrow> domain_detail option \<Rightarrow> db \<Rightarrow> domain_detail \<Rightarrow> db \<Rightarrow> bool" where
  "occ_write i seen base u d' \<longleftrightarrow>
     get_detail i d' = Some u \<and>
     (case get_detail i base of
        None \<Rightarrow> dd_version u = 1
      | Some r \<Rightarrow> dd_version r = version_of seen \<and> dd_version u = dd_version r + 1) \<and>
     (\<forall>k. k \<noteq> i \<longrightarrow> get_detail k d' = get_detail k base) \<and>
     db_tasks d' = db_tasks base \<and> db_jobs d' = db_jobs base \<and> db_domains d' = db_domains base"

lemma upsert_occ_write:
  assumes "keys_ok base" and "upsert_with_occ dd (version_of seen) base = Inr (u, d')"
  shows "occ_write (dd_domain_id dd) seen base u d'"
  unfolding occ_write_def
  using upsert_with_occ_InrD [OF assms] upsert_with_occ_frame [OF assms] by blast

lemma observation_version:
  "(observation clk i dns http v)\<lparr>dd_version := w\<rparr> = observation clk i dns http w"
  "dd_domain_id (observation clk i dns http v) = i"
  by (simp_all add: observation_def)


lemma occ_conflict_recognised:
  "exn_class (occ_conflict e v) = RuntimeError \<and> contains (exn_str (occ_conflict e v)) ''OCC conflict''"
proof -
  have "exn_str (occ_conflict e v) = [] @ ''OCC conflict'' @ ('': expected version '' @ str_of_int e @
      '', found version '' @ str_of_int v)" by (simp add: occ_conflict_def)
  then show ?thesis
    by (metis contains_append exn.sel(1) occ_conflict_def)
qed

text \<open>
  One conflict is survived: if the row changed between the read and the write and does not change
  again, and the second read returns the row as it is, the retry writes it with the version after the
  one found. If the second read returns an object with another version instead, the write is given
  up with the conflict and the row stays as the other transaction left it.
\<close>

theorem persist_retry:
  assumes "keys_ok (o1 d)" and "get_detail i d = Some r0" and "get_detail i (o1 d) = Some r1"
    and "o2 (o1 d) = o1 d" and "o3 (o1 d) = o1 d"
    and "dd_version r1 \<noteq> dd_version r0" and "reread i (o1 d) = Some again"
  shows "if dd_version again = dd_version r1
    then (\<exists>d'. persist_domain_detail clk o1 o2 o3 reread i dns http d =
            (Inr (observation clk i dns http (dd_version r1 + 1)), d') \<and>
            get_detail i d' = Some (observation clk i dns http (dd_version r1 + 1)))
    else persist_domain_detail clk o1 o2 o3 reread i dns http d =
           (Inl (occ_conflict (dd_version again) (dd_version r1)), o1 d)"
proof -
  define obs where "obs = (\<lambda>v. observation clk i dns http v)"
  have obs: "dd_domain_id (obs v) = i" "(obs v)\<lparr>dd_version := w\<rparr> = obs w" for v w
    by (simp_all add: obs_def observation_version)
  have fail: "upsert_with_occ (obs v) x (o1 d) = Inl (occ_conflict x (dd_version r1))"
    if "x \<noteq> dd_version r1" for v x
    using that assms(3) by (simp add: upsert_with_occ_cases [OF assms(1)] obs)
  have ok: "upsert_with_occ (obs v) (dd_version r1) (o1 d) =
      Inr (obs (dd_version r1 + 1), put_detail (obs (dd_version r1 + 1)) (o1 d))" for v
    using assms(3) by (simp add: upsert_with_occ_cases [OF assms(1)] obs)
  have "get_detail i (put_detail (obs (dd_version r1 + 1)) (o1 d)) = Some (obs (dd_version r1 + 1))"
    using detail_rows.get_put_same [of "obs (dd_version r1 + 1)" "o1 d"] assms(3) by (simp add: obs)
  then show ?thesis
    using fail [of "dd_version r0"] fail [of "dd_version again"] ok assms occ_conflict_recognised
    by (auto simp: persist_domain_detail_def Let_def version_of_def obs_def [symmetric] obs)
qed

definition demo_detail :: "int \<Rightarrow> domain_detail" where
  "demo_detail v = \<lparr>dd_domain_id = 2, dd_ip_addresses = [''1.2.3.4''], dd_dns_records = [],
     dd_http_status = 200, dd_page_title = None, dd_response_time = 5, dd_response_headers = [],
     dd_fetched_at = 0, dd_next_refresh_at = 10, dd_version = v\<rparr>"

definition demo_dns :: dns_result where
  "demo_dns = \<lparr>dr_ips_v4 = [''1.2.3.4''], dr_ips_v6 = [], dr_cname = None, dr_error = None\<rparr>"

definition demo_http :: http_result where
  "demo_http = \<lparr>hr_status_code = 200, hr_headers = [], hr_body = [], hr_response_time_ms = 5,
     hr_page_title = None, hr_error = None, hr_redirected_from = None\<rparr>"

definition detail_db :: "int \<Rightarrow> db" where
  "detail_db v = demo_db\<lparr>db_details := [demo_detail v]\<rparr>"

lemma detail_db_facts:
  "keys_ok (detail_db v)" "get_detail 2 (detail_db v) = Some (demo_detail v)"
  "dd_version (demo_detail v) = v"
  by (simp_all add: detail_db_def demo_detail_def keys_ok_def get_detail_def row_simps demo_defs)

theorem persist_retry_witness:
  "\<exists>d'. persist_domain_detail (\<lambda>n. 9) (\<lambda>d. detail_db 7) (\<lambda>d. d) (\<lambda>d. d) get_detail 2 demo_dns demo_http
     (detail_db 6) = (Inr (observation (\<lambda>n. 9) 2 demo_dns demo_http 8), d')"
  using persist_retry [of "\<lambda>d. detail_db 7" "detail_db 6" 2 "demo_detail 6" "demo_detail 7" "\<lambda>d. d" "\<lambda>d. d"
      get_detail "demo_detail 7" "\<lambda>n. 9" demo_dns demo_http]
  by (auto simp: detail_db_facts)


subsection \<open>Versions after a reactivation\<close>

lemma keys_ok_clear_batch: "keys_ok d \<Longrightarrow> keys_ok (clear_domain_details_batch ids d)"
  by (auto simp: keys_ok_def clear_domain_details_batch_def intro: distinct_map_filter)

lemma get_detail_cleared: "i \<in> set ids \<Longrightarrow> get_detail i (clear_domain_details_batch ids d) = None"
  by (auto simp: clear_domain_details_batch_def get_detail_def find_by_None)

text \<open>
  C17. Versions start again at 1 after a reactivation, which the version check cannot see: a run that read
  version 1 of the observation of a domain, before a request reactivated the domain and cleared its observation
  and another run wrote a new one, overwrites that new observation without a conflict, although it never saw it.
\<close>

theorem recreated_observation_overwritten:
  assumes "keys_ok d" and "get_detail i d = Some r" and "dd_version r = 1" and "i \<in> d_id ` set (db_domains d)"
    and "persist_domain_detail clk' (\<lambda>d. d) (\<lambda>d. d) (\<lambda>d. d) get_detail i dns' http'
           (clear_domain_details_batch [i] d) = (res, d1)"
  shows "\<exists>u' d'. res = Inr u' \<and> get_detail i d1 = Some u' \<and>
    persist_domain_detail clk (\<lambda>_. d1) o2 o3 reread i dns http d = (Inr (observation clk i dns http 2), d') \<and>
    get_detail i d' = Some (observation clk i dns http 2)"
proof -
  let ?c = "clear_domain_details_batch [i] d"
  let ?u = "observation clk' i dns' http' 1"
  have keys: "keys_ok ?c" by (rule keys_ok_clear_batch [OF assms(1)])
  have gone: "get_detail i ?c = None" by (rule get_detail_cleared) simp
  have dom: "i \<in> d_id ` set (db_domains ?c)" using assms(4) by (simp add: clear_domain_details_batch_def)
  have first: "res = Inr ?u" "d1 = ?c\<lparr>db_details := db_details ?c @ [?u]\<rparr>"
    using assms(5) dom
    by (simp_all add: persist_domain_detail_def Let_def gone version_of_def upsert_with_occ_cases [OF keys]
        observation_version)
  have new: "get_detail i d1 = Some ?u"
    using get_detail_append [of ?u ?c] gone by (simp add: first(2) observation_version)
  have keys1: "keys_ok d1"
    using keys gone by (auto simp: first(2) keys_ok_def get_detail_def find_by_None observation_version)
  have second: "upsert_with_occ (observation clk i dns http 2) 1 d1 =
      (let w = observation clk i dns http 2 in Inr (w, put_detail w d1))"
    using new by (simp add: upsert_with_occ_cases [OF keys1] observation_version Let_def observation_def)
  have "get_detail i (put_detail (observation clk i dns http 2) d1) = Some (observation clk i dns http 2)"
    using detail_rows.get_put_same [of "observation clk i dns http 2" d1] new by (simp add: observation_version)
  then show ?thesis
    using first(1) new second assms(2,3) by (simp add: persist_domain_detail_def Let_def version_of_def)
qed

theorem recreated_observation_overwritten_witness:
  "\<exists>d'. persist_domain_detail (\<lambda>n. 9)
     (\<lambda>_. snd (persist_domain_detail (\<lambda>n. 8) (\<lambda>d. d) (\<lambda>d. d) (\<lambda>d. d) get_detail 2 demo_dns demo_http
        (clear_domain_details_batch [2] (detail_db 1)))) (\<lambda>d. d) (\<lambda>d. d) get_detail 2 demo_dns demo_http (detail_db 1) =
     (Inr (observation (\<lambda>n. 9) 2 demo_dns demo_http 2), d')"
proof -
  obtain res d1 where run: "persist_domain_detail (\<lambda>n. 8) (\<lambda>d. d) (\<lambda>d. d) (\<lambda>d. d) get_detail 2 demo_dns demo_http
      (clear_domain_details_batch [2] (detail_db 1)) = (res, d1)" by fastforce
  have "2 \<in> d_id ` set (db_domains (detail_db 1))" by (simp add: detail_db_def demo_defs)
  from recreated_observation_overwritten [OF detail_db_facts(1,2,3) this run, of "\<lambda>n. 9" "\<lambda>d. d" "\<lambda>d. d" get_detail
      demo_dns demo_http] run
  show ?thesis by auto
qed

end
