(* ===== verification/Ip_Validator.thy ===== *)
theory Ip_Validator
  imports Py_Str "HOL-Library.Word"
begin

unbundle bit_operations_syntax

section \<open>The SSRF filter (ip\_validator.py)\<close>

text \<open>
  \<open>IpValidator.validate\<close> parses a string with \<open>ipaddress.ip_address\<close>, and rejects it when it does
  not parse, lies in one of the blocked networks, or is an IPv4-mapped IPv6 address of a blocked
  IPv4 network. The parsers are those of Python's standard library (\<open>ipaddress.py\<close>), an IPv4 address
  is a \<open>32 word\<close>, an IPv6 address a \<open>128 word\<close>, and membership in a network is the code's test
  \<open>address AND netmask = network\<close>. The zone of a scoped IPv6 address plays no part in that test and
  is dropped once it has been checked. The main result states the filter as the ranges it blocks.
\<close>

subsection \<open>Parsing addresses (the standard library)\<close>

fun digits_value :: "nat \<Rightarrow> string \<Rightarrow> nat" where
  "digits_value acc [] = acc"
| "digits_value acc (c # cs) = digits_value (acc * 10 + (code c - 48)) cs"

definition parse_octet :: "string \<Rightarrow> nat option" where
  "parse_octet s =
     (if s = [] then None
      else if \<not> list_all is_digit s then None
      else if length s > 3 then None
      else if s \<noteq> ''0'' \<and> hd s = CHR ''0'' then None
      else if digits_value 0 s > 255 then None
      else Some (digits_value 0 s))"

definition v4 :: "nat \<Rightarrow> nat \<Rightarrow> nat \<Rightarrow> nat \<Rightarrow> 32 word" where
  "v4 a b c d = word_of_nat (a * 2 ^ 24 + b * 2 ^ 16 + c * 2 ^ 8 + d)"

definition parse_ipv4 :: "string \<Rightarrow> 32 word option" where
  "parse_ipv4 s =
     (case map parse_octet (py_split (CHR ''.'') s) of
        [Some a, Some b, Some c, Some d] \<Rightarrow> Some (v4 a b c d)
      | _ \<Rightarrow> None)"

definition is_hex :: "char \<Rightarrow> bool" where
  "is_hex c \<longleftrightarrow> is_digit c \<or> 65 \<le> code c \<and> code c \<le> 70 \<or> 97 \<le> code c \<and> code c \<le> 102"

definition hex_value :: "char \<Rightarrow> nat" where
  "hex_value c = (if is_digit c then code c - 48
     else if 97 \<le> code c then code c - 87 else code c - 55)"

definition parse_hextet :: "string \<Rightarrow> 128 word option" where
  "parse_hextet s =
     (if s = [] \<or> \<not> list_all is_hex s \<or> length s > 4 then None
      else Some (foldl (\<lambda>acc c. acc * 16 + word_of_nat (hex_value c)) 0 s))"

definition hex_digit :: "nat \<Rightarrow> char" where
  "hex_digit n = (if n < 10 then char_of (48 + n) else char_of (87 + n))"

fun to_hex :: "nat \<Rightarrow> string" where
  "to_hex n = (if n < 16 then [hex_digit n] else to_hex (n div 16) @ [hex_digit (n mod 16)])"

declare to_hex.simps [simp del]

text \<open>
  The hextets of an IPv6 text: a dotted quad at the end counts as two of them, at most one \<open>::\<close>
  stands for the run of zeros that is left out, and the text may begin or end with a colon only as
  part of that \<open>::\<close>.
\<close>

definition expand_dotted :: "string list \<Rightarrow> string list option" where
  "expand_dotted parts =
     (if CHR ''.'' \<in> set (last parts) then
        (case parse_ipv4 (last parts) of
           None \<Rightarrow> None
         | Some w \<Rightarrow>
             Some (butlast parts @ [to_hex (unat (drop_bit 16 w)), to_hex (unat (take_bit 16 w))]))
      else Some parts)"

fun hextets :: "string list \<Rightarrow> 128 word \<Rightarrow> 128 word option" where
  "hextets [] acc = Some acc"
| "hextets (p # ps) acc =
     (case parse_hextet p of None \<Rightarrow> None | Some h \<Rightarrow> hextets ps (push_bit 16 acc OR h))"

definition inner_blanks :: "string list \<Rightarrow> nat list" where
  "inner_blanks parts = filter (\<lambda>i. parts ! i = []) [1..<length parts - 1]"

definition parse_ipv6_parts :: "string list \<Rightarrow> 128 word option" where
  "parse_ipv6_parts parts =
     (if length parts > 9 then None
      else case inner_blanks parts of
        [] \<Rightarrow>
          if length parts \<noteq> 8 \<or> hd parts = [] \<or> last parts = [] then None else hextets parts 0
      | [skip] \<Rightarrow>
          (let hi = skip; lo = length parts - skip - 1;
               hi' = (if hd parts = [] then hi - 1 else hi);
               lo' = (if last parts = [] then lo - 1 else lo)
           in if hd parts = [] \<and> hi' \<noteq> 0 then None
              else if last parts = [] \<and> lo' \<noteq> 0 then None
              else if 8 \<le> hi' + lo' then None
              else (case hextets (take hi' parts) 0 of
                      None \<Rightarrow> None
                    | Some w \<Rightarrow>
                        hextets (drop (length parts - lo') parts)
                          (push_bit (16 * (8 - (hi' + lo'))) w)))
      | _ \<Rightarrow> None)"

definition parse_ipv6 :: "string \<Rightarrow> 128 word option" where
  "parse_ipv6 s =
     (if CHR ''/'' \<in> set s then None
      else
        (case py_split (CHR ''%'') s of
           addr # zone \<Rightarrow>
             if zone \<noteq> [] \<and> (zone = [[]] \<or> tl zone \<noteq> []) then None
             else
               (let parts = py_split (CHR '':'') addr in
                if addr = [] \<or> length parts < 3 then None
                else (case expand_dotted parts of
                        None \<Rightarrow> None
                      | Some ps \<Rightarrow> parse_ipv6_parts ps))
         | [] \<Rightarrow> None))"

datatype ip_addr = IPv4 "32 word" | IPv6 "128 word"

definition ip_address :: "string \<Rightarrow> ip_addr option" where
  "ip_address s =
     (case parse_ipv4 s of
        Some w \<Rightarrow> Some (IPv4 w)
      | None \<Rightarrow> map_option IPv6 (parse_ipv6 s))"

subsection \<open>Networks\<close>

datatype network = Net4 "32 word" nat | Net6 "128 word" nat

definition netmask :: "nat \<Rightarrow> 'a::len word" where
  "netmask prefixlen = NOT (mask (LENGTH('a) - prefixlen))"

fun in_network :: "ip_addr \<Rightarrow> network \<Rightarrow> bool" where
  "in_network (IPv4 a) (Net4 n k) \<longleftrightarrow> a AND netmask k = n"
| "in_network (IPv6 a) (Net6 n k) \<longleftrightarrow> a AND netmask k = n"
| "in_network _ _ \<longleftrightarrow> False"

fun is_net4 :: "network \<Rightarrow> bool" where
  "is_net4 (Net4 n k) \<longleftrightarrow> True"
| "is_net4 (Net6 n k) \<longleftrightarrow> False"

definition ipv4_mapped :: "128 word \<Rightarrow> 32 word option" where
  "ipv4_mapped a = (if drop_bit 32 a \<noteq> 0xFFFF then None else Some (ucast (a AND 0xFFFFFFFF)))"

definition BLOCKED_NETWORKS :: "network list" where
  "BLOCKED_NETWORKS =
    [Net4 (v4 127 0 0 0) 8, Net6 0x1 128,
     Net4 (v4 10 0 0 0) 8, Net4 (v4 172 16 0 0) 12, Net4 (v4 192 168 0 0) 16,
     Net4 (v4 169 254 0 0) 16, Net6 0xfe800000000000000000000000000000 10,
     Net6 0xfc000000000000000000000000000000 7,
     Net4 (v4 224 0 0 0) 4, Net6 0xff000000000000000000000000000000 8,
     Net4 (v4 0 0 0 0) 32, Net6 0 128,
     Net4 (v4 240 0 0 0) 4,
     Net4 (v4 198 18 0 0) 15, Net4 (v4 198 19 0 0) 16,
     Net4 (v4 100 64 0 0) 10,
     Net4 (v4 192 0 2 0) 24, Net4 (v4 198 51 100 0) 24, Net4 (v4 203 0 113 0) 24,
     Net6 0x20010db8000000000000000000000000 32]"

subsection \<open>The validator\<close>

text \<open>
  The reason of a rejection is the code's text, kept here as what the text is made of.
  \<open>No_ips\<close> and \<open>All_blocked\<close> are the two reasons the processor adds.
\<close>

datatype reject_reason =
    Invalid_format
  | Blocked_network network
  | Mapped_blocked network
  | No_ips
  | All_blocked

record ip_validation_result =
  iv_is_allowed :: bool
  iv_ip :: string
  iv_reason :: "reject_reason option"

definition rejected :: "string \<Rightarrow> reject_reason \<Rightarrow> ip_validation_result" where
  "rejected s r = \<lparr>iv_is_allowed = False, iv_ip = s, iv_reason = Some r\<rparr>"

definition mapped_hit :: "ip_addr \<Rightarrow> network option" where
  "mapped_hit ip =
     (case ip of
        IPv4 a \<Rightarrow> None
      | IPv6 a \<Rightarrow>
          (case ipv4_mapped a of
             None \<Rightarrow> None
           | Some m \<Rightarrow> find (\<lambda>n. is_net4 n \<and> in_network (IPv4 m) n) BLOCKED_NETWORKS))"

definition validate :: "string \<Rightarrow> ip_validation_result" where
  "validate s =
     (case ip_address s of
        None \<Rightarrow> rejected s Invalid_format
      | Some ip \<Rightarrow>
          (case find (in_network ip) BLOCKED_NETWORKS of
             Some n \<Rightarrow> rejected s (Blocked_network n)
           | None \<Rightarrow>
               (case mapped_hit ip of
                  Some n \<Rightarrow> rejected s (Mapped_blocked n)
                | None \<Rightarrow> \<lparr>iv_is_allowed = True, iv_ip = s, iv_reason = None\<rparr>)))"

definition validate_all :: "string list \<Rightarrow> ip_validation_result list" where
  "validate_all ips = map validate ips"

fun get_first_allowed :: "string list \<Rightarrow> string option" where
  "get_first_allowed [] = None"
| "get_first_allowed (ip # ips) =
     (if iv_is_allowed (validate ip) then Some ip else get_first_allowed ips)"

definition is_ip_allowed :: "string \<Rightarrow> bool" where
  "is_ip_allowed s = iv_is_allowed (validate s)"

definition get_first_allowed_ip :: "string list \<Rightarrow> string option" where
  "get_first_allowed_ip ips = get_first_allowed ips"

lemma validate_ip [simp]: "iv_ip (validate s) = s"
  by (auto simp: validate_def rejected_def split: option.split)

lemma iv_rejected [simp]: "\<not> iv_is_allowed (rejected s r)" "iv_ip (rejected s r) = s"
  by (simp_all add: rejected_def)

subsection \<open>Membership in a network is a range\<close>

lemma and_not_mask: "(a :: 'a::len word) AND NOT (mask n) = push_bit n (drop_bit n a)"
  by (rule bit_word_eqI) (auto simp: bit_simps)

lemma unat_and_not_mask: "unat ((a :: 'a::len word) AND NOT (mask n)) = unat a div 2 ^ n * 2 ^ n"
proof -
  have "unat a div 2 ^ n * 2 ^ n \<le> unat a" by (rule div_times_less_eq_dividend)
  also have "unat a < 2 ^ LENGTH('a)" by (rule unsigned_less)
  finally have "take_bit LENGTH('a) (push_bit n (drop_bit n (unat a))) = unat a div 2 ^ n * 2 ^ n"
    by (simp add: push_bit_eq_mult drop_bit_eq_div take_bit_nat_eq_self)
  then show ?thesis
    by (simp only: and_not_mask unsigned_push_bit_eq unat_drop_bit_eq)
qed

lemma in_network_div:
  "in_network (IPv4 a) (Net4 n k) \<longleftrightarrow> unat a div 2 ^ (32 - k) * 2 ^ (32 - k) = unat n"
  "in_network (IPv6 c) (Net6 m k) \<longleftrightarrow> unat c div 2 ^ (128 - k) * 2 ^ (128 - k) = unat m"
  by (simp_all add: netmask_def unat_and_not_mask [symmetric] word_unat_eq_iff)

lemma unat_v4:
  assumes "a < 256" "b < 256" "c < 256" "d < 256"
  shows "unat (v4 a b c d) = a * 2 ^ 24 + b * 2 ^ 16 + c * 2 ^ 8 + d"
proof -
  have "a * 2 ^ 24 + b * 2 ^ 16 + c * 2 ^ 8 + d < 2 ^ LENGTH(32)" using assms by simp
  then show ?thesis
    unfolding v4_def by (rule of_nat_inverse [OF refl])
qed

definition restricted_ipv4 :: "nat \<Rightarrow> nat \<Rightarrow> nat \<Rightarrow> nat \<Rightarrow> bool" where
  "restricted_ipv4 a b c d \<longleftrightarrow>
     a = 127 \<or> a = 10 \<or> (a = 172 \<and> 16 \<le> b \<and> b \<le> 31) \<or> (a = 192 \<and> b = 168) \<or>
     (a = 169 \<and> b = 254) \<or> 224 \<le> a \<or> (a = 0 \<and> b = 0 \<and> c = 0 \<and> d = 0) \<or>
     (a = 198 \<and> (b = 18 \<or> b = 19)) \<or> (a = 100 \<and> 64 \<le> b \<and> b \<le> 127) \<or>
     (a = 192 \<and> b = 0 \<and> c = 2) \<or> (a = 198 \<and> b = 51 \<and> c = 100) \<or> (a = 203 \<and> b = 0 \<and> c = 113)"

lemma div_times_eq_iff:
  fixes x q m :: nat
  assumes "0 < m"
  shows "x div m * m = q * m \<longleftrightarrow> q * m \<le> x \<and> x < q * m + m"
proof -
  have "x div m * m = q * m \<longleftrightarrow> x div m = q" using assms by simp
  also have "\<dots> \<longleftrightarrow> q * m \<le> x \<and> x < q * m + m"
    using assms
    by (auto intro!: div_nat_eqI simp: mult.commute [of m])
      (metis add.commute dividend_less_div_times mult.commute)
  finally show ?thesis .
qed

lemma in_net4_range:
  assumes "a < 256" "b < 256" "c < 256" "d < 256" "a' < 256" "b' < 256" "c' < 256" "d' < 256"
    and "k \<le> 32" and "a' * 2 ^ 24 + b' * 2 ^ 16 + c' * 2 ^ 8 + d' = q * 2 ^ (32 - k)"
  shows "in_network (IPv4 (v4 a b c d)) (Net4 (v4 a' b' c' d') k) \<longleftrightarrow>
    q * 2 ^ (32 - k) \<le> a * 2 ^ 24 + b * 2 ^ 16 + c * 2 ^ 8 + d \<and>
    a * 2 ^ 24 + b * 2 ^ 16 + c * 2 ^ 8 + d < q * 2 ^ (32 - k) + 2 ^ (32 - k)"
  unfolding in_network_div unat_v4 [OF assms(1-4)] unat_v4 [OF assms(5-8)] assms(10)
  by (rule div_times_eq_iff) simp

lemma restricted_iff:
  assumes "a < 256" "b < 256" "c < 256" "d < 256"
  shows "(\<exists>n \<in> set BLOCKED_NETWORKS. in_network (IPv4 (v4 a b c d)) n) \<longleftrightarrow> restricted_ipv4 a b c d"
proof -
  note r = in_net4_range [OF assms]
  have 1: "in_network (IPv4 (v4 a b c d)) (Net4 (v4 127 0 0 0) 8) \<longleftrightarrow> a = 127"
    using assms by (subst r [where q = 127]) auto
  have 2: "in_network (IPv4 (v4 a b c d)) (Net4 (v4 10 0 0 0) 8) \<longleftrightarrow> a = 10"
    using assms by (subst r [where q = 10]) auto
  have 3: "in_network (IPv4 (v4 a b c d)) (Net4 (v4 172 16 0 0) 12) \<longleftrightarrow> a = 172 \<and> 16 \<le> b \<and> b \<le> 31"
    using assms by (subst r [where q = 2753]) (simp_all, cases "a = 172", auto)
  have 4: "in_network (IPv4 (v4 a b c d)) (Net4 (v4 192 168 0 0) 16) \<longleftrightarrow> a = 192 \<and> b = 168"
    using assms by (subst r [where q = 49320]) (simp_all, cases "a = 192", auto)
  have 5: "in_network (IPv4 (v4 a b c d)) (Net4 (v4 169 254 0 0) 16) \<longleftrightarrow> a = 169 \<and> b = 254"
    using assms by (subst r [where q = 43518]) (simp_all, cases "a = 169", auto)
  have 6: "in_network (IPv4 (v4 a b c d)) (Net4 (v4 224 0 0 0) 4) \<longleftrightarrow> 224 \<le> a \<and> a < 240"
    using assms by (subst r [where q = 14]) auto
  have 7: "in_network (IPv4 (v4 a b c d)) (Net4 (v4 0 0 0 0) 32) \<longleftrightarrow> a = 0 \<and> b = 0 \<and> c = 0 \<and> d = 0"
    using assms by (subst r [where q = 0]) auto
  have 8: "in_network (IPv4 (v4 a b c d)) (Net4 (v4 240 0 0 0) 4) \<longleftrightarrow> 240 \<le> a"
    using assms by (subst r [where q = 15]) auto
  have top: "224 \<le> a \<longleftrightarrow> (224 \<le> a \<and> a < 240) \<or> 240 \<le> a" by linarith
  have 9: "in_network (IPv4 (v4 a b c d)) (Net4 (v4 198 18 0 0) 15) \<longleftrightarrow> a = 198 \<and> (b = 18 \<or> b = 19)"
    using assms by (subst r [where q = 25353]) (simp_all, cases "a = 198", auto)
  have 10: "in_network (IPv4 (v4 a b c d)) (Net4 (v4 198 19 0 0) 16) \<longleftrightarrow> a = 198 \<and> b = 19"
    using assms by (subst r [where q = 50707]) (simp_all, cases "a = 198", auto)
  have 11: "in_network (IPv4 (v4 a b c d)) (Net4 (v4 100 64 0 0) 10) \<longleftrightarrow> a = 100 \<and> 64 \<le> b \<and> b \<le> 127"
    using assms by (subst r [where q = 401]) (simp_all, cases "a = 100", auto)
  have 12: "in_network (IPv4 (v4 a b c d)) (Net4 (v4 192 0 2 0) 24) \<longleftrightarrow> a = 192 \<and> b = 0 \<and> c = 2"
    using assms by (subst r [where q = 12582914]) (simp_all, (cases "a = 192"; cases "b = 0"; auto))
  have 13: "in_network (IPv4 (v4 a b c d)) (Net4 (v4 198 51 100 0) 24) \<longleftrightarrow> a = 198 \<and> b = 51 \<and> c = 100"
    using assms by (subst r [where q = 12989284]) (simp_all, (cases "a = 198"; cases "b = 51"; auto))
  have 14: "in_network (IPv4 (v4 a b c d)) (Net4 (v4 203 0 113 0) 24) \<longleftrightarrow> a = 203 \<and> b = 0 \<and> c = 113"
    using assms by (subst r [where q = 13303921]) (simp_all, (cases "a = 203"; cases "b = 0"; auto))
  show ?thesis
    unfolding BLOCKED_NETWORKS_def restricted_ipv4_def list.set bex_simps in_network.simps(3,4)
      1 2 3 4 5 6 7 8 9 10 11 12 13 14
    by (intro iffI; elim disjE; simp; linarith?)
qed

text \<open>The restricted addresses as ranges of their octets, of their first hextet, and of both.\<close>

definition octets_restricted :: "nat \<Rightarrow> bool" where
  "octets_restricted n =
     restricted_ipv4 (n div 2 ^ 24) (n div 2 ^ 16 mod 256) (n div 2 ^ 8 mod 256) (n mod 256)"

definition restricted_ipv6 :: "nat \<Rightarrow> bool" where
  "restricted_ipv6 n \<longleftrightarrow>
     n = 0 \<or> n = 1 \<or>
     (0xFE80 \<le> n div 2 ^ 112 \<and> n div 2 ^ 112 \<le> 0xFEBF) \<or>
     (0xFC00 \<le> n div 2 ^ 112 \<and> n div 2 ^ 112 \<le> 0xFDFF) \<or>
     0xFF00 \<le> n div 2 ^ 112 \<or>
     n div 2 ^ 96 = 0x20010DB8"

fun restricted :: "ip_addr \<Rightarrow> bool" where
  "restricted (IPv4 a) \<longleftrightarrow> octets_restricted (unat a)"
| "restricted (IPv6 a) \<longleftrightarrow> restricted_ipv6 (unat a) \<or>
     (unat a div 2 ^ 32 = 0xFFFF \<and> octets_restricted (unat a mod 2 ^ 32))"

lemma octet_bounds:
  fixes n :: nat
  assumes "n < 2 ^ 32"
  shows "n div 2 ^ 24 < 256" "n div 2 ^ 16 mod 256 < 256" "n div 2 ^ 8 mod 256 < 256" "n mod 256 < 256"
  using assms by (auto simp: less_mult_imp_div_less)

lemma pow256: "(2 :: nat) ^ 8 = 256" "(2 :: nat) ^ 16 = 65536" "(2 :: nat) ^ 24 = 16777216"
  by simp_all

lemma octets_sum:
  fixes n :: nat
  shows "(n div 2 ^ 24) * 2 ^ 24 + (n div 2 ^ 16 mod 256) * 2 ^ 16 + (n div 2 ^ 8 mod 256) * 2 ^ 8 + n mod 256 = n"
proof -
  have "n div 2 ^ 16 = n div 2 ^ 8 div 256" "n div 2 ^ 24 = n div 2 ^ 8 div 256 div 256"
    by (simp_all add: div_mult2_eq [symmetric])
  then show ?thesis
    using div_mult_mod_eq [of n 256] div_mult_mod_eq [of "n div 2 ^ 8" 256]
      div_mult_mod_eq [of "n div 2 ^ 8 div 256" 256] by (simp only: pow256)
qed

lemma v4_octets: "v4 (unat a div 2 ^ 24) (unat a div 2 ^ 16 mod 256) (unat a div 2 ^ 8 mod 256) (unat a mod 256) = a"
  unfolding v4_def octets_sum by simp

lemma octets_of_v4:
  assumes "a < 256" "b < 256" "c < 256" "d < 256"
  shows "octets_restricted (unat (v4 a b c d)) = restricted_ipv4 a b c d"
proof -
  let ?n = "a * 2 ^ 24 + b * 2 ^ 16 + c * 2 ^ 8 + d"
  have "?n div 2 ^ 24 = a" using assms by (intro div_nat_eqI) auto
  moreover have "?n div 2 ^ 16 = a * 256 + b" using assms by (intro div_nat_eqI) auto
  moreover have "?n div 2 ^ 8 = (a * 256 + b) * 256 + c" using assms by (intro div_nat_eqI) auto
  moreover have "?n = ((a * 256 + b) * 256 + c) * 256 + d" by simp
  ultimately show ?thesis
    unfolding octets_restricted_def unat_v4 [OF assms] using assms
    by (metis mod_less mod_mult_self3)
qed

lemma blocked_ipv4_iff:
  "(\<exists>n \<in> set BLOCKED_NETWORKS. in_network (IPv4 a) n) \<longleftrightarrow> octets_restricted (unat a)"
proof -
  have "unat a < 2 ^ 32" using unsigned_less [of a] by simp
  from restricted_iff [OF octet_bounds [OF this]] show ?thesis
    by (simp only: v4_octets octets_restricted_def)
qed

lemma div_eq_of_bits:
  fixes n :: nat
  shows "n div 2 ^ (112 + k) = n div 2 ^ 112 div 2 ^ k"
  by (simp only: div_mult2_eq power_add)

lemma in_net6_div:
  assumes "unat m = q * 2 ^ (112 + j)" and "128 - k = 112 + j"
  shows "in_network (IPv6 a) (Net6 m k) \<longleftrightarrow> unat a div 2 ^ 112 div 2 ^ j = q"
  unfolding in_network_div assms div_eq_of_bits by simp

lemma blocked_ipv6_iff:
  "(\<exists>n \<in> set BLOCKED_NETWORKS. in_network (IPv6 a) n) \<longleftrightarrow> restricted_ipv6 (unat a)"
proof -
  define h where "h = unat a div 2 ^ 112"
  have h: "h < 2 ^ 16"
    using unsigned_less [of a, where 'a = nat] by (simp add: h_def less_mult_imp_div_less)
  have 1: "in_network (IPv6 a) (Net6 0x1 128) \<longleftrightarrow> unat a = 1"
    and 2: "in_network (IPv6 a) (Net6 0 128) \<longleftrightarrow> unat a = 0"
    by (simp_all only: in_network_div) simp_all
  have "in_network (IPv6 a) (Net6 0xfe800000000000000000000000000000 10) \<longleftrightarrow> h div 2 ^ 6 = 1018"
    unfolding h_def by (rule in_net6_div) simp_all
  then have 3: "in_network (IPv6 a) (Net6 0xfe800000000000000000000000000000 10) \<longleftrightarrow>
      0xFE80 \<le> h \<and> h \<le> 0xFEBF" by auto
  have "in_network (IPv6 a) (Net6 0xfc000000000000000000000000000000 7) \<longleftrightarrow> h div 2 ^ 9 = 126"
    unfolding h_def by (rule in_net6_div) simp_all
  then have 4: "in_network (IPv6 a) (Net6 0xfc000000000000000000000000000000 7) \<longleftrightarrow>
      0xFC00 \<le> h \<and> h \<le> 0xFDFF" by auto
  have "in_network (IPv6 a) (Net6 0xff000000000000000000000000000000 8) \<longleftrightarrow> h div 2 ^ 8 = 255"
    unfolding h_def by (rule in_net6_div) simp_all
  then have 5: "in_network (IPv6 a) (Net6 0xff000000000000000000000000000000 8) \<longleftrightarrow> 0xFF00 \<le> h"
    using h by auto
  have "in_network (IPv6 a) (Net6 0x20010db8000000000000000000000000 32) \<longleftrightarrow>
        unat a div 2 ^ 96 * 2 ^ 96 = 0x20010DB8 * 2 ^ 96"
    unfolding in_network_div by simp
  then have 6: "in_network (IPv6 a) (Net6 0x20010db8000000000000000000000000 32) \<longleftrightarrow>
      unat a div 2 ^ 96 = 0x20010DB8" by simp
  show ?thesis
    unfolding BLOCKED_NETWORKS_def restricted_ipv6_def list.set bex_simps in_network.simps(3)
      1 2 3 4 5 6 h_def [symmetric] by auto
qed

lemma mapped_hit_iff:
  "mapped_hit (IPv6 a) \<noteq> None \<longleftrightarrow>
     unat a div 2 ^ 32 = 0xFFFF \<and> octets_restricted (unat a mod 2 ^ 32)"
proof -
  have "unat (drop_bit 32 a) = unat a div 2 ^ 32"
    by (subst unat_drop_bit_eq) (simp only: drop_bit_eq_div)
  then have "drop_bit 32 a = 0xFFFF \<longleftrightarrow> unat a div 2 ^ 32 = 0xFFFF"
    by (simp only: word_unat_eq_iff) simp
  moreover have "unat (ucast (a AND 0xFFFFFFFF) :: 32 word) = unat a mod 2 ^ 32"
  proof -
    have "a AND 0xFFFFFFFF = take_bit 32 a" by (simp add: take_bit_eq_mask mask_eq_exp_minus_1)
    moreover have "unat (ucast (take_bit 32 a) :: 32 word) = take_bit 32 (unat a)"
      by (simp add: unsigned_ucast_eq unsigned_take_bit_eq)
    ultimately show ?thesis
      by (simp only: take_bit_eq_mod)
  qed
  moreover have "find (\<lambda>n. is_net4 n \<and> in_network (IPv4 m) n) BLOCKED_NETWORKS \<noteq> None \<longleftrightarrow>
      octets_restricted (unat m)" for m
  proof -
    have "is_net4 n" if "in_network (IPv4 m) n" for n using that by (cases n) auto
    then show ?thesis
      unfolding blocked_ipv4_iff [symmetric] by (auto simp: find_None_iff)
  qed
  ultimately show ?thesis
    by (simp add: mapped_hit_def ipv4_mapped_def)
qed



lemma validate_allowed_iff:
  "iv_is_allowed (validate s) \<longleftrightarrow> (\<exists>ip. ip_address s = Some ip \<and> \<not> restricted ip)"
proof (cases "ip_address s")
  case None
  then show ?thesis by (simp add: validate_def)
next
  case (Some ip)
  have "find (in_network ip) BLOCKED_NETWORKS = None \<and> mapped_hit ip = None \<longleftrightarrow> \<not> restricted ip"
  proof (cases ip)
    case (IPv4 a)
    then show ?thesis
      using blocked_ipv4_iff [of a] by (auto simp: find_None_iff mapped_hit_def)
  next
    case (IPv6 a)
    then show ?thesis
      using blocked_ipv6_iff [of a] mapped_hit_iff [of a] by (auto simp: find_None_iff)
  qed
  with Some show ?thesis by (auto simp: validate_def split: option.split)
qed

subsection \<open>Canonical dotted quads\<close>

lemma digits_of_small: "n < 10 \<Longrightarrow> digits_of n = [char_of (48 + n)]"
  by (simp add: digits_of.simps [of n])

lemma digits_of_big: "10 \<le> n \<Longrightarrow> digits_of n = digits_of (n div 10) @ [char_of (48 + n mod 10)]"
  by (simp add: digits_of.simps [of n])

lemma digits_of_nonempty [simp]: "digits_of n \<noteq> []"
  by (simp add: digits_of.simps [of n])

lemma is_digit_digits_of: "list_all is_digit (digits_of n)"
proof (induction n rule: digits_of.induct)
  case (1 n)
  have "is_digit (char_of (48 + n mod 10))" by (simp add: is_digit_def)
  with 1 show ?case
    by (cases "n < 10") (simp_all add: digits_of_small digits_of_big is_digit_def)
qed

lemma digits_value_append: "digits_value acc (s @ t) = digits_value (digits_value acc s) t"
  by (induction s arbitrary: acc) simp_all

lemma digits_value_digits_of: "digits_value 0 (digits_of n) = n"
proof (induction n rule: digits_of.induct)
  case (1 n)
  then show ?case
    by (cases "n < 10") (simp_all add: digits_of_small digits_of_big digits_value_append)
qed

lemma hd_digits_of: "hd (digits_of n) = CHR ''0'' \<longleftrightarrow> n = 0"
proof (induction n rule: digits_of.induct)
  case (1 n)
  show ?case
  proof (cases "n < 10")
    case True
    have "char_of (48 + n) = CHR ''0'' \<longleftrightarrow> code (char_of (48 + n)) = code CHR ''0''"
      by (simp only: code_eq_iff)
    also have "\<dots> \<longleftrightarrow> n = 0" using True by (simp add: code_def)
    finally show ?thesis using True by (simp add: digits_of_small)
  next
    case False
    with 1 show ?thesis by (simp add: digits_of_big)
  qed
qed

lemma length_digits_of_octet: "n < 256 \<Longrightarrow> length (digits_of n) \<le> 3"
proof -
  assume "n < 256"
  then have "n div 10 div 10 < 10" by simp
  then show ?thesis
    by (cases "n < 10"; cases "n div 10 < 10") (simp_all add: digits_of_small digits_of_big)
qed

lemma parse_octet_digits_of: "n < 256 \<Longrightarrow> parse_octet (digits_of n) = Some n"
  using hd_digits_of [of n] is_digit_digits_of [of n] length_digits_of_octet [of n]
  by (auto simp: parse_octet_def digits_value_digits_of digits_of_small)

lemma char_of_digit: "is_digit c \<Longrightarrow> char_of (48 + (code c - 48)) = c"
  by (simp add: is_digit_def code_def)

lemma digit_value_less: "is_digit c \<Longrightarrow> code c - 48 < 10"
  by (auto simp: is_digit_def)

lemma digits_of_snoc:
  assumes "s = digits_of n" and "0 < n" and "is_digit c"
  shows "s @ [c] = digits_of (n * 10 + (code c - 48))"
proof -
  have "(n * 10 + (code c - 48)) div 10 = n" and "(n * 10 + (code c - 48)) mod 10 = code c - 48"
    using digit_value_less [OF assms(3)] by simp_all
  moreover have "10 \<le> n * 10 + (code c - 48)" using assms(2) by simp
  ultimately show ?thesis
    using assms(1) char_of_digit [OF assms(3)] by (simp add: digits_of_big)
qed

lemma digits_canonical:
  assumes "s \<noteq> []" and "list_all is_digit s" and "s = ''0'' \<or> hd s \<noteq> CHR ''0''"
  shows "s = digits_of (digits_value 0 s)"
  using assms
proof (induction s rule: rev_induct)
  case Nil
  then show ?case by simp
next
  case (snoc c s)
  then have c: "is_digit c" and s: "list_all is_digit s" by simp_all
  show ?case
  proof (cases "s = []")
    case True
    then show ?thesis
      using c digit_value_less [OF c] by (simp add: digits_of_small char_of_digit)
  next
    case False
    then have hd: "hd s \<noteq> CHR ''0''" using snoc.prems(3) by auto
    with snoc.IH False s have IH: "s = digits_of (digits_value 0 s)" by blast
    moreover have "0 < digits_value 0 s"
      using hd IH hd_digits_of [of "digits_value 0 s"] by (metis neq0_conv)
    ultimately show ?thesis
      using digits_of_snoc [OF IH _ c] by (simp add: digits_value_append digits_value_digits_of)
  qed
qed

lemma parse_octet_SomeD: "parse_octet s = Some n \<Longrightarrow> s = digits_of n \<and> n < 256"
  using digits_canonical [of s] by (auto simp: parse_octet_def split: if_splits)

definition dotted :: "nat \<Rightarrow> nat \<Rightarrow> nat \<Rightarrow> nat \<Rightarrow> string" where
  "dotted a b c d = py_join (CHR ''.'') [digits_of a, digits_of b, digits_of c, digits_of d]"

lemma dot_not_in_digits: "CHR ''.'' \<notin> set (digits_of n)" "CHR '':'' \<notin> set (digits_of n)"
proof -
  have "\<not> is_digit (CHR ''.'')" "\<not> is_digit (CHR '':'')" by (simp_all add: is_digit_def code_def)
  with is_digit_digits_of [of n] show "CHR ''.'' \<notin> set (digits_of n)" "CHR '':'' \<notin> set (digits_of n)"
    by (auto simp: list_all_iff)
qed

lemma parse_ipv4_dotted:
  assumes "a < 256" "b < 256" "c < 256" "d < 256"
  shows "parse_ipv4 (dotted a b c d) = Some (v4 a b c d)"
proof -
  have "py_split (CHR ''.'') (dotted a b c d) = [digits_of a, digits_of b, digits_of c, digits_of d]"
    unfolding dotted_def by (rule py_split_join) (auto simp: dot_not_in_digits)
  with assms show ?thesis by (simp add: parse_ipv4_def parse_octet_digits_of)
qed

lemma parse_ipv4_SomeE:
  assumes "parse_ipv4 s = Some w"
  obtains a b c d where "a < 256" "b < 256" "c < 256" "d < 256" "s = dotted a b c d" "w = v4 a b c d"
proof -
  from assms obtain a b c d
    where ps: "map parse_octet (py_split (CHR ''.'') s) = [Some a, Some b, Some c, Some d]"
      and w: "w = v4 a b c d"
    by (auto simp: parse_ipv4_def split: list.splits option.splits)
  then obtain p q r t where split: "py_split (CHR ''.'') s = [p, q, r, t]"
      and "parse_octet p = Some a" "parse_octet q = Some b" "parse_octet r = Some c" "parse_octet t = Some d"
    by (auto simp: map_eq_Cons_conv)
  then have "[p, q, r, t] = [digits_of a, digits_of b, digits_of c, digits_of d]"
      and "a < 256" "b < 256" "c < 256" "d < 256"
    by (auto dest: parse_octet_SomeD)
  moreover from this(1) have "s = dotted a b c d"
    unfolding dotted_def using py_join_split [of "CHR ''.''" s] by (simp only: split)
  ultimately show thesis using w that by blast
qed

lemma parse_ipv6_colon: "CHR '':'' \<notin> set s \<Longrightarrow> parse_ipv6 s = None"
proof -
  assume no: "CHR '':'' \<notin> set s"
  obtain addr zone where az: "py_split (CHR ''%'') s = addr # zone"
    by (meson py_split_nonempty neq_Nil_conv)
  then have "CHR '':'' \<notin> set addr" using set_py_split [of addr "CHR ''%''" s] no by auto
  then have "length (py_split (CHR '':'') addr) < 3"
    by (simp add: py_split_no_sep_single)
  with az show ?thesis by (simp add: parse_ipv6_def Let_def)
qed

lemma ip_address_no_colon:
  assumes "CHR '':'' \<notin> set s"
  shows "ip_address s = Some ip \<longleftrightarrow>
    (\<exists>a b c d. a < 256 \<and> b < 256 \<and> c < 256 \<and> d < 256 \<and> s = dotted a b c d \<and> ip = IPv4 (v4 a b c d))"
proof
  assume "ip_address s = Some ip"
  then have "\<exists>w. parse_ipv4 s = Some w \<and> ip = IPv4 w"
    by (simp add: ip_address_def parse_ipv6_colon [OF assms] split: option.splits)
  then obtain w where w: "parse_ipv4 s = Some w" and ip: "ip = IPv4 w" by blast
  from w obtain a b c d where "a < 256" "b < 256" "c < 256" "d < 256" "s = dotted a b c d" "w = v4 a b c d"
    by (rule parse_ipv4_SomeE)
  with ip show "\<exists>a b c d. a < 256 \<and> b < 256 \<and> c < 256 \<and> d < 256 \<and> s = dotted a b c d \<and>
      ip = IPv4 (v4 a b c d)" by blast
next
  assume "\<exists>a b c d. a < 256 \<and> b < 256 \<and> c < 256 \<and> d < 256 \<and> s = dotted a b c d \<and>
      ip = IPv4 (v4 a b c d)"
  then show "ip_address s = Some ip"
    by (elim exE conjE) (simp add: ip_address_def parse_ipv4_dotted)
qed

lemma validate_quad:
  assumes "a < 256" "b < 256" "c < 256" "d < 256"
  shows "iv_is_allowed (validate (dotted a b c d)) \<longleftrightarrow> \<not> restricted_ipv4 a b c d"
  unfolding validate_allowed_iff ip_address_def parse_ipv4_dotted [OF assms]
  by (simp add: octets_of_v4 [OF assms])

text \<open>
  A host name without a colon passes the filter only in one spelling: four decimal octets below
  256 without leading zeros, not in a restricted range. So no octal, hexadecimal, shortened or
  padded spelling of an internal address gets through, and every canonical public one does.
\<close>

theorem validate_dotted:
  assumes "CHR '':'' \<notin> set s"
  shows "iv_is_allowed (validate s) \<longleftrightarrow>
    (\<exists>a b c d. a < 256 \<and> b < 256 \<and> c < 256 \<and> d < 256 \<and> s = dotted a b c d \<and>
       \<not> restricted_ipv4 a b c d)"
proof
  assume "iv_is_allowed (validate s)"
  then obtain a b c d where q: "a < 256" "b < 256" "c < 256" "d < 256" "s = dotted a b c d"
    and "\<not> octets_restricted (unat (v4 a b c d))"
    unfolding validate_allowed_iff ip_address_no_colon [OF assms] by auto
  then have "\<not> restricted_ipv4 a b c d" by (simp add: octets_of_v4)
  with q show "\<exists>a b c d. a < 256 \<and> b < 256 \<and> c < 256 \<and> d < 256 \<and> s = dotted a b c d \<and>
      \<not> restricted_ipv4 a b c d" by blast
next
  assume "\<exists>a b c d. a < 256 \<and> b < 256 \<and> c < 256 \<and> d < 256 \<and> s = dotted a b c d \<and>
      \<not> restricted_ipv4 a b c d"
  then obtain a b c d where q: "a < 256" "b < 256" "c < 256" "d < 256" "s = dotted a b c d"
    and r: "\<not> restricted_ipv4 a b c d" by blast
  then have "ip_address s = Some (IPv4 (v4 a b c d))"
    by (simp add: ip_address_def parse_ipv4_dotted)
  moreover have "\<not> restricted (IPv4 (v4 a b c d))"
    unfolding restricted.simps octets_of_v4 [OF q(1-4)] by (rule r)
  ultimately show "iv_is_allowed (validate s)"
    unfolding validate_allowed_iff by blast
qed


theorem validate_dotted_witness: "iv_is_allowed (validate ''93.184.216.34'')"
proof -
  have "dotted 93 184 216 34 = ''93.184.216.34''"
    by code_simp
  moreover have "\<not> restricted_ipv4 93 184 216 34"
    by (simp add: restricted_ipv4_def)
  ultimately show ?thesis
    by (intro validate_dotted [THEN iffD2] exI [of _ 93] exI [of _ 184] exI [of _ 216] exI [of _ 34]) simp_all
qed

text \<open>
  C7. The filter as ranges of addresses: a string passes exactly if it is the text of an IPv4 or
  IPv6 address outside the restricted ranges (loopback, private, link-local with the cloud metadata
  address, multicast, reserved, benchmarking, carrier-grade NAT, documentation), where an
  IPv4-mapped IPv6 address counts as the IPv4 address it embeds. The masks and the comparisons of
  the code and the order of its checks do not show.
\<close>

theorem validate_allowed_ranges:
  "iv_is_allowed (validate s) \<longleftrightarrow> (\<exists>ip. ip_address s = Some ip \<and> \<not> restricted ip)"
  by (rule validate_allowed_iff)

end
