(* ===== verification/Domain_Lock.thy ===== *)
theory Domain_Lock
  imports Py_Str
begin

section \<open>The domain lock (domain\_lock.py)\<close>

text \<open>
  A lock is a Redis key that holds the token of its owner. The Redis server is an argument of the
  model: its two operations (SET with NX and PX, and the evaluation of the script that compares the
  token and deletes the key) on a state of its own. What the code relies on of them is
  \<open>redis_laws\<close>, in terms of the value a key holds; it is a hypothesis where a result needs it.
\<close>

subsection \<open>The server\<close>

record 'r redis =
  set_nx_px :: "string \<Rightarrow> string \<Rightarrow> int \<Rightarrow> 'r \<Rightarrow> (exn + bool) \<times> 'r"
  eval_release :: "string \<Rightarrow> string \<Rightarrow> 'r \<Rightarrow> (exn + int) \<times> 'r"

text \<open>
  The documented behaviour: SET NX writes the key exactly if it is absent and says whether it did;
  the script deletes the key exactly if it holds the token and says whether it did.
\<close>

definition redis_laws :: "'r redis \<Rightarrow> ('r \<Rightarrow> string \<rightharpoonup> string) \<Rightarrow> bool" where
  "redis_laws rd holder \<longleftrightarrow>
     (\<forall>k tok px r ok r'. set_nx_px rd k tok px r = (Inr ok, r') \<longrightarrow>
        ok = (holder r k = None) \<and>
        holder r' = (if ok then (holder r)(k \<mapsto> tok) else holder r)) \<and>
     (\<forall>k tok r n r'. eval_release rd k tok r = (Inr n, r') \<longrightarrow>
        (n \<noteq> 0) = (holder r k = Some tok) \<and>
        holder r' = (if n \<noteq> 0 then (holder r)(k := None) else holder r))"

subsection \<open>Acquiring and releasing\<close>

record lock_context =
  lc_domain :: string
  lc_token :: "string option"
  lc_acquired :: bool
  lc_error :: "string option"

definition is_acquired :: "lock_context \<Rightarrow> bool" where
  "is_acquired c \<longleftrightarrow> lc_acquired c \<and> lc_token c \<noteq> None"

definition lock_ttl_seconds :: int where
  "lock_ttl_seconds = 60"

definition lock_key :: "string \<Rightarrow> string" where
  "lock_key normalized_domain = ''lock:domain:'' @ normalized_domain"

text \<open>The part of \<open>acquire\<close> before its \<open>yield\<close>: the context that it yields.\<close>

definition acquire_enter :: "'r redis \<Rightarrow> string \<Rightarrow> string \<Rightarrow> 'r \<Rightarrow> lock_context \<times> 'r" where
  "acquire_enter rd name token r =
     (case set_nx_px rd (lock_key name) token (lock_ttl_seconds * 1000) r of
        (Inl e, r') \<Rightarrow>
          (\<lparr>lc_domain = name, lc_token = None, lc_acquired = False, lc_error = Some (exn_str e)\<rparr>, r')
      | (Inr True, r') \<Rightarrow>
          (\<lparr>lc_domain = name, lc_token = Some token, lc_acquired = True, lc_error = None\<rparr>, r')
      | (Inr False, r') \<Rightarrow>
          (\<lparr>lc_domain = name, lc_token = None, lc_acquired = False, lc_error = None\<rparr>, r'))"

definition release :: "'r redis \<Rightarrow> string \<Rightarrow> string \<Rightarrow> 'r \<Rightarrow> bool \<times> 'r" where
  "release rd name token r =
     (case eval_release rd (lock_key name) token r of
        (Inl e, r') \<Rightarrow> (False, r')
      | (Inr n, r') \<Rightarrow> (n \<noteq> 0, r'))"

text \<open>
  \<open>async with lock.acquire(name) as ctx: body\<close>: the body runs with the context, and the \<open>finally\<close>
  clause releases what was acquired whether the body returned or raised.
\<close>

definition with_lock ::
  "'r redis \<Rightarrow> string \<Rightarrow> string \<Rightarrow> (lock_context \<Rightarrow> 'r \<Rightarrow> 'a \<times> 'r) \<Rightarrow> 'r \<Rightarrow> 'a \<times> 'r" where
  "with_lock rd name token body r =
     (let (ctx, r1) = acquire_enter rd name token r;
          (result, r2) = body ctx r1
      in (result, if lc_acquired ctx then snd (release rd name token r2) else r2))"

text \<open>
  \<open>DomainLockManager.process_domain\<close>: the double-checked pattern over the lock. What it yields is
  whether the lock was acquired, with the result of the processing if there was any.
\<close>

definition process_domain ::
  "'r redis \<Rightarrow> string \<Rightarrow> string \<Rightarrow> (string \<Rightarrow> exn + bool) \<Rightarrow> (string \<Rightarrow> 'r \<Rightarrow> (exn + 'b) \<times> 'r) \<Rightarrow> 'r
     \<Rightarrow> (exn + bool \<times> 'b option) \<times> 'r" where
  "process_domain rd name token freshness_check process_func r =
     with_lock rd name token
       (\<lambda>ctx r1.
          if \<not> is_acquired ctx then (Inr (False, None), r1)
          else
            (case freshness_check name of
               Inl e \<Rightarrow> (Inl e, r1)
             | Inr True \<Rightarrow> (Inr (True, None), r1)
             | Inr False \<Rightarrow>
                 (case process_func name r1 of
                    (Inl e, r2) \<Rightarrow> (Inl e, r2)
                  | (Inr b, r2) \<Rightarrow> (Inr (True, Some b), r2))))
       r"

subsection \<open>What the lock guarantees\<close>

lemma acquire_enter_ctx:
  assumes "acquire_enter rd name token r = (ctx, r')"
  shows "is_acquired ctx = lc_acquired ctx" "lc_acquired ctx \<Longrightarrow> lc_token ctx = Some token"
    "lc_domain ctx = name"
  using assms by (auto simp: acquire_enter_def is_acquired_def split: prod.splits sum.splits bool.splits)

lemma acquire_enter_holder:
  assumes "redis_laws rd holder" and "acquire_enter rd name token r = (ctx, r')" and "lc_error ctx = None"
  shows "is_acquired ctx \<longleftrightarrow> holder r (lock_key name) = None"
    and "holder r' = (if is_acquired ctx then (holder r)(lock_key name \<mapsto> token) else holder r)"
proof -
  obtain res r1 where set: "set_nx_px rd (lock_key name) token (lock_ttl_seconds * 1000) r = (res, r1)"
    by fastforce
  with assms(2,3) obtain ok where ok: "res = Inr ok" and "r1 = r'" and "is_acquired ctx = ok"
    by (auto simp: acquire_enter_def is_acquired_def split: sum.splits bool.splits)
  with set assms(1) show "is_acquired ctx \<longleftrightarrow> holder r (lock_key name) = None"
    and "holder r' = (if is_acquired ctx then (holder r)(lock_key name \<mapsto> token) else holder r)"
    unfolding redis_laws_def by blast+
qed

lemma release_holder:
  assumes "redis_laws rd holder" and "eval_release rd (lock_key name) token r = (Inr n, r')"
  shows "release rd name token r = (holder r (lock_key name) = Some token, r')"
    and "holder r' = (if holder r (lock_key name) = Some token then (holder r)(lock_key name := None)
                      else holder r)"
  using assms unfolding redis_laws_def release_def by auto

text \<open>A server that keeps its keys in a map, for the witnesses.\<close>

definition map_redis :: "(string \<rightharpoonup> string) redis" where
  "map_redis =
     \<lparr>set_nx_px = (\<lambda>k tok px r. if r k = None then (Inr True, r(k \<mapsto> tok)) else (Inr False, r)),
      eval_release = (\<lambda>k tok r. if r k = Some tok then (Inr 1, r(k := None)) else (Inr 0, r))\<rparr>"

lemma map_redis_laws: "redis_laws map_redis (\<lambda>r. r)"
  by (auto simp: redis_laws_def map_redis_def split: if_splits)

text \<open>
  Mutual exclusion: while the key of a domain holds some token, entering the lock of that domain
  does not acquire it and leaves every key as it was; and a release with another token removes
  nothing, so an owner whose lock expired cannot free the lock of its successor.
\<close>

theorem lock_exclusion:
  assumes "redis_laws rd holder" and "holder r (lock_key name) = Some owner"
    and "acquire_enter rd name token r = (ctx, r1)" and "lc_error ctx = None"
    and "eval_release rd (lock_key name) token r1 = (Inr n, r2)" and "token \<noteq> owner"
  shows "\<not> is_acquired ctx \<and> holder r1 = holder r \<and>
    fst (release rd name token r1) = False \<and> holder r2 = holder r"
  using acquire_enter_holder [OF assms(1,3,4)] release_holder [OF assms(1,5)] assms(2,6)
  by simp

theorem lock_exclusion_witness:
  "\<not> is_acquired (fst (acquire_enter map_redis ''a.b'' ''t2'' [lock_key ''a.b'' \<mapsto> ''t1'']))"
  using lock_exclusion [OF map_redis_laws, of "[lock_key ''a.b'' \<mapsto> ''t1'']" "''a.b''" "''t1''" "''t2''"
      "fst (acquire_enter map_redis ''a.b'' ''t2'' [lock_key ''a.b'' \<mapsto> ''t1''])"
      "[lock_key ''a.b'' \<mapsto> ''t1'']" 0 "[lock_key ''a.b'' \<mapsto> ''t1'']"]
  by (simp add: acquire_enter_def map_redis_def lock_key_def)

text \<open>
  The lock is given back on every path: when the body of the lock has finished, by returning or
  by raising, and the server answered the release, the key does not hold the token of this run. And
  if the lock had been free and the body left the server alone, every key is as it was before.
\<close>

theorem lock_released:
  assumes "redis_laws rd holder" and "holder r (lock_key name) \<noteq> Some token"
    and "acquire_enter rd name token r = (ctx, r1)" and "lc_error ctx = None"
    and "body ctx r1 = (result, r2)" and "\<not> is_acquired ctx \<longrightarrow> holder r2 = holder r1"
    and "eval_release rd (lock_key name) token r2 = (Inr n, r3)"
  shows "fst (with_lock rd name token body r) = result \<and>
    holder (snd (with_lock rd name token body r)) (lock_key name) \<noteq> Some token \<and>
    (holder r2 = holder r1 \<longrightarrow> holder (snd (with_lock rd name token body r)) = holder r)"
proof -
  note ctx = acquire_enter_ctx(1) [OF assms(3)]
  have run: "with_lock rd name token body r = (result, if is_acquired ctx then r3 else r2)"
    using assms(3,5) release_holder(1) [OF assms(1,7)] by (simp add: with_lock_def ctx)
  show ?thesis
  proof (cases "is_acquired ctx")
    case True
    then have free: "holder r (lock_key name) = None"
      and r1: "holder r1 = (holder r)(lock_key name \<mapsto> token)"
      using acquire_enter_holder [OF assms(1,3,4)] by simp_all
    then have "holder r2 = holder r1 \<longrightarrow> holder r3 = holder r"
      using release_holder(2) [OF assms(1,7)] by (auto simp: fun_upd_idem_iff)
    then show ?thesis
      using run True release_holder(2) [OF assms(1,7)] by simp
  next
    case False
    then show ?thesis
      using run assms(2,6) acquire_enter_holder(2) [OF assms(1,3,4)] by simp
  qed
qed

theorem lock_released_witness:
  "snd (with_lock map_redis ''a.b'' ''t'' (\<lambda>ctx r. (is_acquired ctx, r)) Map.empty) = Map.empty"
  using lock_released [OF map_redis_laws, of Map.empty "''a.b''" "''t''"
      "fst (acquire_enter map_redis ''a.b'' ''t'' Map.empty)" "[lock_key ''a.b'' \<mapsto> ''t'']"
      "\<lambda>ctx r. (is_acquired ctx, r)" True "[lock_key ''a.b'' \<mapsto> ''t'']" 1 Map.empty]
  by (simp add: acquire_enter_def map_redis_def is_acquired_def)

end
