(* ===== verification/Processor.thy ===== *)
theory Processor
  imports Processor_Writes Ip_Validator Domain_Lock
begin

section \<open>The processing pipeline (domain\_processor.py)\<close>

text \<open>
  \<open>process_task\<close> reads the domain of a task, reuses a fresh observation, takes the domain lock, checks
  again, resolves, filters the addresses, probes the first allowed one, and writes. Everything outside
  the program is an argument, the record \<open>proc_env\<close>: the clock, the answers of DNS and HTTP, the
  token of the lock, the exceptions raised at each stage, and what other transactions commit between
  two sessions of this run. The result is what the handler returns or raises, the database, and the
  URLs that were asked for.
\<close>

subsection \<open>Results and environment\<close>

record processing_result =
  pr_status :: task_status
  pr_domain_detail :: "domain_detail option"
  pr_error :: "string option"
  pr_error_category :: "string option"
  pr_dns_result :: "dns_result option"
  pr_http_result :: "http_result option"
  pr_ip_validation :: "ip_validation_result option"

definition result_of :: "task_status \<Rightarrow> processing_result" where
  "result_of st =
     \<lparr>pr_status = st, pr_domain_detail = None, pr_error = None, pr_error_category = None,
      pr_dns_result = None, pr_http_result = None, pr_ip_validation = None\<rparr>"

text \<open>
  The stages at which something outside the model can raise: the first read, the connection to Redis,
  the second read, the session of a write helper, the session that writes the results, and the
  session of a write helper in the exception handler.
\<close>

datatype stage = Read | Connect | Recheck | Helper | Write | Handler

record proc_env =
  pe_freshness_seconds :: int
  pe_max_attempts :: nat
  pe_now :: "stage \<Rightarrow> timestamp"
  pe_clock :: "nat \<Rightarrow> timestamp"
  pe_clock' :: "nat \<Rightarrow> timestamp"
  pe_jitter :: int
  pe_dns :: "string \<Rightarrow> dns_answer \<times> dns_answer \<times> dns_answer"
  pe_client :: "string \<Rightarrow> exn + http_response"
  pe_limit :: nat
  pe_decode :: "string \<Rightarrow> string"
  pe_elapsed :: int
  pe_token :: string
  pe_fault :: "stage \<Rightarrow> exn option"
  pe_others :: "stage \<Rightarrow> db \<Rightarrow> db"
  pe_o1 :: "db \<Rightarrow> db"
  pe_o2 :: "db \<Rightarrow> db"
  pe_o3 :: "db \<Rightarrow> db"
  pe_reread :: "uuid \<Rightarrow> db \<Rightarrow> domain_detail option"

type_synonym run = "(exn + processing_result) \<times> db \<times> string list"

subsection \<open>Steps\<close>

definition check_freshness ::
  "int \<Rightarrow> timestamp \<Rightarrow> uuid \<Rightarrow> db \<Rightarrow> bool \<times> domain_detail option" where
  "check_freshness freshness now domain_id d =
     (case get_detail domain_id d of
        None \<Rightarrow> (False, None)
      | Some dd \<Rightarrow>
          if now - dd_fetched_at dd \<le> seconds freshness then (True, Some dd) else (False, Some dd))"

text \<open>
  \<open>_resolve_dns\<close>: a result with an error would be given an attribute, which a frozen dataclass
  refuses with an exception.
\<close>

definition resolve_dns :: "dns_answer \<times> dns_answer \<times> dns_answer \<Rightarrow> exn + dns_result" where
  "resolve_dns answers =
     (let (qa, qaaaa, qcname) = answers; r = resolve qa qaaaa qcname in
      if truthy (dr_error r)
      then Inl (Exn OtherError (''cannot assign to field '' @ CHR 0x27 # ''classification'' @ [CHR 0x27]))
      else Inr r)"

text \<open>The loop of \<open>_validate_ips\<close> over the resolved addresses.\<close>

fun first_allowed :: "string list \<Rightarrow> ip_validation_result option" where
  "first_allowed [] = None"
| "first_allowed (ip # ips) =
     (if iv_is_allowed (validate ip) then Some (validate ip) else first_allowed ips)"

definition validate_ips :: "dns_result \<Rightarrow> ip_validation_result" where
  "validate_ips r =
     (case all_ips r of
        [] \<Rightarrow> rejected [] No_ips
      | ip # ips \<Rightarrow>
          (case first_allowed (ip # ips) of
             Some v \<Rightarrow> v
           | None \<Rightarrow> rejected ip All_blocked))"

text \<open>
  A write helper in its own session, after what others have committed; a fault undoes the session.
\<close>

definition helper :: "proc_env \<Rightarrow> (db \<Rightarrow> db) \<Rightarrow> processing_result \<Rightarrow> string list \<Rightarrow> db \<Rightarrow> run" where
  "helper env f res urls d =
     (let d = pe_others env Helper d in
      case pe_fault env Helper of Some e \<Rightarrow> (Inl e, d, urls) | None \<Rightarrow> (Inr res, f d, urls))"

definition show_optional :: "string option \<Rightarrow> string" where
  "show_optional s = (case s of None \<Rightarrow> ''None'' | Some t \<Rightarrow> t)"

text \<open>
  \<open>_handle_dns_failure\<close>: the attribute \<open>classification\<close> is not a field of the result, so \<open>getattr\<close>
  gives the default, which the caller passes.
\<close>

definition dns_classification :: "dns_result \<Rightarrow> string" where
  "dns_classification r = ''unknown''"

definition handle_dns_failure ::
  "proc_env \<Rightarrow> uuid \<Rightarrow> uuid \<Rightarrow> string \<Rightarrow> dns_result \<Rightarrow> db \<Rightarrow> run" where
  "handle_dns_failure env i domain_id classification r d =
     (if classification = ''permanent'' then
        helper env
          (write_fail_task_with_deactivation (pe_clock env) i domain_id
             (''DNS resolution failed: '' @ show_optional (dr_error r)) ''permanent''
             ''DNS_PERMANENT_FAILURE'')
          ((result_of FAILED)\<lparr>pr_error := dr_error r, pr_error_category := Some ''permanent'',
             pr_dns_result := Some r\<rparr>) [] d
      else
        helper env
          (write_reschedule_task (pe_max_attempts env) (pe_clock env) (pe_jitter env) i
             (''DNS error: '' @ show_optional (dr_error r)))
          ((result_of PENDING)\<lparr>pr_error := dr_error r, pr_error_category := Some ''retryable'',
             pr_dns_result := Some r\<rparr>) [] d)"

definition handle_http_failure ::
  "proc_env \<Rightarrow> uuid \<Rightarrow> uuid \<Rightarrow> http_result \<Rightarrow> string list \<Rightarrow> db \<Rightarrow> run" where
  "handle_http_failure env i domain_id r urls d =
     (if is_retryable_error r then
        helper env
          (write_reschedule_task (pe_max_attempts env) (pe_clock env) (pe_jitter env) i
             (''HTTP error: '' @ show_optional (hr_error r)))
          ((result_of PENDING)\<lparr>pr_error := hr_error r, pr_error_category := Some ''retryable'',
             pr_http_result := Some r\<rparr>) urls d
      else if is_permanent_failure r then
        (let msg = ''HTTP '' @ str_of_int (hr_status_code r) @
                   (if truthy (hr_error r) then '': '' @ show_optional (hr_error r) else [])
         in helper env
              (write_fail_task_with_deactivation (pe_clock env) i domain_id msg ''permanent''
                 ''HTTP_PERMANENT_FAILURE'')
              ((result_of FAILED)\<lparr>pr_error := Some msg, pr_error_category := Some ''permanent'',
                 pr_http_result := Some r\<rparr>) urls d)
      else (Inr ((result_of COMPLETED)\<lparr>pr_http_result := Some r\<rparr>), d, urls))"

text \<open>The write phase; an exception in it, or at its commit, undoes what this session wrote.\<close>

definition write_phase ::
  "proc_env \<Rightarrow> uuid \<Rightarrow> uuid \<Rightarrow> dns_result \<Rightarrow> http_result \<Rightarrow> string list \<Rightarrow> db \<Rightarrow> run" where
  "write_phase env i domain_id dns http urls d =
     (let d = pe_others env Write d in
      case pe_fault env Write of
        Some e \<Rightarrow> (Inl e, d, urls)
      | None \<Rightarrow>
          (case write_results (pe_clock env) (pe_clock' env) (pe_o1 env) (pe_o2 env) (pe_o3 env)
                  (pe_reread env) i domain_id dns http d of
             (Inl e, d') \<Rightarrow> (Inl e, d', urls)
           | (Inr u, d') \<Rightarrow>
               (Inr ((result_of COMPLETED)\<lparr>pr_domain_detail := Some u, pr_dns_result := Some dns,
                       pr_http_result := Some http\<rparr>), d', urls)))"

text \<open>The part after the second freshness check: resolve, filter, probe, write.\<close>

definition resolve_and_probe :: "proc_env \<Rightarrow> task \<Rightarrow> string \<Rightarrow> db \<Rightarrow> run" where
  "resolve_and_probe env t name d =
     (case resolve_dns (pe_dns env name) of
        Inl e \<Rightarrow> (Inl e, d, [])
      | Inr dns \<Rightarrow>
          if \<not> dns_is_success dns
          then handle_dns_failure env (t_id t) (t_domain_id t) (dns_classification dns) dns d
          else
            (let ipv = validate_ips dns in
             if \<not> iv_is_allowed ipv then
               helper env
                 (write_fail_task_with_deactivation (pe_clock env) (t_id t) (t_domain_id t)
                    ''SSRF rejection'' ''security'' ''SECURITY_REJECTION'')
                 ((result_of FAILED)\<lparr>pr_error := Some ''SSRF rejection'',
                    pr_error_category := Some ''security'', pr_ip_validation := Some ipv\<rparr>) [] d
             else
               (let (http, urls) = probe (pe_limit env) (pe_decode env) (pe_elapsed env)
                                     (pe_client env) (iv_ip ipv)
                in if \<not> http_is_success http
                   then handle_http_failure env (t_id t) (t_domain_id t) http urls d
                   else write_phase env (t_id t) (t_domain_id t) dns http urls d)))"

definition complete_fresh :: "proc_env \<Rightarrow> uuid \<Rightarrow> domain_detail option \<Rightarrow> db \<Rightarrow> run" where
  "complete_fresh env i dd d =
     helper env (write_complete_task (pe_clock env) i COMPLETED)
       ((result_of COMPLETED)\<lparr>pr_domain_detail := dd\<rparr>) [] d"

text \<open>The body of the lock.\<close>

definition locked_body :: "proc_env \<Rightarrow> task \<Rightarrow> string \<Rightarrow> lock_context \<Rightarrow> db \<Rightarrow> run" where
  "locked_body env t name ctx d =
     (if \<not> is_acquired ctx then
        helper env
          (write_reschedule_task (pe_max_attempts env) (pe_clock env) (pe_jitter env) (t_id t)
             ''Lock contention'')
          ((result_of PENDING)\<lparr>pr_error := Some ''Lock contention'',
             pr_error_category := Some ''retryable''\<rparr>) [] d
      else
        (let d = pe_others env Recheck d in
         case pe_fault env Recheck of
           Some e \<Rightarrow> (Inl e, d, [])
         | None \<Rightarrow>
             (case check_freshness (pe_freshness_seconds env) (pe_now env Recheck) (t_domain_id t) d of
                (True, dd) \<Rightarrow> complete_fresh env (t_id t) dd d
              | (False, dd) \<Rightarrow> resolve_and_probe env t name d)))"

text \<open>
  The \<open>try\<close> block: the read phase, the cases of an unknown domain and of a fresh observation, the
  connection to Redis and the lock around the rest. \<open>meanwhile\<close> is what happens at the Redis server
  while the body runs: other clients, and the expiry of keys.
\<close>

definition try_block ::
  "'r redis \<Rightarrow> ('r \<Rightarrow> 'r) \<Rightarrow> proc_env \<Rightarrow> task \<Rightarrow> 'r \<times> db \<Rightarrow> run \<times> 'r" where
  "try_block rd meanwhile env t s =
     (let (r, d) = s in
      case pe_fault env Read of
        Some e \<Rightarrow> ((Inl e, d, []), r)
      | None \<Rightarrow>
          (case get_domain (t_domain_id t) d of
             None \<Rightarrow>
               (helper env (write_fail_task (pe_clock env) (t_id t) ''Domain not found'' ''permanent'')
                  ((result_of FAILED)\<lparr>pr_error := Some ''Domain not found'',
                     pr_error_category := Some ''permanent''\<rparr>) [] d, r)
           | Some dm \<Rightarrow>
               (case check_freshness (pe_freshness_seconds env) (pe_now env Read) (t_domain_id t) d of
                  (True, dd) \<Rightarrow> (complete_fresh env (t_id t) dd d, r)
                | (False, dd) \<Rightarrow>
                    (case pe_fault env Connect of
                       Some e \<Rightarrow> ((Inl e, d, []), r)
                     | None \<Rightarrow>
                         with_lock rd (d_normalized_domain dm) (pe_token env)
                           (\<lambda>ctx r'. (locked_body env t (d_normalized_domain dm) ctx d, meanwhile r')) r))))"

subsection \<open>Exceptions\<close>

definition classify_exception :: "exn \<Rightarrow> string" where
  "classify_exception e =
     (case exn_class e of
        TimeoutError \<Rightarrow> ''retryable''
      | HttpxTimeoutException \<Rightarrow> ''retryable''
      | HttpxConnectError \<Rightarrow> ''retryable''
      | HttpxTooManyRedirects \<Rightarrow> ''permanent''
      | OperationalError \<Rightarrow> ''retryable''
      | DisconnectionError \<Rightarrow> ''retryable''
      | RedisError \<Rightarrow> ''retryable''
      | _ \<Rightarrow> ''permanent'')"

text \<open>The \<open>except\<close> clause. Its own session can fail too; then \<open>process_task\<close> raises.\<close>

definition handle_exception :: "proc_env \<Rightarrow> uuid \<Rightarrow> exn \<Rightarrow> string list \<Rightarrow> db \<Rightarrow> run" where
  "handle_exception env i e urls d =
     (let d = pe_others env Handler d in
      case pe_fault env Handler of
        Some e' \<Rightarrow> (Inl e', d, urls)
      | None \<Rightarrow>
          if classify_exception e = ''retryable'' then
            (Inr ((result_of PENDING)\<lparr>pr_error := Some (exn_str e),
                    pr_error_category := Some ''retryable''\<rparr>),
             write_reschedule_task (pe_max_attempts env) (pe_clock' env) (pe_jitter env) i (exn_str e) d,
             urls)
          else
            (Inr ((result_of FAILED)\<lparr>pr_error := Some (exn_str e),
                    pr_error_category := Some ''permanent''\<rparr>),
             write_fail_task (pe_clock' env) i (exn_str e) ''permanent'' d, urls))"

definition process_task ::
  "'r redis \<Rightarrow> ('r \<Rightarrow> 'r) \<Rightarrow> proc_env \<Rightarrow> task \<Rightarrow> 'r \<times> db \<Rightarrow> run \<times> 'r" where
  "process_task rd meanwhile env t s =
     (case try_block rd meanwhile env t s of
        ((Inr res, d, urls), r) \<Rightarrow> ((Inr res, d, urls), r)
      | ((Inl e, d, urls), r) \<Rightarrow> (handle_exception env (t_id t) e urls d, r))"

subsection \<open>Every run keeps what the write helpers keep\<close>

text \<open>
  The contract between the pipeline and its write helpers: a condition on the database that each
  helper keeps. What a run of the pipeline keeps follows once for all such conditions.
\<close>

locale write_invariant =
  fixes P :: "db \<Rightarrow> bool" and m :: nat
  assumes keeps_complete: "P d \<Longrightarrow> P (complete_task clk i COMPLETED d)"
    and keeps_fail: "P d \<Longrightarrow> P (fail_task clk i e ''permanent'' d)"
    and keeps_fail_deact: "P d \<Longrightarrow> c \<noteq> ''retryable'' \<Longrightarrow>
          P (write_fail_task_with_deactivation clk i k e c x d)"
    and keeps_reschedule: "P d \<Longrightarrow> P (reschedule_task m clk jitter i e d)"
    and keeps_upsert: "upsert_with_occ dd v d = Inr (u, d') \<Longrightarrow> P d \<Longrightarrow> P d'"
begin

definition run_keeps :: "run \<Rightarrow> bool" where
  "run_keeps r \<longleftrightarrow> P (fst (snd r))"

definition env_keeps :: "proc_env \<Rightarrow> bool" where
  "env_keeps env \<longleftrightarrow> pe_max_attempts env = m \<and> (\<forall>st d. P d \<longrightarrow> P (pe_others env st d)) \<and>
     (\<forall>d. P d \<longrightarrow> P (pe_o1 env d)) \<and> (\<forall>d. P d \<longrightarrow> P (pe_o2 env d)) \<and> (\<forall>d. P d \<longrightarrow> P (pe_o3 env d))"

lemma run_keeps_simp [simp]: "run_keeps (res, d, urls) = P d"
  by (simp add: run_keeps_def)

lemma env_keepsD:
  assumes "env_keeps env" and "P d"
  shows "P (pe_others env st d)" "P (pe_o1 env d)" "P (pe_o2 env d)" "P (pe_o3 env d)"
    "P (reschedule_task (pe_max_attempts env) clk jitter i e d)"
  using assms keeps_reschedule by (simp_all add: env_keeps_def)

lemma helper_keeps:
  "env_keeps env \<Longrightarrow> P d \<Longrightarrow> (\<And>x. P x \<Longrightarrow> P (f x)) \<Longrightarrow> run_keeps (helper env f res urls d)"
  using env_keepsD(1) by (simp add: helper_def Let_def split: option.split)

lemma persist_keeps:
  assumes "env_keeps env" and "P d"
    and "persist_domain_detail clk (pe_o1 env) (pe_o2 env) (pe_o3 env) rr k dns http d = (res, d')"
  shows "P d'"
proof -
  note o1 = env_keepsD(2) [OF assms(1,2)]
  note o2 = env_keepsD(3) [OF assms(1) o1]
  note o3 = env_keepsD(4) [OF assms(1) o2]
  show ?thesis
    using assms(3) o1 o2 o3 unfolding persist_domain_detail_def Let_def
    by (auto split: sum.splits prod.splits if_splits option.splits intro: keeps_upsert)
qed

lemma write_phase_keeps:
  assumes "env_keeps env" and "P d"
  shows "run_keeps (write_phase env i k dns http urls d)"
  using persist_keeps [OF assms(1) env_keepsD(1) [OF assms]] env_keepsD(1) [OF assms]
  by (auto simp: write_phase_def write_results_def Let_def
      intro!: keeps_complete split: option.split prod.splits sum.splits)

lemma handle_dns_failure_keeps:
  assumes "env_keeps env" and "P d"
  shows "run_keeps (handle_dns_failure env i k c r d)"
  unfolding handle_dns_failure_def write_reschedule_task_def run_session_eq [abs_def]
  using assms by (auto intro!: helper_keeps keeps_fail_deact env_keepsD(5))

lemma handle_http_failure_keeps:
  assumes "env_keeps env" and "P d"
  shows "run_keeps (handle_http_failure env i k h urls d)"
  unfolding handle_http_failure_def write_reschedule_task_def run_session_eq [abs_def] Let_def
  using assms by (auto intro!: helper_keeps keeps_fail_deact env_keepsD(5))

lemma handle_exception_keeps:
  assumes "env_keeps env" and "P d"
  shows "run_keeps (handle_exception env i e urls d)"
  using env_keepsD(1) [OF assms]
  by (simp add: handle_exception_def write_reschedule_task_def write_fail_task_def Let_def
      env_keepsD(5) [OF assms(1)] keeps_fail split: option.split)

lemma resolve_and_probe_keeps:
  assumes "env_keeps env" and "P d"
  shows "run_keeps (resolve_and_probe env t name d)"
  using assms handle_dns_failure_keeps [OF assms] handle_http_failure_keeps [OF assms]
    write_phase_keeps [OF assms] helper_keeps [OF assms] keeps_fail_deact
  by (simp add: resolve_and_probe_def Let_def split: sum.split prod.split)

lemma complete_fresh_keeps:
  "env_keeps env \<Longrightarrow> P d \<Longrightarrow> run_keeps (complete_fresh env i dd d)"
  unfolding complete_fresh_def write_complete_task_def
  by (rule helper_keeps) (simp_all add: keeps_complete)

lemma locked_body_keeps:
  assumes "env_keeps env" and "P d"
  shows "run_keeps (locked_body env t name ctx d)"
proof -
  note d' = env_keepsD(1) [OF assms, of Recheck]
  show ?thesis
    using d' complete_fresh_keeps [OF assms(1) d'] resolve_and_probe_keeps [OF assms(1) d']
      helper_keeps [OF assms] env_keepsD(5) [OF assms(1)]
    by (simp add: locked_body_def Let_def write_reschedule_task_def
        split: option.split prod.split bool.split)
qed

lemma try_block_keeps:
  assumes "env_keeps env" and "P d"
  shows "run_keeps (fst (try_block rd meanwhile env t (r, d)))"
  using assms(2) locked_body_keeps [OF assms] complete_fresh_keeps [OF assms] helper_keeps [OF assms]
    keeps_fail
  by (simp add: try_block_def with_lock_def Let_def write_fail_task_def
      split: option.split prod.split bool.split)

lemma process_task_keeps:
  assumes "env_keeps env" and "P d" and "process_task rd meanwhile env t (r, d) = ((res, d', urls), r')"
  shows "P d'"
proof -
  obtain res1 d1 urls1 r1 where tb: "try_block rd meanwhile env t (r, d) = ((res1, d1, urls1), r1)"
    by (metis prod.exhaust)
  have "P d1" using try_block_keeps [OF assms(1,2), of rd meanwhile t r] by (simp add: tb)
  then have "run_keeps (handle_exception env (t_id t) e urls1 d1)" for e
    by (rule handle_exception_keeps [OF assms(1)])
  note handled = this
  show ?thesis
  proof (cases res1)
    case (Inl e)
    with assms(3) tb handled [of e] show ?thesis by (simp add: process_task_def)
  next
    case (Inr x)
    with assms(3) tb \<open>P d1\<close> show ?thesis by (simp add: process_task_def)
  qed
qed

end

lemma upsert_with_occ_tables:
  assumes "upsert_with_occ dd v d = Inr (u, d')"
  shows "db_tasks d' = db_tasks d" "db_jobs d' = db_jobs d" "db_domains d' = db_domains d"
  using assms
  by (auto simp: upsert_with_occ_def occ_update_def create_detail_def Let_def
      split: if_splits option.splits sum.splits)

interpretation schema_writes: write_invariant schema_ok m for m
  by unfold_locales
    (auto intro: schema_ok_complete_task schema_ok_fail_task schema_ok_write_fail_deact
      schema_ok_reschedule_task schema_ok_upsert_with_occ)

interpretation life_writes: write_invariant "tasks_ok m" m for m
  by unfold_locales
    (auto intro: tasks_ok_complete_task tasks_ok_fail_task tasks_ok_write_fail_deact
      tasks_ok_reschedule_task simp: tasks_ok_cong [OF upsert_with_occ_tables(1)])

subsection \<open>A concrete environment for the witnesses\<close>

definition demo_env :: "(string \<Rightarrow> exn + http_response) \<Rightarrow> proc_env" where
  "demo_env client =
     \<lparr>pe_freshness_seconds = 100, pe_max_attempts = 3, pe_now = (\<lambda>st. seconds 1000),
      pe_clock = (\<lambda>n. seconds 1000), pe_clock' = (\<lambda>n. seconds 1000), pe_jitter = 30,
      pe_dns = (\<lambda>name. (Inr [''10.0.0.1'', ''93.184.216.34''], Inr [], Inr [])),
      pe_client = client, pe_limit = 100, pe_decode = (\<lambda>b. b), pe_elapsed = 5, pe_token = ''tok'',
      pe_fault = (\<lambda>st. None), pe_others = (\<lambda>st d. d), pe_o1 = (\<lambda>d. d), pe_o2 = (\<lambda>d. d),
      pe_o3 = (\<lambda>d. d), pe_reread = get_detail\<rparr>"

definition respond :: "int \<Rightarrow> string \<Rightarrow> exn + http_response" where
  "respond st url = Inr \<lparr>rs_status_code = st, rs_headers = [], rs_chunks = []\<rparr>"

definition demo_claimed :: task where
  "demo_claimed = demo_task 12 USER_REQUEST PROCESSING 1 (Some 100)"

text \<open>
  The pipeline keeps the constraints of the schema and the life-cycle invariant of the tasks:
  whatever the network answers, whichever stage raises and whatever other transactions commit in
  between, as long as they keep both too.
\<close>

theorem process_task_invariants:
  assumes "schema_ok d" and "tasks_ok (pe_max_attempts env) d"
    and "\<forall>f \<in> {pe_o1 env, pe_o2 env, pe_o3 env} \<union> range (pe_others env).
           \<forall>x. (schema_ok x \<longrightarrow> schema_ok (f x)) \<and>
               (tasks_ok (pe_max_attempts env) x \<longrightarrow> tasks_ok (pe_max_attempts env) (f x))"
    and "process_task rd meanwhile env t (r, d) = ((res, d', urls), r')"
  shows "schema_ok d' \<and> tasks_ok (pe_max_attempts env) d'"
proof
  have "schema_writes.env_keeps (pe_max_attempts env) env"
    using assms(3) by (auto simp: schema_writes.env_keeps_def)
  from schema_writes.process_task_keeps [OF this assms(1,4)] show "schema_ok d'" .
  have "life_writes.env_keeps (pe_max_attempts env) env"
    using assms(3) by (auto simp: life_writes.env_keeps_def)
  from life_writes.process_task_keeps [OF this assms(2,4)] show "tasks_ok (pe_max_attempts env) d'" .
qed

theorem process_task_invariants_witness:
  "\<exists>res d' urls r'. process_task map_redis (\<lambda>r. r) (demo_env (respond 200)) demo_claimed
     (Map.empty, demo_db) = ((res, d', urls), r') \<and> schema_ok d' \<and> tasks_ok 3 d'"
proof -
  obtain res d' urls r' where "process_task map_redis (\<lambda>r. r) (demo_env (respond 200)) demo_claimed
      (Map.empty, demo_db) = ((res, d', urls), r')"
    by (metis prod.exhaust)
  with process_task_invariants [OF demo_schema _ _ this] demo_tasks_ok show ?thesis
    by (simp add: demo_env_def)
qed

subsection \<open>The filter stands before every request\<close>

lemma first_allowed_SomeD:
  "first_allowed ips = Some v \<Longrightarrow> iv_ip v \<in> set ips \<and> iv_is_allowed v \<and> v = validate (iv_ip v)"
  by (induction ips) (auto split: if_splits)

lemma validate_ips_allowed:
  assumes "iv_is_allowed (validate_ips r)"
  shows "iv_ip (validate_ips r) \<in> set (all_ips r)" "iv_is_allowed (validate (iv_ip (validate_ips r)))"
  using assms by (auto simp: validate_ips_def simp del: first_allowed.simps
      dest: first_allowed_SomeD split: list.splits option.splits)

text \<open>The URLs asked for, step by step.\<close>

lemma urls_of_handlers [simp]:
  "snd (snd (helper env f res urls d)) = urls"
  "snd (snd (handle_dns_failure env i k c r d)) = []"
  "snd (snd (handle_http_failure env i k h urls d)) = urls"
  "snd (snd (handle_exception env i e urls d)) = urls"
  "snd (snd (complete_fresh env i dd d)) = []"
  by (simp_all add: helper_def handle_dns_failure_def handle_http_failure_def handle_exception_def
      complete_fresh_def Let_def split: option.split)

lemma urls_write_phase [simp]: "snd (snd (write_phase env i k dns http urls d)) = urls"
  by (auto simp: write_phase_def Let_def split: option.split prod.split sum.split)

definition dns_of :: "proc_env \<Rightarrow> string \<Rightarrow> dns_result" where
  "dns_of env name = (case pe_dns env name of (qa, qaaaa, qcname) \<Rightarrow> resolve qa qaaaa qcname)"

lemma resolve_dns_eq: "resolve_dns (pe_dns env name) = Inr (dns_of env name)"
  by (simp add: resolve_dns_def dns_of_def truthy_def Let_def split: prod.split)

lemma urls_resolve_and_probe:
  assumes "u \<in> set (snd (snd (resolve_and_probe env t name d)))"
  shows "\<exists>ip \<in> set (all_ips (dns_of env name)).
    iv_is_allowed (validate ip) \<and> (u = ''https://'' @ ip \<or> u = ''http://'' @ ip)"
proof -
  let ?v = "validate_ips (dns_of env name)"
  have "iv_is_allowed ?v" and
    "u \<in> set (snd (probe (pe_limit env) (pe_decode env) (pe_elapsed env) (pe_client env) (iv_ip ?v)))"
    using assms
    by (auto simp: resolve_and_probe_def resolve_dns_eq Let_def split: if_splits prod.splits)
  with probe_asked [of "pe_limit env" "pe_decode env" "pe_elapsed env" "pe_client env" "iv_ip ?v"]
    validate_ips_allowed [of "dns_of env name"]
  show ?thesis by auto
qed

lemma urls_locked_body:
  assumes "u \<in> set (snd (snd (locked_body env t name ctx d)))"
  shows "is_acquired ctx \<and>
    (\<exists>d1. d1 = pe_others env Recheck d \<and>
       \<not> fst (check_freshness (pe_freshness_seconds env) (pe_now env Recheck) (t_domain_id t) d1)) \<and>
    u \<in> set (snd (snd (resolve_and_probe env t name (pe_others env Recheck d))))"
  using assms
  by (auto simp: locked_body_def Let_def split: if_splits option.splits prod.splits bool.splits)

lemma urls_process_task:
  "snd (snd (fst (process_task rd mw env t s))) = snd (snd (fst (try_block rd mw env t s)))"
  by (auto simp: process_task_def split: prod.split sum.split)

lemma urls_try_block:
  assumes "u \<in> set (snd (snd (fst (try_block rd mw env t (r, d)))))"
  obtains dm ctx r1 where "get_domain (t_domain_id t) d = Some dm"
    "\<not> fst (check_freshness (pe_freshness_seconds env) (pe_now env Read) (t_domain_id t) d)"
    "acquire_enter rd (d_normalized_domain dm) (pe_token env) r = (ctx, r1)"
    "u \<in> set (snd (snd (locked_body env t (d_normalized_domain dm) ctx d)))"
  using assms
  by (auto simp: try_block_def with_lock_def Let_def
      split: option.splits prod.splits bool.splits if_splits)

lemma demo_addresses:
  "\<not> iv_is_allowed (validate ''10.0.0.1'')" "iv_is_allowed (validate ''93.184.216.34'')"
proof -
  have "dotted 10 0 0 1 = ''10.0.0.1''" and "dotted 93 184 216 34 = ''93.184.216.34''"
    by code_simp+
  with validate_quad [of 10 0 0 1] validate_quad [of 93 184 216 34]
  show "\<not> iv_is_allowed (validate ''10.0.0.1'')" "iv_is_allowed (validate ''93.184.216.34'')"
    by (simp_all add: restricted_ipv4_def)
qed

lemma demo_validate:
  "validate_ips (resolve (Inr [''10.0.0.1'', ''93.184.216.34'']) (Inr []) (Inr [])) =
     validate ''93.184.216.34''"
  using demo_addresses by (simp add: validate_ips_def resolve_def resolve_a_def resolve_aaaa_def all_ips_def)

lemma demo_dns_success:
  "dns_is_success (resolve (Inr [''10.0.0.1'', ''93.184.216.34'']) (Inr []) (Inr []))"
  by (simp add: dns_is_success_def resolve_def resolve_a_def resolve_aaaa_def)

lemma demo_acquire:
  "acquire_enter map_redis name tok Map.empty =
     (\<lparr>lc_domain = name, lc_token = Some tok, lc_acquired = True, lc_error = None\<rparr>, [lock_key name \<mapsto> tok])"
  by (simp add: acquire_enter_def map_redis_def)

lemma demo_run:
  "fst (try_block map_redis (\<lambda>r. r) (demo_env client) demo_claimed (Map.empty, demo_db)) =
     resolve_and_probe (demo_env client) demo_claimed ''example.com'' demo_db"
  by (simp add: try_block_def get_domain_def row_simps demo_db_def demo_domain_def demo_claimed_def
      demo_task_def demo_env_def check_freshness_def get_detail_def with_lock_def demo_acquire
      locked_body_def is_acquired_def)

lemma demo_run_urls:
  "snd (snd (fst (process_task map_redis (\<lambda>r. r) (demo_env (respond 200)) demo_claimed
     (Map.empty, demo_db)))) = [''https://93.184.216.34'']"
  unfolding urls_process_task demo_run resolve_and_probe_def resolve_dns_eq dns_of_def
  using demo_addresses(2)
  by (simp add: demo_env_def demo_validate demo_dns_success probe_def respond_def http_result_of_def
      http_is_success_def Let_def)

text \<open>
  C6. No request leaves for an address that the filter has not passed: every URL that a run asks for
  is the HTTPS or the HTTP URL of one of the addresses DNS gave for the domain of the task, and that
  address is outside all restricted ranges. It holds for every state of the database and of Redis and
  every behaviour of DNS and of the servers asked, and whichever stage raises.
\<close>

theorem process_task_ssrf_safe:
  assumes "process_task rd meanwhile env t (r, d) = ((res, d', urls), r')" and "u \<in> set urls"
  shows "\<exists>dm qa qaaaa qcname ip a.
    get_domain (t_domain_id t) d = Some dm \<and>
    pe_dns env (d_normalized_domain dm) = (qa, qaaaa, qcname) \<and>
    ip \<in> set (all_ips (resolve qa qaaaa qcname)) \<and>
    ip_address ip = Some a \<and> \<not> restricted a \<and>
    (u = ''https://'' @ ip \<or> u = ''http://'' @ ip)"
proof -
  have "u \<in> set (snd (snd (fst (try_block rd meanwhile env t (r, d)))))"
    using urls_process_task [of rd meanwhile env t "(r, d)"] assms by simp
  then obtain dm ctx r1 where dm: "get_domain (t_domain_id t) d = Some dm"
    and body: "u \<in> set (snd (snd (locked_body env t (d_normalized_domain dm) ctx d)))"
    by (rule urls_try_block)
  from urls_locked_body [OF body] obtain ip where ip: "ip \<in> set (all_ips (dns_of env (d_normalized_domain dm)))"
    and ok: "iv_is_allowed (validate ip)" and u: "u = ''https://'' @ ip \<or> u = ''http://'' @ ip"
    using urls_resolve_and_probe by metis
  from ok obtain a where "ip_address ip = Some a" and "\<not> restricted a"
    unfolding validate_allowed_iff by blast
  moreover obtain qa qaaaa qcname where "pe_dns env (d_normalized_domain dm) = (qa, qaaaa, qcname)"
    by (metis prod.exhaust)
  ultimately show ?thesis
    using dm ip u by (auto simp: dns_of_def)
qed

theorem process_task_ssrf_safe_witness:
  "\<exists>ip a. ip_address ip = Some a \<and> \<not> restricted a \<and>
     (''https://93.184.216.34'' = ''https://'' @ ip \<or> ''https://93.184.216.34'' = ''http://'' @ ip)"
proof -
  obtain res d' urls r' where run: "process_task map_redis (\<lambda>r. r) (demo_env (respond 200)) demo_claimed
      (Map.empty, demo_db) = ((res, d', urls), r')"
    by (metis prod.exhaust)
  then have "''https://93.184.216.34'' \<in> set urls" using demo_run_urls by simp
  from process_task_ssrf_safe [OF run this] show ?thesis by blast
qed

text \<open>
  Requests are made only by the owner of the lock, for a domain whose observation was stale both
  before the lock was taken and, as the database was then, after it was taken.
\<close>

theorem process_task_probes_under_lock:
  assumes "process_task rd meanwhile env t (r, d) = ((res, d', urls), r')" and "urls \<noteq> []"
  shows "\<exists>dm ctx r1. get_domain (t_domain_id t) d = Some dm \<and>
    acquire_enter rd (d_normalized_domain dm) (pe_token env) r = (ctx, r1) \<and> is_acquired ctx \<and>
    (\<forall>dd. get_detail (t_domain_id t) d = Some dd \<longrightarrow>
       dd_fetched_at dd + seconds (pe_freshness_seconds env) < pe_now env Read) \<and>
    (\<forall>dd. get_detail (t_domain_id t) (pe_others env Recheck d) = Some dd \<longrightarrow>
       dd_fetched_at dd + seconds (pe_freshness_seconds env) < pe_now env Recheck)"
proof -
  from assms(2) obtain u where "u \<in> set urls" by (cases urls) auto
  then have "u \<in> set (snd (snd (fst (try_block rd meanwhile env t (r, d)))))"
    using urls_process_task [of rd meanwhile env t "(r, d)"] assms(1) by simp
  then obtain dm ctx r1 where first: "get_domain (t_domain_id t) d = Some dm"
      "\<not> fst (check_freshness (pe_freshness_seconds env) (pe_now env Read) (t_domain_id t) d)"
      "acquire_enter rd (d_normalized_domain dm) (pe_token env) r = (ctx, r1)"
    and body: "u \<in> set (snd (snd (locked_body env t (d_normalized_domain dm) ctx d)))"
    by (rule urls_try_block)
  have stale: "dd_fetched_at dd + seconds f < now"
    if "\<not> fst (check_freshness f now k x)" and "get_detail k x = Some dd" for f now k x dd
    using that by (auto simp: check_freshness_def split: if_splits)
  show ?thesis
    using first stale [OF first(2)] urls_locked_body [OF body] stale by blast
qed

theorem process_task_probes_under_lock_witness:
  "\<exists>dm ctx r1. get_domain 2 demo_db = Some dm \<and>
     acquire_enter map_redis (d_normalized_domain dm) ''tok'' Map.empty = (ctx, r1) \<and> is_acquired ctx"
proof -
  obtain res d' urls r' where run: "process_task map_redis (\<lambda>r. r) (demo_env (respond 200)) demo_claimed
      (Map.empty, demo_db) = ((res, d', urls), r')"
    by (metis prod.exhaust)
  then have "urls \<noteq> []" using demo_run_urls by simp
  from process_task_probes_under_lock [OF run this] show ?thesis
    by (auto simp: demo_claimed_def demo_task_def demo_env_def)
qed

subsection \<open>The lock is given back\<close>

definition answering :: "'r redis \<Rightarrow> bool" where
  "answering rd \<longleftrightarrow>
     (\<forall>k tok px r. \<exists>ok r'. set_nx_px rd k tok px r = (Inr ok, r')) \<and>
     (\<forall>k tok r. \<exists>n r'. eval_release rd k tok r = (Inr n, r'))"

lemma snd_process_task: "snd (process_task rd mw env t s) = snd (try_block rd mw env t s)"
  by (auto simp: process_task_def split: prod.split sum.split)

lemma with_lock_holder:
  assumes "redis_laws rd holder" and "answering rd"
    and "\<And>ctx x. holder (snd (body ctx x)) = holder x"
  shows "holder (snd (with_lock rd name token body r)) = holder r"
proof -
  obtain ctx r1 where enter: "acquire_enter rd name token r = (ctx, r1)" by fastforce
  obtain result r2 where body: "body ctx r1 = (result, r2)" by fastforce
  have same: "holder r2 = holder r1" using assms(3) [of ctx r1] by (simp add: body)
  obtain n r3 where rel: "eval_release rd (lock_key name) token r2 = (Inr n, r3)"
    using assms(2) by (meson answering_def)
  obtain ok r' where "set_nx_px rd (lock_key name) token (lock_ttl_seconds * 1000) r = (Inr ok, r')"
    using assms(2) by (meson answering_def)
  then have no_err: "lc_error ctx = None"
    using enter by (auto simp: acquire_enter_def split: bool.splits)
  note hold = acquire_enter_holder [OF assms(1) enter no_err]
  note ctx = acquire_enter_ctx(1) [OF enter]
  show ?thesis
    using hold same release_holder [OF assms(1) rel] enter body
    by (auto simp: with_lock_def ctx [symmetric] fun_upd_idem_iff)
qed


lemma map_redis_answers: "answering map_redis"
  by (auto simp: answering_def map_redis_def intro: exI [of _ True] exI [of _ False])


subsection \<open>What a run leaves in the row of its task\<close>

definition http_gap :: "http_result \<Rightarrow> bool" where
  "http_gap r \<longleftrightarrow> \<not> http_is_success r \<and> \<not> is_retryable_error r \<and> \<not> is_permanent_failure r"

definition settled :: "nat \<Rightarrow> task \<Rightarrow> processing_result \<Rightarrow> task \<Rightarrow> bool" where
  "settled m row res row' \<longleftrightarrow>
     t_attempts row' = t_attempts row \<and>
     (case pr_status res of
        COMPLETED \<Rightarrow> t_status row' = COMPLETED \<or>
          (row' = row \<and> (\<exists>h. pr_http_result res = Some h \<and> http_gap h))
      | FAILED \<Rightarrow> t_status row' = FAILED
      | PENDING \<Rightarrow> t_status row' = (if t_attempts row < m then PENDING else FAILED)
      | PROCESSING \<Rightarrow> False)"

text \<open>
  \<open>settles\<close> of a step: if it returns, the row of the task agrees with the result, and if it raises,
  the row is still what it was.
\<close>

definition settles :: "nat \<Rightarrow> task \<Rightarrow> run \<Rightarrow> bool" where
  "settles m row r \<longleftrightarrow>
     (case r of
        (Inr res, d, urls) \<Rightarrow> (\<exists>row'. get_task (t_id row) d = Some row' \<and> settled m row res row')
      | (Inl e, d, urls) \<Rightarrow> get_task (t_id row) d = Some row)"

definition undisturbed :: "uuid \<Rightarrow> proc_env \<Rightarrow> bool" where
  "undisturbed i env \<longleftrightarrow>
     (\<forall>st d. get_task i (pe_others env st d) = get_task i d) \<and>
     (\<forall>d. get_task i (pe_o1 env d) = get_task i d) \<and>
     (\<forall>d. get_task i (pe_o2 env d) = get_task i d) \<and>
     (\<forall>d. get_task i (pe_o3 env d) = get_task i d)"

lemma result_of_status [simp]: "pr_status (result_of st) = st"
  by (simp add: result_of_def)

lemma get_task_fail_deact:
  assumes "get_task i d = Some t"
  shows "get_task i (write_fail_task_with_deactivation clk i k e c x d) =
    Some (t\<lparr>t_status := FAILED, t_updated_at := clk 0, t_error_payload := Some (category_payload e c)\<rparr>)"
  using get_task_fail_task [OF assms, of i clk e c]
  by (simp add: write_fail_task_with_deactivation_def Let_def)

lemma get_task_reschedule:
  assumes "get_task i d = Some t"
  shows "\<exists>t'. get_task i (reschedule_task m clk jitter i e d) = Some t' \<and>
    t_attempts t' = t_attempts t \<and> t_status t' = (if t_attempts t < m then PENDING else FAILED)"
  using get_task_SomeD [OF assms] assms
  by (cases "t_attempts t < m") (simp_all add: reschedule_branches [OF assms] get_task_put_task)


lemma settles_helper:
  assumes "undisturbed (t_id row) env" and "get_task (t_id row) d = Some row"
    and "\<And>x. get_task (t_id row) x = Some row \<Longrightarrow>
           \<exists>row'. get_task (t_id row) (f x) = Some row' \<and> settled m row res row'"
  shows "settles m row (helper env f res urls d)"
  using assms by (simp add: settles_def helper_def undisturbed_def Let_def split: option.split)

lemma settles_reschedule:
  assumes "undisturbed (t_id row) env" and "get_task (t_id row) d = Some row" and "pr_status res = PENDING"
  shows "settles (pe_max_attempts env) row
    (helper env (write_reschedule_task (pe_max_attempts env) clk jitter (t_id row) e) res urls d)"
  using assms get_task_reschedule
  by (intro settles_helper) (fastforce simp: write_reschedule_task_def settled_def)+

lemma settles_fail_deact:
  assumes "undisturbed (t_id row) env" and "get_task (t_id row) d = Some row" and "pr_status res = FAILED"
  shows "settles m row
    (helper env (write_fail_task_with_deactivation clk (t_id row) k e c x) res urls d)"
  using assms by (intro settles_helper) (simp_all add: get_task_fail_deact settled_def)

lemma settles_complete_fresh:
  assumes "undisturbed (t_id row) env" and "get_task (t_id row) d = Some row"
  shows "settles m row (complete_fresh env (t_id row) dd d)"
  unfolding complete_fresh_def
  using assms by (intro settles_helper)
    (simp_all add: write_complete_task_def get_task_complete_task settled_def)

lemma settles_dns_failure:
  assumes "undisturbed (t_id row) env" and "get_task (t_id row) d = Some row"
  shows "settles (pe_max_attempts env) row (handle_dns_failure env (t_id row) k c r d)"
  using settles_reschedule [OF assms] settles_fail_deact [OF assms]
  by (simp add: handle_dns_failure_def)

lemma settles_http_failure:
  assumes "undisturbed (t_id row) env" and "get_task (t_id row) d = Some row" and "\<not> http_is_success h"
  shows "settles (pe_max_attempts env) row (handle_http_failure env (t_id row) k h urls d)"
proof (cases "is_retryable_error h \<or> is_permanent_failure h")
  case True
  then show ?thesis
    using settles_reschedule [OF assms(1,2)] settles_fail_deact [OF assms(1,2)]
    by (auto simp: handle_http_failure_def Let_def)
next
  case False
  then show ?thesis
    using assms(2,3) by (simp add: handle_http_failure_def settles_def settled_def http_gap_def)
qed

lemma persist_get_task:
  assumes "undisturbed i env"
    and "persist_domain_detail clk (pe_o1 env) (pe_o2 env) (pe_o3 env) rr k dns http d = (res, d')"
  shows "get_task i d' = get_task i d"
proof -
  have keep: "get_task i y = get_task i x" if "upsert_with_occ dd v x = Inr (u, y)" for dd v x u y
    using upsert_with_occ_tables(1) [OF that] by (simp add: get_task_def)
  show ?thesis
    using assms unfolding persist_domain_detail_def Let_def undisturbed_def
    by (auto split: sum.splits prod.splits if_splits option.splits simp: keep)
qed

lemma settles_write_phase:
  assumes "undisturbed (t_id row) env" and "get_task (t_id row) d = Some row"
  shows "settles m row (write_phase env (t_id row) k dns http urls d)"
proof -
  define d0 where "d0 = pe_others env Write d"
  have d0: "get_task (t_id row) d0 = Some row"
    using assms by (simp add: d0_def undisturbed_def)
  obtain res d' where p: "persist_domain_detail (pe_clock env) (pe_o1 env) (pe_o2 env) (pe_o3 env)
      (pe_reread env) k dns http d0 = (res, d')" by fastforce
  have d': "get_task (t_id row) d' = Some row"
    using persist_get_task [OF assms(1) p] d0 by simp
  show ?thesis
    using d0 d' get_task_complete_task [OF d']
    by (cases res) (auto simp: write_phase_def write_results_def d0_def [symmetric] p settles_def settled_def
        Let_def split: option.split)
qed

lemma settles_resolve_and_probe:
  assumes "undisturbed (t_id t) env" and "get_task (t_id t) d = Some row"
  shows "settles (pe_max_attempts env) row (resolve_and_probe env t name d)"
proof -
  have id: "t_id t = t_id row" using assms(2) by (auto dest: get_task_SomeD)
  note base = assms [unfolded id]
  show ?thesis
    unfolding resolve_and_probe_def resolve_dns_eq id
    using settles_dns_failure [OF base] settles_fail_deact [OF base] settles_http_failure [OF base]
      settles_write_phase [OF base]
    by (simp add: Let_def split: prod.split)
qed

lemma settles_locked_body:
  assumes "undisturbed (t_id t) env" and "get_task (t_id t) d = Some row"
  shows "settles (pe_max_attempts env) row (locked_body env t name ctx d)"
proof -
  have id: "t_id t = t_id row" using assms(2) by (auto dest: get_task_SomeD)
  note base = assms [unfolded id]
  have d1: "get_task (t_id row) (pe_others env Recheck d) = Some row"
    using base by (simp add: undisturbed_def)
  have d1': "get_task (t_id t) (pe_others env Recheck d) = Some row"
    using d1 by (simp add: id)
  have raised: "settles m row (Inl e, pe_others env Recheck d, [])" for m e
    using d1 by (simp add: settles_def)
  show ?thesis
    using settles_reschedule [OF base] settles_complete_fresh [OF base(1) d1]
      settles_resolve_and_probe [OF assms(1) d1'] raised
    by (simp add: locked_body_def Let_def id split: option.split prod.split bool.split)
qed

lemma settles_try_block:
  assumes "undisturbed (t_id t) env" and "get_task (t_id t) d = Some row"
  shows "settles (pe_max_attempts env) row (fst (try_block rd mw env t (r, d)))"
proof -
  have id: "t_id t = t_id row" using assms(2) by (auto dest: get_task_SomeD)
  note base = assms [unfolded id]
  have raised: "settles m row (Inl e, d, [])" for m e
    using base by (simp add: settles_def)
  have missing: "settles m row (helper env (write_fail_task clk (t_id row) e ''permanent'') res urls d)"
    if "pr_status res = FAILED" for m clk e res urls
    using that base by (intro settles_helper) (simp_all add: write_fail_task_def get_task_fail_task settled_def)
  show ?thesis
    using missing settles_complete_fresh [OF base] settles_locked_body [OF assms] raised
    by (simp add: try_block_def with_lock_def Let_def id split: option.split prod.split bool.split)
qed


text \<open>A run whose first read fails.\<close>

definition down_env :: proc_env where
  "down_env = (demo_env (respond 200))
     \<lparr>pe_fault := (\<lambda>st. if st = Read then Some (Exn OperationalError ''down'') else None)\<rparr>"

subsection \<open>Two gaps of the failure handling\<close>

text \<open>
  A server that answers 408 or 429 leaves the task unsettled: the failure handler returns
  COMPLETED and writes nothing, so the row stays PROCESSING until its lease runs out, and every
  later attempt meets the same answer.
\<close>

theorem throttled_task_not_written:
  assumes "rs_status_code rs = 408 \<or> rs_status_code rs = 429"
  shows "handle_http_failure env i k (http_result_of limit decode elapsed rs) urls d =
    (Inr ((result_of COMPLETED)\<lparr>pr_http_result := Some (http_result_of limit decode elapsed rs)\<rparr>), d, urls)"
  using assms
  by (auto simp: handle_http_failure_def is_retryable_error_def is_permanent_failure_def
      is_server_error_def truthy_def http_result_of_def Let_def)

theorem throttled_task_not_written_witness:
  "fst (snd (handle_http_failure (demo_env (respond 429)) 12 2
     (http_result_of 100 (\<lambda>b. b) 5 \<lparr>rs_status_code = 429, rs_headers = [], rs_chunks = []\<rparr>) [] demo_db)) = demo_db"
  using throttled_task_not_written [of "\<lparr>rs_status_code = 429, rs_headers = [], rs_chunks = []\<rparr>"] by simp

text \<open>
  A domain that does not exist is retried like a time-out: whenever neither the A nor the AAAA
  query gives a host, and so for NXDOMAIN too, the task is rescheduled as a transient failure; the
  permanent branch with its deactivation is never taken.
\<close>

theorem nxdomain_is_retried:
  assumes "pe_dns env name = (qa, qaaaa, qcname)"
    and "qa = Inr [] \<or> (\<exists>e. qa = Inl e)" and "qaaaa = Inr [] \<or> (\<exists>e. qaaaa = Inl e)"
  shows "resolve_and_probe env t name d =
    helper env
      (write_reschedule_task (pe_max_attempts env) (pe_clock env) (pe_jitter env) (t_id t)
         ''DNS error: None'')
      ((result_of PENDING)\<lparr>pr_error := None, pr_error_category := Some ''retryable'',
         pr_dns_result := Some (resolve qa qaaaa qcname)\<rparr>) [] d"
proof -
  have "\<not> dns_is_success (resolve qa qaaaa qcname)"
    using assms(2,3) by (auto simp: dns_is_success_def resolve_ips)
  moreover have "resolve_dns (pe_dns env name) = Inr (resolve qa qaaaa qcname)"
    using resolve_dns_eq [of env name] by (simp add: dns_of_def assms(1))
  ultimately show ?thesis
    by (simp add: resolve_and_probe_def handle_dns_failure_def dns_classification_def
        show_optional_def)
qed

theorem nxdomain_is_retried_witness:
  "fst (resolve_and_probe ((demo_env (respond 200))\<lparr>pe_dns := (\<lambda>n. (Inl (DNSError (Some ARES_ENOTFOUND)),
     Inl (DNSError (Some ARES_ENOTFOUND)), Inr []))\<rparr>) demo_claimed ''no.such'' demo_db) \<noteq> Inr (result_of FAILED)"
  using nxdomain_is_retried [of "(demo_env (respond 200))\<lparr>pe_dns := (\<lambda>n. (Inl (DNSError (Some ARES_ENOTFOUND)),
     Inl (DNSError (Some ARES_ENOTFOUND)), Inr []))\<rparr>" "''no.such''" _ _ _ demo_claimed demo_db]
  by (auto simp: helper_def demo_env_def result_of_def)

end
