(* ===== verification/Bounded_Queue.thy ===== *)
theory Bounded_Queue
  imports Prelude
begin

section \<open>The bounded queue (worker/worker.py, BoundedQueue)\<close>

text \<open>
  The queue between the task manager and the workers: an \<open>asyncio.Queue\<close> with a maximal size, and the
  statistics kept beside it. \<open>put\<close> and \<open>get\<close> wait while the queue is full or empty: \<open>None\<close> stands for
  having to wait. The interface \<open>bounded_buffer\<close> states what the dispatch loops of the manager rely on;
  \<open>BoundedQueue\<close> provides it.
\<close>

subsection \<open>The interface\<close>

locale bounded_buffer =
  fixes bput :: "'a \<Rightarrow> 'q \<Rightarrow> 'q option"
    and bget :: "'q \<Rightarrow> ('a \<times> 'q) option"
    and contents :: "'q \<Rightarrow> 'a list"
    and room :: "'q \<Rightarrow> int"
    and valid :: "'q \<Rightarrow> bool"
  assumes put_room: "valid q \<Longrightarrow> 0 < room q \<Longrightarrow>
        \<exists>q'. bput x q = Some q' \<and> valid q' \<and> contents q' = contents q @ [x] \<and> room q' = room q - 1"
    and put_full: "valid q \<Longrightarrow> room q \<le> 0 \<Longrightarrow> bput x q = None"
    and get_item: "valid q \<Longrightarrow> contents q = x # xs \<Longrightarrow>
        \<exists>q'. bget q = Some (x, q') \<and> valid q' \<and> contents q' = xs \<and> room q' = room q + 1"
    and get_empty: "valid q \<Longrightarrow> contents q = [] \<Longrightarrow> bget q = None"
    and room_nonneg: "valid q \<Longrightarrow> 0 \<le> room q"
begin

text \<open>Putting a batch: what does not fit waits, in order.\<close>

fun put_all :: "'a list \<Rightarrow> 'q \<Rightarrow> 'a list \<times> 'q" where
  "put_all [] q = ([], q)"
| "put_all (x # xs) q =
     (case bput x q of None \<Rightarrow> (x # xs, q) | Some q' \<Rightarrow> put_all xs q')"

lemma put_all_effect:
  "valid q \<Longrightarrow>
   (let n = nat (room q); (waiting, q') = put_all xs q in
      waiting = drop n xs \<and> valid q' \<and> contents q' = contents q @ take n xs \<and>
      room q' = room q - int (min n (length xs)))"
proof (induction xs arbitrary: q)
  case Nil
  then show ?case by simp
next
  case (Cons x xs)
  show ?case
  proof (cases "0 < room q")
    case True
    from put_room [OF Cons.prems True, of x] obtain q' where q': "bput x q = Some q'" "valid q'"
        "contents q' = contents q @ [x]" "room q' = room q - 1" by blast
    obtain w q'' where r: "put_all xs q' = (w, q'')" by fastforce
    have "nat (room q) = Suc (nat (room q'))" using q'(4) True by simp
    moreover have "w = drop (nat (room q')) xs \<and> valid q'' \<and>
        contents q'' = contents q' @ take (nat (room q')) xs \<and>
        room q'' = room q' - int (min (nat (room q')) (length xs))"
      using Cons.IH [OF q'(2)] by (simp add: Let_def r)
    ultimately show ?thesis using q' by (simp add: r Let_def)
  next
    case False
    then have "bput x q = None" using put_full [OF Cons.prems] by simp
    moreover have "nat (room q) = 0" using False by simp
    ultimately show ?thesis using Cons.prems by simp
  qed
qed

lemma put_all_fits:
  assumes "valid q" and "int (length xs) \<le> room q"
  shows "\<exists>q'. put_all xs q = ([], q') \<and> valid q' \<and> contents q' = contents q @ xs \<and>
    room q' = room q - int (length xs)"
proof -
  obtain w q' where r: "put_all xs q = (w, q')" by fastforce
  have "length xs \<le> nat (room q)" using assms(2) by simp
  with put_all_effect [OF assms(1), of xs] show ?thesis
    by (simp add: r Let_def)
qed

text \<open>What was put first is got first.\<close>

fun get_all :: "nat \<Rightarrow> 'q \<Rightarrow> 'a list" where
  "get_all 0 q = []"
| "get_all (Suc n) q = (case bget q of None \<Rightarrow> [] | Some (x, q') \<Rightarrow> x # get_all n q')"

lemma get_all_contents: "valid q \<Longrightarrow> get_all n q = take n (contents q)"
proof (induction n arbitrary: q)
  case 0
  then show ?case by simp
next
  case (Suc n)
  show ?case
  proof (cases "contents q")
    case Nil
    with get_empty [OF Suc.prems] show ?thesis by simp
  next
    case (Cons x xs)
    from get_item [OF Suc.prems Cons] Suc.IH show ?thesis by (auto simp: Cons)
  qed
qed

lemma fifo:
  assumes "valid q" and "contents q = []" and "int (length xs) \<le> room q"
  shows "get_all (length xs) (snd (put_all xs q)) = xs"
  using put_all_fits [OF assms(1,3)] assms(2) by (auto simp: get_all_contents)

end

subsection \<open>The queue and its statistics\<close>

record queue_stats =
  qs_capacity :: int
  qs_size :: nat
  qs_max_size_reached :: nat
  qs_total_enqueued :: nat
  qs_total_dequeued :: nat

text \<open>\<open>bq_unfinished\<close> is the counter behind \<open>join\<close>.\<close>

record 'a bounded_queue =
  bq_capacity :: int
  bq_items :: "'a list"
  bq_unfinished :: nat
  bq_stats :: queue_stats

definition new_queue :: "int \<Rightarrow> exn + 'a bounded_queue" where
  "new_queue capacity =
     (if capacity \<le> 0 then Inl (Exn OtherError ''Queue capacity must be positive'')
      else Inr \<lparr>bq_capacity = capacity, bq_items = [], bq_unfinished = 0,
                bq_stats = \<lparr>qs_capacity = capacity, qs_size = 0, qs_max_size_reached = 0,
                            qs_total_enqueued = 0, qs_total_dequeued = 0\<rparr>\<rparr>)"

definition queue_size :: "'a bounded_queue \<Rightarrow> nat" where
  "queue_size q = length (bq_items q)"

definition available_capacity :: "'a bounded_queue \<Rightarrow> int" where
  "available_capacity q = bq_capacity q - int (queue_size q)"

definition is_full :: "'a bounded_queue \<Rightarrow> bool" where
  "is_full q \<longleftrightarrow> bq_capacity q \<le> int (queue_size q)"

definition is_empty :: "'a bounded_queue \<Rightarrow> bool" where
  "is_empty q \<longleftrightarrow> bq_items q = []"

text \<open>The bookkeeping after an item went in.\<close>

definition enqueue :: "'a \<Rightarrow> 'a bounded_queue \<Rightarrow> 'a bounded_queue" where
  "enqueue x q =
     (let items = bq_items q @ [x]; st = bq_stats q; size = length items in
      q\<lparr>bq_items := items, bq_unfinished := bq_unfinished q + 1,
        bq_stats := st\<lparr>qs_size := size, qs_total_enqueued := qs_total_enqueued st + 1,
                       qs_max_size_reached :=
                         (if size > qs_max_size_reached st then size
                          else qs_max_size_reached st)\<rparr>\<rparr>)"

definition dequeue :: "'a list \<Rightarrow> 'a bounded_queue \<Rightarrow> 'a bounded_queue" where
  "dequeue rest q =
     (let st = bq_stats q in
      q\<lparr>bq_items := rest,
        bq_stats := st\<lparr>qs_size := length rest, qs_total_dequeued := qs_total_dequeued st + 1\<rparr>\<rparr>)"

definition put :: "'a \<Rightarrow> 'a bounded_queue \<Rightarrow> 'a bounded_queue option" where
  "put x q = (if is_full q then None else Some (enqueue x q))"

definition get :: "'a bounded_queue \<Rightarrow> ('a \<times> 'a bounded_queue) option" where
  "get q = (case bq_items q of [] \<Rightarrow> None | x # xs \<Rightarrow> Some (x, dequeue xs q))"

definition put_nowait :: "'a \<Rightarrow> 'a bounded_queue \<Rightarrow> exn + 'a bounded_queue" where
  "put_nowait x q = (if is_full q then Inl (Exn OtherError ''QueueFull'') else Inr (enqueue x q))"

definition get_nowait :: "'a bounded_queue \<Rightarrow> exn + 'a \<times> 'a bounded_queue" where
  "get_nowait q =
     (case bq_items q of [] \<Rightarrow> Inl (Exn OtherError ''QueueEmpty'') | x # xs \<Rightarrow> Inr (x, dequeue xs q))"

definition task_done :: "'a bounded_queue \<Rightarrow> exn + 'a bounded_queue" where
  "task_done q =
     (if bq_unfinished q = 0 then Inl (Exn OtherError ''task_done() called too many times'')
      else Inr (q\<lparr>bq_unfinished := bq_unfinished q - 1\<rparr>))"

subsection \<open>The invariant of the queue\<close>

definition queue_ok :: "'a bounded_queue \<Rightarrow> bool" where
  "queue_ok q \<longleftrightarrow>
     (let st = bq_stats q; n = length (bq_items q) in
      0 < bq_capacity q \<and> int n \<le> bq_capacity q \<and>
      qs_capacity st = bq_capacity q \<and> qs_size st = n \<and>
      qs_total_enqueued st = qs_total_dequeued st + n \<and>
      n \<le> qs_max_size_reached st \<and> int (qs_max_size_reached st) \<le> bq_capacity q)"

lemma queue_ok_new: "new_queue capacity = Inr q \<Longrightarrow> queue_ok q \<and> bq_items q = []"
  by (auto simp: new_queue_def queue_ok_def Let_def split: if_splits)

lemma queue_ok_enqueue: "queue_ok q \<Longrightarrow> \<not> is_full q \<Longrightarrow> queue_ok (enqueue x q)"
  by (auto simp: queue_ok_def enqueue_def is_full_def queue_size_def Let_def)

lemma queue_ok_dequeue: "queue_ok q \<Longrightarrow> bq_items q = x # xs \<Longrightarrow> queue_ok (dequeue xs q)"
  by (auto simp: queue_ok_def dequeue_def Let_def)

interpretation bq: bounded_buffer put get bq_items available_capacity queue_ok
proof unfold_locales
  fix q :: "'a bounded_queue" and x :: 'a
  assume q: "queue_ok q"
  show "\<exists>q'. put x q = Some q' \<and> queue_ok q' \<and> bq_items q' = bq_items q @ [x] \<and>
      available_capacity q' = available_capacity q - 1" if "0 < available_capacity q"
  proof -
    have "\<not> is_full q" using that by (simp add: is_full_def available_capacity_def)
    with queue_ok_enqueue [OF q this, of x] show ?thesis
      by (simp add: put_def enqueue_def available_capacity_def queue_size_def Let_def)
  qed
  show "put x q = None" if "available_capacity q \<le> 0"
    using that by (simp add: put_def is_full_def available_capacity_def)
  show "get q = None" if "bq_items q = []"
    using that by (simp add: get_def)
  show "0 \<le> available_capacity q"
    using q by (simp add: queue_ok_def available_capacity_def queue_size_def Let_def)
  fix xs
  show "\<exists>q'. get q = Some (x, q') \<and> queue_ok q' \<and> bq_items q' = xs \<and>
      available_capacity q' = available_capacity q + 1" if "bq_items q = x # xs"
    using queue_ok_dequeue [OF q that] that
    by (simp add: get_def dequeue_def available_capacity_def queue_size_def Let_def)
qed

text \<open>
  The queue keeps its bound and its books: no operation takes the number of items above the
  capacity, the statistics count exactly what went in and out, and the recorded maximum never exceeds
  the capacity. A full queue makes \<open>put\<close> wait and \<open>put_nowait\<close> raise, and neither changes it.
\<close>

theorem queue_keeps_bound:
  assumes "queue_ok q"
  shows "(case put x q of
            None \<Rightarrow> available_capacity q = 0
          | Some q' \<Rightarrow> queue_ok q' \<and> bq_items q' = bq_items q @ [x]) \<and>
    (case put_nowait x q of
       Inl e \<Rightarrow> available_capacity q = 0
     | Inr q' \<Rightarrow> queue_ok q' \<and> bq_items q' = bq_items q @ [x]) \<and>
    (case get q of
       None \<Rightarrow> bq_items q = []
     | Some (y, q') \<Rightarrow> queue_ok q' \<and> bq_items q = y # bq_items q') \<and>
    (case task_done q of Inl e \<Rightarrow> bq_unfinished q = 0 | Inr q' \<Rightarrow> queue_ok q' \<and> bq_items q' = bq_items q)"
proof -
  have full: "is_full q \<longleftrightarrow> available_capacity q = 0"
    using assms by (auto simp: is_full_def available_capacity_def queue_ok_def queue_size_def Let_def)
  have "queue_ok (q\<lparr>bq_unfinished := n\<rparr>)" for n
    using assms by (simp add: queue_ok_def Let_def)
  then show ?thesis
    using assms queue_ok_enqueue [OF assms] queue_ok_dequeue [OF assms] full
    by (auto simp: put_def put_nowait_def get_def task_done_def enqueue_def dequeue_def Let_def
        split: list.split)
qed

definition demo_queue :: "nat bounded_queue" where
  "demo_queue =
     \<lparr>bq_capacity = 2, bq_items = [7, 8], bq_unfinished = 2,
      bq_stats = \<lparr>qs_capacity = 2, qs_size = 2, qs_max_size_reached = 2, qs_total_enqueued = 2,
                  qs_total_dequeued = 0\<rparr>\<rparr>"

theorem queue_keeps_bound_witness: "put 9 demo_queue = None \<and> available_capacity demo_queue = 0"
proof -
  have "queue_ok demo_queue" by (simp add: queue_ok_def demo_queue_def)
  from queue_keeps_bound [OF this, of 9] show ?thesis
    by (simp add: put_def is_full_def queue_size_def available_capacity_def demo_queue_def)
qed

end
