(* ===== verification/Manager.thy ===== *)
theory Manager
  imports Processor_Writes Bounded_Queue
begin

section \<open>The task manager (manager.py)\<close>

text \<open>
  One cycle of each of the two polling loops: \<open>claim_cycle\<close> claims as many tasks as the queue has
  room for and dispatches them to the workers, \<open>recovery_cycle\<close> recovers tasks whose lease ran out.
  Each works in one session, with the commit before the dispatch. Tasks that the queue has no room for
  wait in \<open>put\<close>; they are returned as such.
\<close>

record manager_settings =
  ms_worker_concurrency :: int
  ms_task_lease_seconds :: int
  ms_max_attempts :: nat

definition recovery_message :: "nat \<Rightarrow> string" where
  "recovery_message m = ''Task exceeded maximum attempts ('' @ digits_of m @ '')''"

text \<open>The dispatch loop.\<close>

fun dispatch :: "task list \<Rightarrow> task bounded_queue \<Rightarrow> task list \<times> task bounded_queue" where
  "dispatch [] q = ([], q)"
| "dispatch (t # ts) q = (case put t q of None \<Rightarrow> (t # ts, q) | Some q' \<Rightarrow> dispatch ts q')"

subsection \<open>The claim cycle\<close>

definition claim_cycle ::
  "manager_settings \<Rightarrow> (uuid \<Rightarrow> bool) \<Rightarrow> timestamp \<Rightarrow> timestamp \<Rightarrow> task bounded_queue option \<Rightarrow> db
     \<Rightarrow> task list \<times> task bounded_queue option \<times> db" where
  "claim_cycle ms locked now now' pool d =
     (case pool of
        None \<Rightarrow> ([], None, d)
      | Some q \<Rightarrow>
          (let batch_size = min (available_capacity q) (ms_worker_concurrency ms) in
           if batch_size \<le> 0 then ([], Some q, d)
           else
             (let lease = now + seconds (ms_task_lease_seconds ms);
                  s = open_session d;
                  (claimed, work) = claim_tasks locked batch_size lease None now' (s_work s);
                  s = commit (s\<lparr>s_work := work\<rparr>);
                  (waiting, q') = dispatch claimed q
              in (waiting, Some q', close_session s))))"

subsection \<open>The recovery cycle\<close>

definition maybe_deactivate_domain :: "timestamp \<Rightarrow> task \<Rightarrow> db \<Rightarrow> db" where
  "maybe_deactivate_domain now t d =
     (case t_error_payload t of
        None \<Rightarrow> d
      | Some p \<Rightarrow>
          if ep_code p \<noteq> ''MAX_ATTEMPTS_EXCEEDED'' then d
          else deactivate_if_active now (t_domain_id t) d)"

text \<open>
  The loop over the recovered tasks, after the commit: a PENDING task is put into the queue, for a
  FAILED one the domain is changed in the session, which nothing commits any more.
\<close>

fun recovered_loop ::
  "(uuid \<Rightarrow> timestamp) \<Rightarrow> task list \<Rightarrow> task bounded_queue \<Rightarrow> session
     \<Rightarrow> task list \<times> task bounded_queue \<times> session" where
  "recovered_loop clk [] q s = ([], q, s)"
| "recovered_loop clk (t # ts) q s =
     (if t_status t = PENDING then
        (case put t q of
           None \<Rightarrow> (t # ts, q, s)
         | Some q' \<Rightarrow> recovered_loop clk ts q' s)
      else recovered_loop clk ts q (in_session (maybe_deactivate_domain (clk (t_id t)) t) s))"

definition recovery_cycle ::
  "manager_settings \<Rightarrow> (uuid \<Rightarrow> bool) \<Rightarrow> timestamp \<Rightarrow> timestamp \<Rightarrow> (uuid \<Rightarrow> timestamp) \<Rightarrow> (uuid \<Rightarrow> int)
     \<Rightarrow> task bounded_queue option \<Rightarrow> db \<Rightarrow> task list \<times> task bounded_queue option \<times> db" where
  "recovery_cycle ms locked now now' clk jitter pool d =
     (case pool of
        None \<Rightarrow> ([], None, d)
      | Some q \<Rightarrow>
          (let batch_size = min (available_capacity q) (ms_worker_concurrency ms) in
           if batch_size \<le> 0 then ([], Some q, d)
           else
             (let s = open_session d;
                  (recovered, work) =
                    recover_expired_tasks (ms_max_attempts ms) (recovery_message (ms_max_attempts ms)) locked
                      batch_size now now' clk jitter (s_work s);
                  s = commit (s\<lparr>s_work := work\<rparr>);
                  (waiting, q', s) = recovered_loop clk recovered q s
              in (waiting, Some q', close_session s))))"

subsection \<open>Dispatching\<close>

lemma dispatch_put_all: "dispatch ts q = bq.put_all ts q"
  by (induction ts arbitrary: q) (simp_all split: option.split)

lemma dispatch_fits:
  "queue_ok q \<Longrightarrow> int (length ts) \<le> available_capacity q \<Longrightarrow>
   \<exists>q'. dispatch ts q = ([], q') \<and> queue_ok q' \<and> bq_items q' = bq_items q @ ts"
  using bq.put_all_fits [of q ts] by (auto simp: dispatch_put_all)

lemma length_claim_tasks:
  "claim_tasks locked limit lease types now d = (ts, d') \<Longrightarrow> 0 \<le> limit \<Longrightarrow> int (length ts) \<le> limit"
  by (auto simp: claim_tasks_def Let_def length_claim_select split: if_splits)

lemma length_recover:
  "recover_expired_tasks m msg locked limit now now' clk jitter d = (ts, d') \<Longrightarrow> 0 \<le> limit \<Longrightarrow>
   int (length ts) \<le> limit"
  by (auto simp: recover_expired_tasks_def Let_def recover_select_def split: if_splits)

lemma commit_work [simp]:
  "s_work (open_session d) = d" "s_committed (commit s) = s_work s" "s_work (commit s) = s_work s"
  by (simp_all add: open_session_def commit_def)

lemma claim_cycle_eq:
  assumes "0 < min (available_capacity q) (ms_worker_concurrency ms)"
    and "claim_tasks locked (min (available_capacity q) (ms_worker_concurrency ms))
           (now + seconds (ms_task_lease_seconds ms)) None now' d = (claimed, d')"
  shows "claim_cycle ms locked now now' (Some q) d =
    (fst (dispatch claimed q), Some (snd (dispatch claimed q)), d')"
  using assms by (auto simp: claim_cycle_def Let_def close_session_def min_le_iff_disj split: prod.split)

text \<open>
  A claim cycle respects the queue: with nobody else putting, every task it claims goes into the
  queue at once, in claim order, none waits, and the queue keeps its invariant. What is dispatched is
  what was claimed: at most as many tasks as the queue had room for and as there are workers, each
  PROCESSING in the database with the lease of this cycle.
\<close>

theorem claim_cycle_dispatches:
  assumes "keys_ok d" and "queue_ok q"
    and "claim_cycle ms locked now now' (Some q) d = (waiting, pool', d')"
  shows "waiting = [] \<and>
    (\<exists>q' claimed. pool' = Some q' \<and> queue_ok q' \<and> bq_items q' = bq_items q @ claimed \<and>
       int (length claimed) \<le> max 0 (min (available_capacity q) (ms_worker_concurrency ms)) \<and>
       (\<forall>t \<in> set claimed. get_task (t_id t) d' = Some t \<and> t_status t = PROCESSING \<and>
          t_lease_expires_at t = Some (now + seconds (ms_task_lease_seconds ms))))"
proof (cases "0 < min (available_capacity q) (ms_worker_concurrency ms)")
  case False
  with assms(2,3) show ?thesis by (auto simp: claim_cycle_def Let_def)
next
  case True
  define lease where "lease = now + seconds (ms_task_lease_seconds ms)"
  obtain claimed d1 where c: "claim_tasks locked (min (available_capacity q) (ms_worker_concurrency ms))
      lease None now' d = (claimed, d1)" by fastforce
  have len: "int (length claimed) \<le> min (available_capacity q) (ms_worker_concurrency ms)"
    using length_claim_tasks [OF c] True by simp
  then obtain q' where q': "dispatch claimed q = ([], q')" "queue_ok q'" "bq_items q' = bq_items q @ claimed"
    using dispatch_fits [OF assms(2), of claimed] by auto
  have res: "waiting = []" "pool' = Some q'" "d' = d1"
    using assms(3) claim_cycle_eq [OF True c [unfolded lease_def]] q'(1) by simp_all
  have "get_task (t_id t) d' = Some t \<and> t_status t = PROCESSING \<and> t_lease_expires_at t = Some lease"
    if t: "t \<in> set claimed" for t
  proof -
    define sel where "sel = claim_select locked (min (available_capacity q) (ms_worker_concurrency ms))
      [USER_REQUEST, REFRESH] d"
    have eq: "claimed = map (claim_mark lease now') sel" "d1 = put_tasks claimed d"
      using c True by (auto simp: claim_tasks_def Let_def sel_def)
    from t eq(1) obtain s where s: "s \<in> set sel" "t = claim_mark lease now' s" by auto
    have "s \<in> set (db_tasks d)" using s(1) claim_select_subset unfolding sel_def by blast
    from put_selected_effect(1) [of d sel "claim_mark lease now'", OF assms(1) _ _ _ this]
    have "get_task (t_id s) d1 = Some t"
      using s by (simp add: eq sel_def claim_select_subset distinct_ids_claim_select assms(1) image_iff)
        (metis claim_mark_fields(1))
    then show ?thesis by (simp add: s(2) res(3))
  qed
  then show ?thesis
    using res q' len True unfolding lease_def [symmetric] by auto
qed

definition empty_queue :: "task bounded_queue" where
  "empty_queue =
     \<lparr>bq_capacity = 10, bq_items = [], bq_unfinished = 0,
      bq_stats = \<lparr>qs_capacity = 10, qs_size = 0, qs_max_size_reached = 0, qs_total_enqueued = 0,
                  qs_total_dequeued = 0\<rparr>\<rparr>"

lemma empty_queue_ok: "queue_ok empty_queue"
  by (simp add: queue_ok_def empty_queue_def)

subsection \<open>Recovery\<close>

lemma recovered_loop_committed:
  "recovered_loop clk ts q s = (waiting, q', s') \<Longrightarrow> s_committed s' = s_committed s"
  by (induction clk ts q s rule: recovered_loop.induct)
    (auto simp: in_session_def split: if_splits option.splits)

lemma recovery_cycle_db:
  "recovery_cycle ms locked now now' clk jitter pool d = (waiting, pool', d') \<Longrightarrow>
   d' = d \<or> (\<exists>limit ts. recover_expired_tasks (ms_max_attempts ms) (recovery_message (ms_max_attempts ms)) locked limit now now'
                  clk jitter d = (ts, d'))"
  by (auto simp: recovery_cycle_def Let_def close_session_def
      dest!: recovered_loop_committed split: option.splits if_splits prod.splits)

lemma recover_frame:
  "recover_expired_tasks m msg locked limit now now' clk jitter d = (ts, d') \<Longrightarrow>
   db_domains d' = db_domains d \<and> db_jobs d' = db_jobs d \<and> db_details d' = db_details d"
  by (auto simp: recover_expired_tasks_def Let_def frame_simps split: if_splits)

text \<open>
  The recovery cycle writes tasks and nothing else. A task that it fails for good leaves its
  domain active, because the deactivation is flushed after the only commit and lost when the session
  closes, and leaves the status of its job as it was, even when it was the last open task of the job.
\<close>

theorem recovery_cycle_only_tasks:
  assumes "recovery_cycle ms locked now now' clk jitter pool d = (waiting, pool', d')"
  shows "db_domains d' = db_domains d \<and> db_jobs d' = db_jobs d"
  using recovery_cycle_db [OF assms] recover_frame by metis

theorem recovery_cycle_only_tasks_witness:
  "db_domains (snd (snd (recovery_cycle
     \<lparr>ms_worker_concurrency = 5, ms_task_lease_seconds = 60, ms_max_attempts = 3\<rparr>
     (\<lambda>_. False) 200 201 (\<lambda>_. 202) (\<lambda>_. 30) (Some empty_queue) demo_db))) = [demo_domain]"
proof -
  obtain waiting pool' d' where run: "recovery_cycle
     \<lparr>ms_worker_concurrency = 5, ms_task_lease_seconds = 60, ms_max_attempts = 3\<rparr>
     (\<lambda>_. False) 200 201 (\<lambda>_. 202) (\<lambda>_. 30) (Some empty_queue) demo_db = (waiting, pool', d')"
    by (metis prod.exhaust)
  from recovery_cycle_only_tasks [OF this] show ?thesis
    unfolding run by (simp add: demo_db_def)
qed

theorem claim_cycle_dispatches_witness:
  "fst (claim_cycle \<lparr>ms_worker_concurrency = 5, ms_task_lease_seconds = 60, ms_max_attempts = 3\<rparr>
     (\<lambda>_. False) 7 8 (Some empty_queue) demo_db) = []"
proof -
  obtain waiting pool' d' where run: "claim_cycle
     \<lparr>ms_worker_concurrency = 5, ms_task_lease_seconds = 60, ms_max_attempts = 3\<rparr>
     (\<lambda>_. False) 7 8 (Some empty_queue) demo_db = (waiting, pool', d')"
    by (metis prod.exhaust)
  from claim_cycle_dispatches [OF demo_keys empty_queue_ok this] show ?thesis
    unfolding run by simp
qed

end
