(* ===== verification/Scheduler.thy ===== *)
theory Scheduler
  imports Detail_Repo Task_Queue Bounded_Queue
begin

section \<open>The refresh scheduler (scheduler.py)\<close>

text \<open>
  One tick: unless the worker queue is full, look up the active domains whose observation is due,
  oldest first and at most as many as there are workers and free places, and create a refresh task for
  each that has none open. Any exception rolls the session back.
\<close>

definition tick_limit :: "int \<Rightarrow> 'a bounded_queue option \<Rightarrow> int" where
  "tick_limit worker_concurrency pool =
     (case pool of
        None \<Rightarrow> worker_concurrency
      | Some q \<Rightarrow> min worker_concurrency (available_capacity q))"

definition tick ::
  "int \<Rightarrow> 'a bounded_queue option \<Rightarrow> timestamp \<Rightarrow> (nat \<Rightarrow> uuid) \<Rightarrow> db \<Rightarrow> (exn + task list) \<times> db" where
  "tick worker_concurrency pool now ids d =
     (if (case pool of None \<Rightarrow> False | Some q \<Rightarrow> available_capacity q \<le> 0) then (Inr [], d)
      else
        (let max_tasks = tick_limit worker_concurrency pool in
         if max_tasks \<le> 0 then (Inr [], d)
         else
           (let s = open_session d;
                due = get_domains_needing_refresh max_tasks now (s_work s)
            in if due = [] then (Inr [], close_session s)
               else
                 (case create_refresh_tasks (map fst due) now ids 0 (s_work s) of
                    Inl e \<Rightarrow> (Inl e, close_session (rollback s))
                  | Inr (created, work) \<Rightarrow>
                      (Inr created, close_session (commit (s\<lparr>s_work := work\<rparr>)))))))"

subsection \<open>What creating refresh tasks does\<close>

definition open_refreshes :: "uuid \<Rightarrow> db \<Rightarrow> task list" where
  "open_refreshes k d = filter (pending_refresh_for k) (db_tasks d)"

definition refresh_unique :: "db \<Rightarrow> bool" where
  "refresh_unique d \<longleftrightarrow> (\<forall>k. length (open_refreshes k d) \<le> 1)"

lemma scalar_one_or_none_short:
  "length xs \<le> 1 \<Longrightarrow> scalar_one_or_none xs = Inr (case xs of [] \<Rightarrow> None | x # _ \<Rightarrow> Some x)"
  by (cases xs rule: scalar_one_or_none.cases) simp_all

lemma open_refreshes_append:
  "open_refreshes k (d\<lparr>db_tasks := db_tasks d @ [new_refresh_task i dm now]\<rparr>) =
     open_refreshes k d @ (if k = dm then [new_refresh_task i dm now] else [])"
  by (auto simp: open_refreshes_def pending_refresh_for_def new_refresh_task_def non_terminal_def)

lemma new_refresh_fields [simp]:
  "t_id (new_refresh_task i dm now) = i" "t_domain_id (new_refresh_task i dm now) = dm"
  by (simp_all add: new_refresh_task_def)

lemma create_refresh_step:
  assumes "refresh_unique d"
  shows "create_refresh_tasks (dm # dms) now ids n d =
    (if open_refreshes dm d \<noteq> [] then create_refresh_tasks dms now ids n d
     else case create_task (new_refresh_task (ids n) dm now) d of
        Inl e \<Rightarrow> Inl e
      | Inr d' \<Rightarrow>
          (case create_refresh_tasks dms now ids (Suc n) d' of
             Inl e \<Rightarrow> Inl e
           | Inr (ts, d'') \<Rightarrow> Inr (new_refresh_task (ids n) dm now # ts, d'')))"
proof -
  have "length (filter (pending_refresh_for dm) (db_tasks d)) \<le> 1"
    using assms by (simp add: refresh_unique_def open_refreshes_def)
  then show ?thesis
    by (cases "filter (pending_refresh_for dm) (db_tasks d)")
      (simp_all add: get_pending_refresh_task_for_domain_def scalar_one_or_none_short
        open_refreshes_def Let_def)
qed

lemma refresh_unique_create:
  assumes "refresh_unique d" and "open_refreshes dm d = []"
    and "create_task (new_refresh_task i dm now) d = Inr d'"
  shows "refresh_unique d'"
  using assms create_task_InrD(1) [OF assms(3)]
  by (simp add: refresh_unique_def open_refreshes_append)

lemma create_refresh_tasks_effect:
  assumes "refresh_unique d" and "create_refresh_tasks dms now ids n d = Inr (ts, d')"
  shows "refresh_unique d' \<and> db_tasks d' = db_tasks d @ ts \<and> db_domains d' = db_domains d \<and>
    db_details d' = db_details d \<and> db_jobs d' = db_jobs d \<and>
    distinct (map t_domain_id ts) \<and>
    set (map t_domain_id ts) = {k \<in> set dms. open_refreshes k d = []} \<and>
    (\<forall>t \<in> set ts. \<exists>i. t = new_refresh_task i (t_domain_id t) now) \<and>
    (\<forall>k. open_refreshes k d \<noteq> [] \<longrightarrow> open_refreshes k d' \<noteq> [])"
  using assms
proof (induction dms arbitrary: d n ts d')
  case Nil
  then show ?case by auto
next
  case (Cons dm dms)
  note step = Cons.prems(2) [unfolded create_refresh_step [OF Cons.prems(1)]]
  show ?case
  proof (cases "open_refreshes dm d = []")
    case False
    with step have run: "create_refresh_tasks dms now ids n d = Inr (ts, d')" by simp
    from Cons.IH [OF Cons.prems(1) run] False show ?thesis by auto
  next
    case True
    let ?t = "new_refresh_task (ids n) dm now"
    from True step obtain d1 ts' where d1: "create_task ?t d = Inr d1"
      and run: "create_refresh_tasks dms now ids (Suc n) d1 = Inr (ts', d')" and ts: "ts = ?t # ts'"
      by (auto split: sum.splits)
    note eq = create_task_InrD(1) [OF d1]
    note IH = Cons.IH [OF refresh_unique_create [OF Cons.prems(1) True d1] run]
    from IH True show ?thesis
      by (auto simp: ts eq open_refreshes_append split: if_splits)
  qed
qed

lemma schema_ok_create_refresh_tasks:
  "schema_ok d \<Longrightarrow> create_refresh_tasks dms now ids n d = Inr (ts, d') \<Longrightarrow> schema_ok d'"
  by (induction dms arbitrary: d n ts d')
    (auto simp: Let_def dest: schema_ok_create_task split: sum.splits option.splits)

lemma tasks_ok_create_refresh_tasks:
  "0 < m \<Longrightarrow> tasks_ok m d \<Longrightarrow> create_refresh_tasks dms now ids n d = Inr (ts, d') \<Longrightarrow> tasks_ok m d'"
  by (induction dms arbitrary: d n ts d')
    (auto simp: Let_def dest: tasks_ok_create_task [OF _ task_ok_new_refresh] split: sum.splits option.splits)

lemma tick_cases:
  assumes "tick w pool now ids d = (res, d')"
  shows "(d' = d \<and> ((\<exists>e. res = Inl e) \<or> res = Inr [])) \<or> (\<exists>created. res = Inr created \<and>
    create_refresh_tasks (map fst (get_domains_needing_refresh (tick_limit w pool) now d)) now ids 0 d =
      Inr (created, d'))"
  using assms
  by (auto simp: tick_def Let_def open_session_def close_session_def rollback_def commit_def
      split: if_splits sum.splits prod.splits)

lemma due_domainD:
  "(k, name) \<in> set (get_domains_needing_refresh limit now d) \<Longrightarrow>
   (\<exists>dd \<in> set (db_details d). \<exists>dm \<in> set (db_domains d).
      dd_domain_id dd = k \<and> d_id dm = k \<and> d_is_active dm \<and> dd_next_refresh_at dd \<le> now)"
  by (auto simp: get_domains_needing_refresh_def detail_join_def
      dest!: subsetD [OF set_take_sort_key]) blast

lemma length_due: "0 \<le> limit \<Longrightarrow> int (length (get_domains_needing_refresh limit now d)) \<le> limit"
  by (simp add: get_domains_needing_refresh_def)

lemma length_create_refresh:
  "create_refresh_tasks dms now ids n d = Inr (ts, d') \<Longrightarrow> length ts \<le> length dms"
  by (induction dms arbitrary: d n ts d') (fastforce simp: Let_def split: sum.splits option.splits)+

text \<open>
  C37. A tick never schedules a refresh twice: if no domain has two open refresh tasks, none has after
  it. It only appends fresh PENDING refresh tasks without a job, at most one per domain and no more
  than there are workers and free places in the queue, each for an active domain whose observation was
  due and that had no open refresh task; every other table is left alone.
\<close>

theorem tick_refreshes_once:
  assumes "refresh_unique d" and "tick w pool now ids d = (Inr created, d')"
  shows "refresh_unique d' \<and> db_tasks d' = db_tasks d @ created \<and>
    db_jobs d' = db_jobs d \<and> db_domains d' = db_domains d \<and> db_details d' = db_details d \<and>
    distinct (map t_domain_id created) \<and>
    int (length created) \<le> max 0 (tick_limit w pool) \<and>
    (\<forall>t \<in> set created. t_status t = PENDING \<and> t_type t = REFRESH \<and> t_job_id t = None \<and>
       open_refreshes (t_domain_id t) d = [] \<and>
       (\<exists>dd \<in> set (db_details d). \<exists>dm \<in> set (db_domains d). dd_domain_id dd = t_domain_id t \<and>
          d_id dm = t_domain_id t \<and> d_is_active dm \<and> dd_next_refresh_at dd \<le> now))"
proof -
  let ?due = "get_domains_needing_refresh (tick_limit w pool) now d"
  consider "d' = d" "created = []" | "create_refresh_tasks (map fst ?due) now ids 0 d = Inr (created, d')"
    using tick_cases [OF assms(2)] by auto
  then show ?thesis
  proof cases
  case 1
  with assms(1) show ?thesis by simp
  next
  case 2
  note run = 2
  note eff = create_refresh_tasks_effect [OF assms(1) run]
  have "int (length created) \<le> max 0 (tick_limit w pool)"
  proof -
    have "length created \<le> length ?due" using length_create_refresh [OF run] by simp
    also have "int \<dots> \<le> max 0 (tick_limit w pool)"
      by (simp add: get_domains_needing_refresh_def)
    finally show ?thesis by simp
  qed
  moreover have "t_status t = PENDING \<and> t_type t = REFRESH \<and> t_job_id t = None \<and>
       open_refreshes (t_domain_id t) d = [] \<and>
       (\<exists>dd \<in> set (db_details d). \<exists>dm \<in> set (db_domains d). dd_domain_id dd = t_domain_id t \<and>
          d_id dm = t_domain_id t \<and> d_is_active dm \<and> dd_next_refresh_at dd \<le> now)"
    if t: "t \<in> set created" for t
  proof -
    from eff t obtain i where new: "t = new_refresh_task i (t_domain_id t) now" by blast
    have "t_domain_id t \<in> set (map t_domain_id created)" using t by simp
    then have k: "t_domain_id t \<in> set (map fst ?due)" "open_refreshes (t_domain_id t) d = []"
      using eff by auto
    then obtain name where "(t_domain_id t, name) \<in> set ?due" by auto
    note due = due_domainD [OF this]
    have "t_status t = PENDING \<and> t_type t = REFRESH \<and> t_job_id t = None"
      by (subst new, subst (2) new, subst (3) new) (simp add: new_refresh_task_def)
    with k(2) due show ?thesis by blast
  qed
  ultimately show ?thesis using eff by blast
  qed
qed

definition due_db :: db where
  "due_db = demo_db\<lparr>db_tasks := [], db_details :=
     [\<lparr>dd_domain_id = 2, dd_ip_addresses = [], dd_dns_records = [], dd_http_status = 200,
       dd_page_title = None, dd_response_time = 5, dd_response_headers = [], dd_fetched_at = 0,
       dd_next_refresh_at = 10, dd_version = 1\<rparr>]\<rparr>"

lemma due_db_tick:
  "tick 5 (None :: nat bounded_queue option) 50 (\<lambda>n. 77 + n) due_db =
     (Inr [new_refresh_task 77 2 50], due_db\<lparr>db_tasks := [new_refresh_task 77 2 50]\<rparr>)"
  by (simp add: tick_def tick_limit_def get_domains_needing_refresh_def detail_join_def due_db_def
      demo_db_def demo_domain_def open_session_def close_session_def commit_def
      get_pending_refresh_task_for_domain_def create_task_def task_refs_ok_def new_refresh_task_def Let_def)

theorem tick_refreshes_once_witness:
  "refresh_unique (due_db\<lparr>db_tasks := [new_refresh_task 77 2 50]\<rparr>)"
  using tick_refreshes_once [OF _ due_db_tick]
  by (simp add: refresh_unique_def open_refreshes_def due_db_def)

text \<open>
  The candidates are limited before those with an open refresh are skipped: if each of the oldest due domains
  has one, the tick creates nothing, whatever other domains are due and have none.
\<close>

lemma create_refresh_tasks_skips:
  "refresh_unique d \<Longrightarrow> \<forall>k \<in> set dms. open_refreshes k d \<noteq> [] \<Longrightarrow>
   create_refresh_tasks dms now ids n d = Inr ([], d)"
  by (induction dms) (simp_all add: create_refresh_step del: create_refresh_tasks.simps(2))

lemma tick_starves_due_domains:
  assumes "refresh_unique d"
    and "\<forall>(k, name) \<in> set (get_domains_needing_refresh (tick_limit w pool) now d). open_refreshes k d \<noteq> []"
  shows "tick w pool now ids d = (Inr [], d)"
proof -
  have "create_refresh_tasks (map fst (get_domains_needing_refresh (tick_limit w pool) now d)) now ids 0 d = Inr ([], d)"
    using assms by (intro create_refresh_tasks_skips) auto
  then show ?thesis
    by (simp add: tick_def Let_def open_session_def close_session_def commit_def)
qed

text \<open>Two due domains, one worker, and the older one already waiting for its refresh.\<close>

definition starving_db :: db where
  "starving_db = due_db\<lparr>
     db_domains := [demo_domain, demo_domain\<lparr>d_id := 3, d_normalized_domain := ''late.org''\<rparr>],
     db_details := db_details due_db @ map (\<lambda>dd. dd\<lparr>dd_domain_id := 3, dd_next_refresh_at := 20\<rparr>) (db_details due_db),
     db_tasks := [new_refresh_task 77 2 30]\<rparr>"

lemma starving_tick:
  "tick 1 (None :: nat bounded_queue option) 50 ids starving_db = (Inr [], starving_db) \<and>
   (3, ''late.org'') \<in> set (get_domains_needing_refresh 2 50 starving_db) \<and> open_refreshes 3 starving_db = []"
proof -
  have "get_domains_needing_refresh 1 50 starving_db = [(2, d_normalized_domain demo_domain)]"
    and due: "(3, ''late.org'') \<in> set (get_domains_needing_refresh 2 50 starving_db)"
    by (simp_all add: get_domains_needing_refresh_def detail_join_def starving_db_def due_db_def demo_domain_def)
  moreover have "refresh_unique starving_db" and "open_refreshes 2 starving_db \<noteq> []" and "open_refreshes 3 starving_db = []"
    by (auto simp: refresh_unique_def open_refreshes_def starving_db_def pending_refresh_for_def new_refresh_task_def
        non_terminal_def)
  ultimately show ?thesis
    using tick_starves_due_domains [of starving_db 1 "None :: nat bounded_queue option" 50] by (simp add: tick_limit_def)
qed

end
