(* ===== verification/Normalization.thy ===== *)
theory Normalization
  imports Py_Str
begin

section \<open>Domain normalization (normalization.py)\<close>

text \<open>
  \<open>normalize_domain\<close> turns what a user typed into a canonical domain name or an error. The \<open>idna\<close>
  codec of the standard library is an argument for labels that are not ASCII; on an ASCII label it is
  the identity (or fails for a label of 64 characters or more, which the code then keeps).
\<close>

record normalized_domain =
  nd_value :: string
  nd_is_valid :: bool
  nd_error :: "string option"

datatype idna_outcome = Idna_ok string | Idna_unicode_error | Idna_other string

subsection \<open>Validation\<close>

definition label_char :: "char \<Rightarrow> bool" where
  "label_char c \<longleftrightarrow> is_lower_ascii c \<or> is_digit c \<or> c = CHR ''-''"

definition is_valid_domain_label :: "string \<Rightarrow> bool" where
  "is_valid_domain_label label \<longleftrightarrow>
     (if label = [] then False
      else if length label > 63 then False
      else if starts_with label ''-'' \<or> ends_with label ''-'' then False
      else list_all label_char label)"

fun first_invalid :: "string list \<Rightarrow> string option" where
  "first_invalid [] = None"
| "first_invalid (l # ls) = (if \<not> is_valid_domain_label l then Some l else first_invalid ls)"

definition validate_domain_syntax :: "string \<Rightarrow> bool \<times> string option" where
  "validate_domain_syntax domain =
     (if domain = [] then (False, Some ''empty domain'')
      else if length domain > 253 then (False, Some ''domain too long'')
      else
        (let labels = py_split (CHR ''.'') domain in
         if length labels < 2 then (False, Some ''domain must have at least two labels'')
         else case first_invalid labels of
           Some l \<Rightarrow> (False, Some (''invalid label: '' @ l))
         | None \<Rightarrow> (True, None)))"

subsection \<open>Normalization\<close>

definition is_alpha :: "char \<Rightarrow> bool" where
  "is_alpha c \<longleftrightarrow> is_lower_ascii c \<or> is_upper_ascii c"

definition scheme_char :: "char \<Rightarrow> bool" where
  "scheme_char c \<longleftrightarrow> is_alpha c \<or> is_digit c \<or> c \<in> {CHR ''+'', CHR ''.'', CHR ''-''}"

text \<open>The match of the scheme at the start of the text, and what follows it.\<close>

definition after_scheme :: "string \<Rightarrow> string option" where
  "after_scheme s =
     (case s of
        [] \<Rightarrow> None
      | c # cs \<Rightarrow>
          if is_alpha c then
            (let rest = dropWhile scheme_char cs in
             if starts_with rest ''://'' then Some (drop 3 rest) else None)
          else None)"

definition host_part :: "string \<Rightarrow> string" where
  "host_part s =
     hd (py_split (CHR '':'')
       (hd (py_split (CHR ''#'') (hd (py_split (CHR ''?'') (hd (py_split (CHR ''/'') s)))))))"

definition encode_label :: "(string \<Rightarrow> idna_outcome) \<Rightarrow> string \<Rightarrow> string + string" where
  "encode_label idna label =
     (if is_ascii label then Inr label
      else case idna label of
        Idna_ok s \<Rightarrow> Inr s
      | Idna_unicode_error \<Rightarrow> Inr label
      | Idna_other msg \<Rightarrow> Inl msg)"

fun encode_labels :: "(string \<Rightarrow> idna_outcome) \<Rightarrow> string list \<Rightarrow> string + string list" where
  "encode_labels idna [] = Inr []"
| "encode_labels idna (l # ls) =
     (case encode_label idna l of
        Inl e \<Rightarrow> Inl e
      | Inr l' \<Rightarrow>
          (case encode_labels idna ls of Inl e \<Rightarrow> Inl e | Inr ls' \<Rightarrow> Inr (l' # ls')))"

definition invalid_domain :: "string \<Rightarrow> string option \<Rightarrow> normalized_domain" where
  "invalid_domain v e = \<lparr>nd_value = v, nd_is_valid = False, nd_error = e\<rparr>"

definition normalize_domain :: "(string \<Rightarrow> idna_outcome) \<Rightarrow> string \<Rightarrow> normalized_domain" where
  "normalize_domain idna domain =
     (let s = py_strip domain in
      if s = [] then invalid_domain [] (Some ''empty domain after whitespace trimming'')
      else
        (let s = (case after_scheme s of None \<Rightarrow> s | Some rest \<Rightarrow> host_part rest);
             s = rstrip_by (\<lambda>c. c = CHR ''.'') (py_lower s)
         in if s = [] then invalid_domain [] (Some ''empty domain after normalization'')
            else
              (case encode_labels idna (py_split (CHR ''.'') s) of
                 Inl msg \<Rightarrow> invalid_domain s (Some (''IDNA encoding failed: '' @ msg))
               | Inr labels \<Rightarrow>
                   (let v = py_join (CHR ''.'') labels in
                    case validate_domain_syntax v of
                      (False, e) \<Rightarrow> invalid_domain v e
                    | (True, e) \<Rightarrow> \<lparr>nd_value = v, nd_is_valid = True, nd_error = None\<rparr>))))"

subsection \<open>Deduplication\<close>

fun dedupe_from :: "(string \<Rightarrow> idna_outcome) \<Rightarrow> string list \<Rightarrow> string list \<Rightarrow> string list" where
  "dedupe_from idna seen [] = []"
| "dedupe_from idna seen (domain # rest) =
     (let r = normalize_domain idna domain;
          key = (if nd_is_valid r then nd_value r
                 else ''__invalid__'' @ py_lower (py_strip domain))
      in if key \<in> set seen then dedupe_from idna seen rest
         else (if nd_is_valid r then key else domain) # dedupe_from idna (key # seen) rest)"

definition deduplicate_domains :: "(string \<Rightarrow> idna_outcome) \<Rightarrow> string list \<Rightarrow> string list" where
  "deduplicate_domains idna domains = dedupe_from idna [] domains"

subsection \<open>What a valid result looks like\<close>

definition canonical :: "string \<Rightarrow> bool" where
  "canonical v \<longleftrightarrow> length v \<le> 253 \<and> 2 \<le> length (py_split (CHR ''.'') v) \<and>
     list_all is_valid_domain_label (py_split (CHR ''.'') v)"

lemma first_invalid_None: "first_invalid ls = None \<longleftrightarrow> list_all is_valid_domain_label ls"
  by (induction ls) auto

lemma validate_syntax_iff: "fst (validate_domain_syntax v) \<longleftrightarrow> canonical v"
  by (auto simp: validate_domain_syntax_def canonical_def Let_def first_invalid_None [symmetric]
      split: option.split)

lemma normalize_valid_canonical:
  "nd_is_valid (normalize_domain idna s) \<Longrightarrow>
   canonical (nd_value (normalize_domain idna s)) \<and> nd_error (normalize_domain idna s) = None"
  unfolding validate_syntax_iff [symmetric]
  by (auto simp: normalize_domain_def invalid_domain_def Let_def split: if_splits sum.splits prod.splits bool.splits)

lemma label_chars:
  assumes "canonical v" and "c \<in> set v"
  shows "label_char c \<or> c = CHR ''.''"
proof -
  have "c \<in> insert (CHR ''.'') (\<Union> (set ` set (py_split (CHR ''.'') v)))"
    using set_py_join [of "CHR ''.''" "py_split (CHR ''.'') v"] assms(2) by (auto simp: py_join_split)
  moreover have "list_all label_char p" if "p \<in> set (py_split (CHR ''.'') v)" for p
    using assms(1) that by (auto simp: canonical_def list_all_iff is_valid_domain_label_def split: if_splits)
  ultimately show ?thesis by (auto simp: list_all_iff)
qed

lemma label_char_code:
  assumes "label_char c \<or> c = CHR ''.''"
  shows "code c < 128" "code c < 65 \<or> 90 < code c" "\<not> is_space c" "c \<noteq> CHR '':''"
  using assms
  by (auto simp: label_char_def is_lower_ascii_def is_digit_def is_space_def code_def)

lemma label_char_safe:
  "label_char c \<or> c = CHR ''.'' \<Longrightarrow> c \<notin> {CHR ''/'', CHR ''?'', CHR ''#'', CHR '':''}"
  by (auto simp: label_char_def is_lower_ascii_def is_digit_def code_def)

lemma canonical_not_empty: "canonical v \<Longrightarrow> v \<noteq> []"
  by (auto simp: canonical_def)

lemma canonical_last:
  assumes "canonical v"
  shows "last v \<noteq> CHR ''.''"
proof
  assume "last v = CHR ''.''"
  with canonical_not_empty [OF assms] have v: "v = butlast v @ [CHR ''.'']"
    by (metis append_butlast_last_id)
  have "py_split (CHR ''.'') (w @ [CHR ''.'']) = py_split (CHR ''.'') w @ [[]]" for w
    by (induction w) (auto split: list.split)
  from this [of "butlast v"] v have "[] \<in> set (py_split (CHR ''.'') v)" by simp
  with assms show False
    by (auto simp: canonical_def list_all_iff is_valid_domain_label_def)
qed

lemma encode_labels_ascii:
  "\<forall>l \<in> set ls. is_ascii l \<Longrightarrow> encode_labels idna ls = Inr ls"
  by (induction ls) (auto simp: encode_label_def)

lemma after_scheme_no_colon: "CHR '':'' \<notin> set s \<Longrightarrow> after_scheme s = None"
proof -
  assume no: "CHR '':'' \<notin> set s"
  have colon: "CHR '':'' \<in> set rest" if "starts_with rest ''://''" for rest
    using that by (cases rest) (auto simp: starts_with_def)
  have "\<not> starts_with (dropWhile scheme_char cs) ''://''" if "CHR '':'' \<notin> set cs" for cs
    using that colon [of "dropWhile scheme_char cs"] set_dropWhileD [of "CHR '':''" scheme_char cs]
    by blast
  with no show ?thesis by (auto simp: after_scheme_def Let_def split: list.split)
qed

text \<open>From the lower-cased host on, the result depends on the host only.\<close>

definition finish :: "(string \<Rightarrow> idna_outcome) \<Rightarrow> string \<Rightarrow> normalized_domain" where
  "finish idna s =
     (let s = rstrip_by (\<lambda>c. c = CHR ''.'') (py_lower s) in
      if s = [] then invalid_domain [] (Some ''empty domain after normalization'')
      else
        (case encode_labels idna (py_split (CHR ''.'') s) of
           Inl msg \<Rightarrow> invalid_domain s (Some (''IDNA encoding failed: '' @ msg))
         | Inr labels \<Rightarrow>
             (let v = py_join (CHR ''.'') labels in
              case validate_domain_syntax v of
                (False, e) \<Rightarrow> invalid_domain v e
              | (True, e) \<Rightarrow> \<lparr>nd_value = v, nd_is_valid = True, nd_error = None\<rparr>)))"

lemma normalize_finish:
  "normalize_domain idna domain =
     (let s = py_strip domain in
      if s = [] then invalid_domain [] (Some ''empty domain after whitespace trimming'')
      else finish idna (case after_scheme s of None \<Rightarrow> s | Some rest \<Rightarrow> host_part rest))"
  by (simp add: normalize_domain_def finish_def Let_def)

lemma finish_canonical:
  assumes "canonical v"
  shows "finish idna v = \<lparr>nd_value = v, nd_is_valid = True, nd_error = None\<rparr>"
proof -
  have code: "code c < 128 \<and> (code c < 65 \<or> 90 < code c)" if "c \<in> set v" for c
    using label_char_code [OF label_chars [OF assms that]] by blast
  have "py_lower v = v"
    by (rule py_lower_id) (use code in fastforce)
  moreover have "rstrip_by (\<lambda>c. c = CHR ''.'') v = v"
    using canonical_last [OF assms] by (intro rstrip_by_id) auto
  moreover have "\<forall>l \<in> set (py_split (CHR ''.'') v). is_ascii l"
    using set_py_split code by (fastforce simp: is_ascii_def list_all_iff)
  moreover have "fst (validate_domain_syntax v)"
    using assms by (simp add: validate_syntax_iff)
  ultimately show ?thesis
    using canonical_not_empty [OF assms]
    by (auto simp: finish_def encode_labels_ascii py_join_split split: prod.split bool.split)
qed

lemma normalize_canonical:
  assumes "canonical v"
  shows "normalize_domain idna v = \<lparr>nd_value = v, nd_is_valid = True, nd_error = None\<rparr>"
proof -
  have "py_strip v = v"
    by (rule py_strip_id) (use label_char_code [OF label_chars [OF assms]] in blast)
  moreover have "after_scheme v = None"
    by (rule after_scheme_no_colon) (use label_char_code(4) [OF label_chars [OF assms]] in blast)
  ultimately show ?thesis
    using canonical_not_empty [OF assms] by (simp add: normalize_finish finish_canonical [OF assms])
qed

text \<open>
  C29. A domain that is accepted is in canonical form: at most 253 characters, two or more labels of 1
  to 63 lower-case letters, digits and hyphens that neither start nor end with a hyphen, and no error;
  and accepting is stable, normalizing the result again gives the same result. It holds for every
  behaviour of the IDNA codec.
\<close>

theorem normalize_domain_canonical:
  assumes "nd_is_valid (normalize_domain idna s)"
  shows "length (nd_value (normalize_domain idna s)) \<le> 253 \<and>
    2 \<le> length (py_split (CHR ''.'') (nd_value (normalize_domain idna s))) \<and>
    (\<forall>l \<in> set (py_split (CHR ''.'') (nd_value (normalize_domain idna s))).
       1 \<le> length l \<and> length l \<le> 63 \<and> hd l \<noteq> CHR ''-'' \<and> last l \<noteq> CHR ''-'' \<and>
       (\<forall>c \<in> set l. is_lower_ascii c \<or> is_digit c \<or> c = CHR ''-'')) \<and>
    nd_error (normalize_domain idna s) = None \<and>
    normalize_domain idna (nd_value (normalize_domain idna s)) = normalize_domain idna s"
proof -
  let ?v = "nd_value (normalize_domain idna s)"
  have can: "canonical ?v" and err: "nd_error (normalize_domain idna s) = None"
    using normalize_valid_canonical [OF assms] by auto
  have lab: "1 \<le> length l \<and> length l \<le> 63 \<and> hd l \<noteq> CHR ''-'' \<and> last l \<noteq> CHR ''-'' \<and>
       (\<forall>c \<in> set l. is_lower_ascii c \<or> is_digit c \<or> c = CHR ''-'')"
    if "is_valid_domain_label l" for l
  proof -
    have "\<not> starts_with l ''-''" "\<not> ends_with l ''-''" "l \<noteq> []"
      using that by (auto simp: is_valid_domain_label_def split: if_splits)
    then have "hd l \<noteq> CHR ''-''" by (cases l) (auto simp: starts_with_def)
    moreover have "last l \<noteq> CHR ''-''"
      using \<open>\<not> ends_with l ''-''\<close> \<open>l \<noteq> []\<close>
      by (cases l rule: rev_cases) (auto simp: ends_with_def starts_with_def)
    ultimately show ?thesis
      using that by (auto simp: is_valid_domain_label_def label_char_def list_all_iff Suc_le_eq split: if_splits)
  qed
  have "normalize_domain idna ?v = normalize_domain idna s"
    using normalize_canonical [OF can] assms err by (cases "normalize_domain idna s") simp
  with can err lab show ?thesis by (auto simp: canonical_def list_all_iff)
qed


theorem normalize_domain_canonical_witness:
  "nd_value (normalize_domain (\<lambda>l. Idna_unicode_error) '' HTTPS://Example.COM./a?b '') = ''example.com'' \<and>
   2 \<le> length (py_split (CHR ''.'')
     (nd_value (normalize_domain (\<lambda>l. Idna_unicode_error) '' HTTPS://Example.COM./a?b '')))"
proof -
  have run: "normalize_domain (\<lambda>l. Idna_unicode_error) '' HTTPS://Example.COM./a?b '' =
      \<lparr>nd_value = ''example.com'', nd_is_valid = True, nd_error = None\<rparr>"
    by code_simp
  have "nd_is_valid (normalize_domain (\<lambda>l. Idna_unicode_error) '' HTTPS://Example.COM./a?b '')"
    by (simp add: run)
  from normalize_domain_canonical [OF this] show ?thesis by (simp add: run)
qed

subsection \<open>URLs and host names\<close>

lemma hd_py_split: "sep \<notin> set s \<Longrightarrow> hd (py_split sep (s @ sep # t)) = s"
  by (simp add: py_split_append)

lemma hd_py_split_none: "sep \<notin> set s \<Longrightarrow> hd (py_split sep s) = s"
  by (simp add: py_split_no_sep_single)

lemma host_part_path:
  assumes "\<forall>c \<in> set s. c \<notin> {CHR ''/'', CHR ''?'', CHR ''#'', CHR '':''}"
  shows "host_part (s @ CHR ''/'' # t) = s"
proof -
  have "CHR ''/'' \<notin> set s" "CHR ''?'' \<notin> set s" "CHR ''#'' \<notin> set s" "CHR '':'' \<notin> set s"
    using assms by auto
  then show ?thesis by (simp add: host_part_def hd_py_split hd_py_split_none)
qed

lemma rstrip_keeps: "s \<noteq> [] \<Longrightarrow> \<not> p (last s) \<Longrightarrow> \<exists>t'. rstrip_by p (s @ t) = s @ t'"
proof (induction t rule: rev_induct)
  case Nil
  then show ?case by (simp add: rstrip_by_id)
next
  case (snoc c t)
  then show ?case
    using rstrip_by_append [of p "s @ t" c] by auto
qed

lemma py_strip_keeps:
  assumes "s \<noteq> []" and "\<not> is_space (hd s)" and "\<not> is_space (last s)"
  shows "\<exists>t'. py_strip (s @ t) = s @ t'"
proof -
  have "dropWhile is_space (s @ t) = s @ t" using assms(1,2) by (cases s) auto
  then show ?thesis
    using rstrip_keeps [of s is_space t] assms(1,3) by (simp add: py_strip_def py_lstrip_def)
qed

text \<open>
  A URL counts as its host: for a canonical domain, the text \<open>https://domain/path\<close> with any path
  is normalized to the domain itself, and so is the domain in any mixture of upper and lower case.
\<close>

theorem normalize_url_is_host:
  assumes "nd_is_valid (normalize_domain idna v)" and "nd_value (normalize_domain idna v) = v"
    and "py_lower w = v" and "is_ascii w"
  shows "normalize_domain idna (''https://'' @ v @ ''/'' @ path) = normalize_domain idna v \<and>
    normalize_domain idna w = normalize_domain idna v"
proof
  have can: "canonical v" using normalize_valid_canonical [OF assms(1)] assms(2) by simp
  have ok: "label_char c \<or> c = CHR ''.''" if "c \<in> set v" for c
    using label_chars [OF can that] .
  have safe: "\<forall>c \<in> set v. c \<notin> {CHR ''/'', CHR ''?'', CHR ''#'', CHR '':''}"
    using ok label_char_safe by blast
  obtain t' where strip: "py_strip ((''https://'' @ v @ ''/'') @ path) = (''https://'' @ v @ ''/'') @ t'"
    using py_strip_keeps [of "''https://'' @ v @ ''/''" path] by (auto simp: is_space_def code_def)
  have scheme: "after_scheme (''https://'' @ rest) = Some rest" for rest
    by (simp add: after_scheme_def is_alpha_def is_lower_ascii_def is_upper_ascii_def is_digit_def
        scheme_char_def starts_with_def code_def)
  have "normalize_domain idna (''https://'' @ v @ ''/'' @ path) = finish idna v"
    using strip scheme [of "v @ CHR ''/'' # t'"] host_part_path [OF safe, of t']
    by (simp add: normalize_finish Let_def)
  then show "normalize_domain idna (''https://'' @ v @ ''/'' @ path) = normalize_domain idna v"
    by (simp add: finish_canonical [OF can] normalize_canonical [OF can])
  have wchar: "\<not> is_space c \<and> c \<noteq> CHR '':''" if "c \<in> set w" for c
  proof -
    have "lower_char c \<in> set v" using that assms(3) by (auto simp: py_lower_def)
    note low = ok [OF this]
    show ?thesis
    proof (rule ccontr)
      assume bad: "\<not> (\<not> is_space c \<and> c \<noteq> CHR '':'')"
      moreover have "code c < 128" using that assms(4) by (simp add: is_ascii_def list_all_iff)
      moreover have "code (CHR '':'') = 58" by (simp add: code_def)
      ultimately have "code c < 65" by (auto simp: is_space_def)
      then have "lower_char c = c" by (simp add: lower_char_id)
      with bad label_char_code(3,4) [OF low] show False by simp
    qed
  qed
  have "py_strip w = w" by (rule py_strip_id) (use wchar in blast)
  moreover have "after_scheme w = None" by (rule after_scheme_no_colon) (use wchar in blast)
  moreover have "w \<noteq> []" using assms(3) canonical_not_empty [OF can] by (auto simp: py_lower_def)
  moreover have "finish idna w = finish idna v" by (simp add: finish_def assms(3) [symmetric])
  ultimately show "normalize_domain idna w = normalize_domain idna v"
    by (subst normalize_finish) (simp add: finish_canonical [OF can] normalize_canonical [OF can])
qed

theorem normalize_url_is_host_witness:
  "normalize_domain (\<lambda>l. Idna_unicode_error) (''https://'' @ ''a.bc'' @ ''/'' @ ''x y'') =
     normalize_domain (\<lambda>l. Idna_unicode_error) ''a.bc'' \<and>
   normalize_domain (\<lambda>l. Idna_unicode_error) ''A.bC'' = normalize_domain (\<lambda>l. Idna_unicode_error) ''a.bc''"
proof -
  have "nd_is_valid (normalize_domain (\<lambda>l. Idna_unicode_error) ''a.bc'')"
    and "nd_value (normalize_domain (\<lambda>l. Idna_unicode_error) ''a.bc'') = ''a.bc''"
    and "py_lower ''A.bC'' = ''a.bc''" and "is_ascii ''A.bC''"
    by code_simp+
  from normalize_url_is_host [OF this] show ?thesis by blast
qed

subsection \<open>Deduplication keeps the first occurrences\<close>

lemma remdups_snoc: "remdups (xs @ [x]) = filter (\<lambda>y. y \<noteq> x) (remdups xs) @ [x]"
  by (induction xs) auto

lemma dedupe_from_valid:
  "\<forall>v \<in> set vs. nd_is_valid (normalize_domain idna v) \<and> nd_value (normalize_domain idna v) = v \<Longrightarrow>
   dedupe_from idna seen vs = filter (\<lambda>v. v \<notin> set seen) (rev (remdups (rev vs)))"
proof (induction vs arbitrary: seen)
  case Nil
  then show ?case by simp
next
  case (Cons v vs)
  have first: "rev (remdups (rev (v # vs))) = v # filter (\<lambda>y. y \<noteq> v) (rev (remdups (rev vs)))"
    by (simp add: remdups_snoc rev_filter)
  from Cons show ?case
    unfolding first by (auto simp: Let_def intro!: filter_cong)
qed

text \<open>
  Deduplicating accepted domains keeps the first occurrence of each, in order: the result has no
  duplicates and exactly the domains of the input.
\<close>

theorem deduplicate_keeps_first:
  assumes "\<forall>v \<in> set vs. nd_is_valid (normalize_domain idna v) \<and> nd_value (normalize_domain idna v) = v"
  shows "deduplicate_domains idna vs = rev (remdups (rev vs)) \<and>
    distinct (deduplicate_domains idna vs) \<and> set (deduplicate_domains idna vs) = set vs"
  using dedupe_from_valid [OF assms, of "[]"] by (simp add: deduplicate_domains_def)

theorem deduplicate_keeps_first_witness:
  "deduplicate_domains (\<lambda>l. Idna_unicode_error) [''a.b'', ''c.d'', ''a.b''] = [''a.b'', ''c.d'']"
proof -
  have "\<forall>v \<in> set [''a.b'', ''c.d'', ''a.b'']. nd_is_valid (normalize_domain (\<lambda>l. Idna_unicode_error) v) \<and>
      nd_value (normalize_domain (\<lambda>l. Idna_unicode_error) v) = v"
    by code_simp
  from deduplicate_keeps_first [OF this] show ?thesis by simp
qed

end
