(* ===== verification/Json.thy ===== *)
theory Json
  imports Py_Str
begin

section \<open>JSON, base64 and UTF-8 (the codecs of the standard library that the cursor uses)\<close>

text \<open>
  Texts here are lists of code points and byte strings lists of numbers below 256, because what a client sends
  is not limited to Latin-1. \<open>json_loads\<close> follows the scanner of CPython's \<open>json\<close> module, base64 the
  non-strict state machine of \<open>binascii\<close>. The parser of JSON is bounded by fuel: the length of the text is
  enough (\<open>json_loads_total\<close>).
\<close>

type_synonym points = "nat list"

definition cps :: "string \<Rightarrow> points" where
  "cps s = map of_char s"

lemma cps_append [simp]: "cps (s @ t) = cps s @ cps t"
  by (simp add: cps_def)

subsection \<open>UTF-8\<close>

fun utf8_point :: "nat \<Rightarrow> nat list" where
  "utf8_point c =
     (if c < 128 then [c]
      else if c < 2048 then [192 + c div 64, 128 + c mod 64]
      else if c < 65536 then [224 + c div 4096, 128 + c div 64 mod 64, 128 + c mod 64]
      else [240 + c div 262144, 128 + c div 4096 mod 64, 128 + c div 64 mod 64, 128 + c mod 64])"

definition utf8_encode :: "points \<Rightarrow> nat list" where
  "utf8_encode ps = concat (map utf8_point ps)"

definition continuation :: "nat \<Rightarrow> bool" where
  "continuation b \<longleftrightarrow> 128 \<le> b \<and> b < 192"

text \<open>The strict decoder: no overlong forms, no surrogates, nothing above U+10FFFF.\<close>

fun utf8_decode :: "nat list \<Rightarrow> points option" where
  "utf8_decode [] = Some []"
| "utf8_decode (a # as) =
     (if a < 128 then map_option ((#) a) (utf8_decode as)
      else if 194 \<le> a \<and> a < 224 then
        (case as of
           b # bs \<Rightarrow>
             if continuation b then map_option ((#) ((a - 192) * 64 + (b - 128))) (utf8_decode bs) else None
         | _ \<Rightarrow> None)
      else if 224 \<le> a \<and> a < 240 then
        (case as of
           b # c # cs \<Rightarrow>
             if continuation b \<and> continuation c \<and> (a = 224 \<longrightarrow> 160 \<le> b) \<and> (a = 237 \<longrightarrow> b < 160)
             then map_option ((#) ((a - 224) * 4096 + (b - 128) * 64 + (c - 128))) (utf8_decode cs) else None
         | _ \<Rightarrow> None)
      else if 240 \<le> a \<and> a < 245 then
        (case as of
           b # c # e # es \<Rightarrow>
             if continuation b \<and> continuation c \<and> continuation e \<and> (a = 240 \<longrightarrow> 144 \<le> b) \<and> (a = 244 \<longrightarrow> b < 144)
             then map_option ((#) ((a - 240) * 262144 + (b - 128) * 4096 + (c - 128) * 64 + (e - 128)))
                    (utf8_decode es)
             else None
         | _ \<Rightarrow> None)
      else None)"

lemma utf8_encode_ascii: "\<forall>c \<in> set ps. c < 128 \<Longrightarrow> utf8_encode ps = ps"
  by (induction ps) (simp_all add: utf8_encode_def)

lemma utf8_decode_ascii: "\<forall>c \<in> set bs. c < 128 \<Longrightarrow> utf8_decode bs = Some bs"
  by (induction bs) simp_all

subsection \<open>Base64, the URL-safe alphabet\<close>

text \<open>The encoder writes - and _; the decoder, which translates these two first, also takes + and /.\<close>

definition b64_char :: "nat \<Rightarrow> nat" where
  "b64_char i =
     (if i < 26 then 65 + i else if i < 52 then 71 + i else if i < 62 then i - 4 else if i = 62 then 45 else 95)"

definition b64_index :: "nat \<Rightarrow> nat option" where
  "b64_index c =
     (if 65 \<le> c \<and> c \<le> 90 then Some (c - 65) else if 97 \<le> c \<and> c \<le> 122 then Some (c - 71)
      else if 48 \<le> c \<and> c \<le> 57 then Some (c + 4)
      else if c = 45 \<or> c = 43 then Some 62 else if c = 95 \<or> c = 47 then Some 63 else None)"

fun b64_encode :: "nat list \<Rightarrow> nat list" where
  "b64_encode [] = []"
| "b64_encode [a] = [b64_char (a div 4), b64_char (a mod 4 * 16), 61, 61]"
| "b64_encode [a, b] = [b64_char (a div 4), b64_char (a mod 4 * 16 + b div 16), b64_char (b mod 16 * 4), 61]"
| "b64_encode (a # b # c # bs) =
     [b64_char (a div 4), b64_char (a mod 4 * 16 + b div 16), b64_char (b mod 16 * 4 + c div 64), b64_char (c mod 64)]
     @ b64_encode bs"

text \<open>
  The decoder: \<open>q\<close> is the position in the group of four, \<open>l\<close> the bits left over, \<open>p\<close> the number of padding
  characters. Characters outside the alphabet are skipped; a complete padding ends the input.
\<close>

fun b64_scan :: "nat \<Rightarrow> nat \<Rightarrow> nat \<Rightarrow> nat list \<Rightarrow> nat list option" where
  "b64_scan q l p [] = (if q = 0 then Some [] else None)"
| "b64_scan q l p (c # cs) =
     (if c = 61 then
        (if 2 \<le> q then (if 4 \<le> q + (p + 1) then Some [] else b64_scan q l (p + 1) cs) else b64_scan q l p cs)
      else
        (case b64_index c of
           None \<Rightarrow> b64_scan q l p cs
         | Some v \<Rightarrow>
             if q = 0 then b64_scan 1 v 0 cs
             else if q = 1 then map_option ((#) (l * 4 + v div 16)) (b64_scan 2 (v mod 16) 0 cs)
             else if q = 2 then map_option ((#) (l * 16 + v div 4)) (b64_scan 3 (v mod 4) 0 cs)
             else map_option ((#) (l * 64 + v)) (b64_scan 0 0 0 cs)))"

definition b64_decode :: "nat list \<Rightarrow> nat list option" where
  "b64_decode cs = b64_scan 0 0 0 cs"

lemma b64_index_char: "i < 64 \<Longrightarrow> b64_index (b64_char i) = Some i"
  unfolding b64_char_def b64_index_def by (auto split: if_splits)

lemma b64_char_no_pad: "b64_char i \<noteq> 61"
  by (auto simp: b64_char_def)

lemma b64_char_ascii: "b64_char i < 128"
  by (auto simp: b64_char_def)

lemma b64_encode_ascii: "\<forall>c \<in> set (b64_encode bs). c < 128"
  by (induction bs rule: b64_encode.induct) (simp_all add: b64_char_ascii)

lemma bits_low: "(a::nat) < 256 \<Longrightarrow> a div 4 < 64" "(b::nat) < 256 \<Longrightarrow> b div 16 < 16" "(c::nat) < 256 \<Longrightarrow> c div 64 < 4"
  by (simp_all add: less_mult_imp_div_less)

lemma bits_join:
  "(b::nat) < 256 \<Longrightarrow> a mod 4 * 16 + b div 16 < 64" "(c::nat) < 256 \<Longrightarrow> b mod 16 * 4 + c div 64 < 64"
  "(b::nat) < 256 \<Longrightarrow> (a mod 4 * 16 + b div 16) div 16 = a mod 4"
  "(b::nat) < 256 \<Longrightarrow> (a mod 4 * 16 + b div 16) mod 16 = b div 16"
  "(c::nat) < 256 \<Longrightarrow> (b mod 16 * 4 + c div 64) div 4 = b mod 16"
  "(c::nat) < 256 \<Longrightarrow> (b mod 16 * 4 + c div 64) mod 4 = c div 64"
proof -
  have "a mod 4 < 4" "b mod 16 < 16" by simp_all
  then show "b < 256 \<Longrightarrow> a mod 4 * 16 + b div 16 < 64" "c < 256 \<Longrightarrow> b mod 16 * 4 + c div 64 < 64"
    using bits_low(2) [of b] bits_low(3) [of c] by linarith+
qed (use bits_low in simp_all)

lemma b64_scan_encode:
  "\<forall>b \<in> set bs. b < 256 \<Longrightarrow> b64_scan 0 l p (b64_encode bs) = Some bs"
proof (induction bs arbitrary: l p rule: b64_encode.induct)
  case 1
  then show ?case by simp
next
  case (2 a)
  have "a mod 4 * 16 < 64" using mod_less_divisor [of 4 a] by linarith
  with 2 show ?case by (simp add: b64_index_char b64_char_no_pad bits_low)
next
  case (3 a b)
  have "b mod 16 * 4 < 64" using mod_less_divisor [of 16 b] by linarith
  with 3 show ?case by (simp add: b64_index_char b64_char_no_pad bits_low bits_join)
next
  case (4 a b c bs)
  then show ?case by (simp add: b64_index_char b64_char_no_pad bits_low bits_join)
qed

lemma b64_round_trip: "\<forall>b \<in> set bs. b < 256 \<Longrightarrow> b64_decode (b64_encode bs) = Some bs"
  by (simp add: b64_decode_def b64_scan_encode)


subsection \<open>JSON values and their text\<close>

text \<open>The value of a number is of no use to any caller, so it is not kept.\<close>

datatype json = JNull | JBool bool | JNum | JStr points | JArr "json list" | JObj "(points \<times> json) list"

definition hex_char :: "nat \<Rightarrow> nat" where
  "hex_char i = (if i < 10 then 48 + i else 87 + i)"

text \<open>\<open>dumps\<close> with \<open>ensure_ascii\<close>: what is not printable ASCII is written as UTF-16 units.\<close>

definition utf16 :: "nat \<Rightarrow> nat list" where
  "utf16 c = (if c < 65536 then [c] else [55296 + (c - 65536) div 1024, 56320 + (c - 65536) mod 1024])"

definition u_escape :: "nat \<Rightarrow> points" where
  "u_escape u = [92, 117, hex_char (u div 4096), hex_char (u div 256 mod 16), hex_char (u div 16 mod 16), hex_char (u mod 16)]"

definition json_escape :: "nat \<Rightarrow> points" where
  "json_escape c =
     (if c = 34 then [92, 34] else if c = 92 then [92, 92] else if c = 10 then [92, 110]
      else if c = 13 then [92, 114] else if c = 9 then [92, 116] else if c = 12 then [92, 102]
      else if c = 8 then [92, 98] else if 32 \<le> c \<and> c \<le> 126 then [c]
      else concat (map u_escape (utf16 c)))"

definition dump_string :: "points \<Rightarrow> points" where
  "dump_string s = 34 # concat (map json_escape s) @ [34]"

text \<open>A dict of texts, with the separators \<open>","\<close> and \<open>":"\<close>.\<close>

fun dump_members :: "(points \<times> points) list \<Rightarrow> points" where
  "dump_members [] = []"
| "dump_members [(k, v)] = dump_string k @ 58 # dump_string v"
| "dump_members ((k, v) # kv # kvs) = dump_string k @ 58 # dump_string v @ 44 # dump_members (kv # kvs)"

definition json_dumps :: "(points \<times> points) list \<Rightarrow> points" where
  "json_dumps kvs = 123 # dump_members kvs @ [125]"

text \<open>A dict with one list of texts, with the same separators.\<close>

fun dump_items :: "points list \<Rightarrow> points" where
  "dump_items [] = []"
| "dump_items [s] = dump_string s"
| "dump_items (s # t # ts) = dump_string s @ 44 # dump_items (t # ts)"

definition json_dumps_list :: "points \<Rightarrow> points list \<Rightarrow> points" where
  "json_dumps_list k ss = 123 # dump_string k @ 58 # 91 # dump_items ss @ [93, 125]"

subsection \<open>The parser\<close>

datatype 'a parse = Parsed 'a points | Malformed | Out_of_fuel

definition json_space :: "nat \<Rightarrow> bool" where
  "json_space c \<longleftrightarrow> c = 32 \<or> c = 9 \<or> c = 10 \<or> c = 13"

definition skip_ws :: "points \<Rightarrow> points" where
  "skip_ws = dropWhile json_space"

fun expect :: "nat \<Rightarrow> points \<Rightarrow> points option" where
  "expect c [] = None"
| "expect c (x # xs) = (if x = c then Some xs else None)"

fun expect_all :: "points \<Rightarrow> points \<Rightarrow> points option" where
  "expect_all [] s = Some s"
| "expect_all (c # cs) s = (case expect c s of None \<Rightarrow> None | Some r \<Rightarrow> expect_all cs r)"

definition hex_digit :: "nat \<Rightarrow> nat option" where
  "hex_digit c =
     (if 48 \<le> c \<and> c \<le> 57 then Some (c - 48) else if 97 \<le> c \<and> c \<le> 102 then Some (c - 87)
      else if 65 \<le> c \<and> c \<le> 70 then Some (c - 55) else None)"

fun hex_value :: "nat \<Rightarrow> points \<Rightarrow> nat option" where
  "hex_value acc [] = Some acc"
| "hex_value acc (c # cs) = (case hex_digit c of None \<Rightarrow> None | Some v \<Rightarrow> hex_value (acc * 16 + v) cs)"

definition simple_escape :: "nat \<Rightarrow> nat option" where
  "simple_escape e =
     (if e = 34 \<or> e = 92 \<or> e = 47 then Some e else if e = 98 then Some 8 else if e = 102 then Some 12
      else if e = 110 then Some 10 else if e = 114 then Some 13 else if e = 116 then Some 9 else None)"

text \<open>The rest of a string after its opening quote, escapes resolved to units.\<close>

fun string_units :: "points \<Rightarrow> (nat list \<times> points) option" where
  "string_units [] = None"
| "string_units (c # cs) =
     (if c = 34 then Some ([], cs)
      else if c < 32 then None
      else if c = 92 then
        (case cs of
           [] \<Rightarrow> None
         | e # es \<Rightarrow>
             if e = 117 then
               (case es of
                  w # x # y # z # rest \<Rightarrow>
                    (case hex_value 0 [w, x, y, z] of
                       None \<Rightarrow> None
                     | Some u \<Rightarrow> map_option (\<lambda>(us, r). (u # us, r)) (string_units rest))
                | _ \<Rightarrow> None)
             else
               (case simple_escape e of
                  None \<Rightarrow> None
                | Some u \<Rightarrow> map_option (\<lambda>(us, r). (u # us, r)) (string_units es)))
      else map_option (\<lambda>(us, r). (c # us, r)) (string_units cs))"

definition high_surrogate :: "nat \<Rightarrow> bool" where
  "high_surrogate u \<longleftrightarrow> 55296 \<le> u \<and> u < 56320"

definition low_surrogate :: "nat \<Rightarrow> bool" where
  "low_surrogate u \<longleftrightarrow> 56320 \<le> u \<and> u < 57344"

fun join_surrogates :: "nat list \<Rightarrow> points" where
  "join_surrogates [] = []"
| "join_surrogates [u] = [u]"
| "join_surrogates (h # l # us) =
     (if high_surrogate h \<and> low_surrogate l
      then (65536 + (h - 55296) * 1024 + (l - 56320)) # join_surrogates us
      else h # join_surrogates (l # us))"

definition parse_string :: "points \<Rightarrow> points parse" where
  "parse_string s =
     (case string_units s of None \<Rightarrow> Malformed | Some (us, r) \<Rightarrow> Parsed (join_surrogates us) r)"

text \<open>
  A number: an optional minus, an integer without leading zeros, a fraction and an exponent if they are
  complete. An integer literal of more than 4300 digits is refused by \<open>int\<close>, with a \<open>ValueError\<close>.
\<close>

definition is_decimal :: "nat \<Rightarrow> bool" where
  "is_decimal c \<longleftrightarrow> 48 \<le> c \<and> c \<le> 57"

definition after_fraction :: "points \<Rightarrow> points" where
  "after_fraction s =
     (case s of
        c # d # ds \<Rightarrow> if c = 46 \<and> is_decimal d then dropWhile is_decimal ds else s
      | _ \<Rightarrow> s)"

definition after_exponent :: "points \<Rightarrow> points" where
  "after_exponent s =
     (case s of
        c # cs \<Rightarrow>
          if c = 101 \<or> c = 69 then
            (let ds = (case cs of x # xs \<Rightarrow> if x = 43 \<or> x = 45 then xs else cs | [] \<Rightarrow> cs) in
             case ds of d # rest \<Rightarrow> if is_decimal d then dropWhile is_decimal rest else s | [] \<Rightarrow> s)
          else s
      | [] \<Rightarrow> s)"

definition parse_number :: "points \<Rightarrow> json parse" where
  "parse_number s =
     (let t = (case expect 45 s of None \<Rightarrow> s | Some r \<Rightarrow> r) in
      case t of
        [] \<Rightarrow> Malformed
      | d # ds \<Rightarrow>
          if \<not> is_decimal d then Malformed
          else
            (let whole = (if d = 48 then [] else takeWhile is_decimal ds);
                 r = (if d = 48 then ds else dropWhile is_decimal ds);
                 r' = after_exponent (after_fraction r)
             in if r' = r \<and> 4300 < Suc (length whole) then Malformed else Parsed JNum r'))"

definition parse_literal :: "points \<Rightarrow> json parse" where
  "parse_literal s =
     (case expect_all (cps ''null'') s of Some r \<Rightarrow> Parsed JNull r | None \<Rightarrow>
      case expect_all (cps ''true'') s of Some r \<Rightarrow> Parsed (JBool True) r | None \<Rightarrow>
      case expect_all (cps ''false'') s of Some r \<Rightarrow> Parsed (JBool False) r | None \<Rightarrow>
      case expect_all (cps ''NaN'') s of Some r \<Rightarrow> Parsed JNum r | None \<Rightarrow>
      case expect_all (cps ''Infinity'') s of Some r \<Rightarrow> Parsed JNum r | None \<Rightarrow>
      case expect_all (cps ''-Infinity'') s of Some r \<Rightarrow> Parsed JNum r | None \<Rightarrow> parse_number s)"

fun map_parse :: "('a \<Rightarrow> 'b) \<Rightarrow> 'a parse \<Rightarrow> 'b parse" where
  "map_parse f (Parsed a r) = Parsed (f a) r"
| "map_parse f Malformed = Malformed"
| "map_parse f Out_of_fuel = Out_of_fuel"

fun json_value :: "nat \<Rightarrow> points \<Rightarrow> json parse"
  and json_members :: "nat \<Rightarrow> points \<Rightarrow> (points \<times> json) list parse"
  and json_items :: "nat \<Rightarrow> points \<Rightarrow> json list parse" where
  "json_value 0 s = Out_of_fuel"
| "json_value (Suc n) s =
     (case expect 34 s of Some r \<Rightarrow> map_parse JStr (parse_string r) | None \<Rightarrow>
      case expect 123 s of
        Some r \<Rightarrow>
          (case expect 125 (skip_ws r) of
             Some r' \<Rightarrow> Parsed (JObj []) r'
           | None \<Rightarrow> map_parse JObj (json_members n (skip_ws r)))
      | None \<Rightarrow>
      case expect 91 s of
        Some r \<Rightarrow>
          (case expect 93 (skip_ws r) of
             Some r' \<Rightarrow> Parsed (JArr []) r'
           | None \<Rightarrow> map_parse JArr (json_items n (skip_ws r)))
      | None \<Rightarrow> parse_literal s)"
| "json_members 0 s = Out_of_fuel"
| "json_members (Suc n) s =
     (case expect 34 s of
        None \<Rightarrow> Malformed
      | Some r \<Rightarrow>
          (case parse_string r of
             Malformed \<Rightarrow> Malformed
           | Out_of_fuel \<Rightarrow> Out_of_fuel
           | Parsed k r \<Rightarrow>
               (case expect 58 (skip_ws r) of
                  None \<Rightarrow> Malformed
                | Some r \<Rightarrow>
                    (case json_value n (skip_ws r) of
                       Malformed \<Rightarrow> Malformed
                     | Out_of_fuel \<Rightarrow> Out_of_fuel
                     | Parsed v r \<Rightarrow>
                         (case expect 125 (skip_ws r) of
                            Some r' \<Rightarrow> Parsed [(k, v)] r'
                          | None \<Rightarrow>
                              (case expect 44 (skip_ws r) of
                                 None \<Rightarrow> Malformed
                               | Some r' \<Rightarrow> map_parse ((#) (k, v)) (json_members n (skip_ws r'))))))))"
| "json_items 0 s = Out_of_fuel"
| "json_items (Suc n) s =
     (case json_value n s of
        Malformed \<Rightarrow> Malformed
      | Out_of_fuel \<Rightarrow> Out_of_fuel
      | Parsed v r \<Rightarrow>
          (case expect 93 (skip_ws r) of
             Some r' \<Rightarrow> Parsed [v] r'
           | None \<Rightarrow>
               (case expect 44 (skip_ws r) of
                  None \<Rightarrow> Malformed
                | Some r' \<Rightarrow> map_parse ((#) v) (json_items n (skip_ws r')))))"

definition json_loads :: "points \<Rightarrow> json parse" where
  "json_loads s =
     (if expect 65279 s \<noteq> None then Malformed
      else
        (case json_value (Suc (2 * length s)) (skip_ws s) of
           Parsed v r \<Rightarrow> if skip_ws r = [] then Parsed v [] else Malformed
         | res \<Rightarrow> res))"


subsection \<open>The fuel is enough\<close>

text \<open>A result that is not for want of fuel, and that takes at least one character.\<close>

fun takes :: "points \<Rightarrow> 'a parse \<Rightarrow> bool" where
  "takes s (Parsed a r) \<longleftrightarrow> length r < length s"
| "takes s Malformed \<longleftrightarrow> True"
| "takes s Out_of_fuel \<longleftrightarrow> False"

lemma takes_map [simp]: "takes s (map_parse f p) = takes s p"
  by (cases p) simp_all

lemma takes_mono: "takes r p \<Longrightarrow> length r \<le> length s \<Longrightarrow> takes s p"
  by (cases p) auto

lemma takes_cases: "takes s p \<Longrightarrow> p \<noteq> Out_of_fuel"
  by auto

lemma length_skip_ws: "length (skip_ws s) \<le> length s"
  by (simp add: skip_ws_def length_dropWhile_le)

lemma expect_length: "expect c s = Some r \<Longrightarrow> length s = Suc (length r)"
  by (cases s) (auto split: if_splits)

lemma expect_all_length: "expect_all cs s = Some r \<Longrightarrow> length s = length cs + length r"
  by (induction cs arbitrary: s) (auto split: option.splits dest: expect_length)

lemma string_units_length: "string_units s = Some (us, r) \<Longrightarrow> length r < length s"
proof (induction s arbitrary: us r rule: string_units.induct)
  case 1
  then show ?case by simp
next
  case (2 c cs)
  then show ?case
    by (fastforce split: if_splits list.splits option.splits)
qed

lemma parse_string_takes: "takes s (parse_string s)"
  by (auto simp: parse_string_def split: option.split dest: string_units_length)

lemma after_fraction_length: "length (after_fraction s) \<le> length s"
proof -
  have "length (dropWhile is_decimal ds) \<le> Suc (Suc (length ds))" for ds
    using length_dropWhile_le [of is_decimal ds] by linarith
  then show ?thesis by (auto simp: after_fraction_def split: list.split)
qed

lemma after_exponent_length: "length (after_exponent s) \<le> length s"
proof -
  have "length (dropWhile is_decimal ds) \<le> length ds + k" for ds k
    using length_dropWhile_le [of is_decimal ds] by linarith
  from this [of _ 2] this [of _ 3] show ?thesis
    by (auto simp: after_exponent_def Let_def numeral_eq_Suc split: list.split)
qed

lemma parse_number_takes: "takes s (parse_number s)"
proof -
  define t where "t = (case expect 45 s of None \<Rightarrow> s | Some r \<Rightarrow> r)"
  have t: "length t \<le> length s" by (auto simp: t_def split: option.split dest: expect_length)
  show ?thesis
  proof (cases t)
    case Nil
    then show ?thesis by (simp add: parse_number_def t_def [symmetric])
  next
    case (Cons d ds)
    define r where "r = (if d = 48 then ds else dropWhile is_decimal ds)"
    have "length r \<le> length ds" by (simp add: r_def length_dropWhile_le)
    then have "length (after_exponent (after_fraction r)) < length s"
      using after_exponent_length [of "after_fraction r"] after_fraction_length [of r] t Cons by simp
    then show ?thesis
      using Cons by (simp add: parse_number_def t_def [symmetric] r_def [symmetric] Let_def)
  qed
qed

lemma takes_literal:
  "cs \<noteq> [] \<Longrightarrow> takes s p \<Longrightarrow> takes s (case expect_all cs s of Some r \<Rightarrow> Parsed v r | None \<Rightarrow> p)"
  by (cases "expect_all cs s") (auto dest: expect_all_length)

lemma parse_literal_takes: "takes s (parse_literal s)"
  unfolding parse_literal_def by (intro takes_literal parse_number_takes) (simp_all add: cps_def)

lemma json_takes:
  "2 * length s < n \<Longrightarrow> takes s (json_value n s)"
  "2 * length s < n \<Longrightarrow> takes s (json_members n s)"
  "2 * length s + 1 < n \<Longrightarrow> takes s (json_items n s)"
proof (induction n s and n s and n s rule: json_value_json_members_json_items.induct)
  case (2 n s)
  have sub: "2 * length (skip_ws r) + 1 < n" "length (skip_ws r) \<le> length s"
    if "expect c s = Some r" for c r
    using expect_length [OF that] length_skip_ws [of r] "2.prems" by linarith+
  show ?case
  proof (cases "expect 34 s")
    case (Some r)
    then show ?thesis
      using takes_mono [OF parse_string_takes, of r s] expect_length [OF Some] by simp
  next
    case None
    note quote = None
    show ?thesis
    proof (cases "expect 123 s")
      case (Some r)
      show ?thesis
      proof (cases "expect 125 (skip_ws r)")
        case None
        then have "takes (skip_ws r) (json_members n (skip_ws r))"
          using "2.IH"(2) [OF quote Some None] sub [OF Some] by simp
        then show ?thesis using takes_mono sub(2) [OF Some] quote Some None by simp
      next
        case (Some r')
        then show ?thesis
          using expect_length [OF Some] sub(2) [OF \<open>expect 123 s = Some r\<close>] \<open>expect 123 s = Some r\<close> quote by simp
      qed
    next
      case None
      note brace = None
      show ?thesis
      proof (cases "expect 91 s")
        case (Some r)
        show ?thesis
        proof (cases "expect 93 (skip_ws r)")
          case None
          then have "takes (skip_ws r) (json_items n (skip_ws r))"
            using "2.IH"(1) [OF quote brace Some None] sub [OF Some] by simp
          then show ?thesis using takes_mono sub(2) [OF Some] quote brace Some None by simp
        next
          case (Some r')
          then show ?thesis
            using expect_length [OF Some] sub(2) [OF \<open>expect 91 s = Some r\<close>] \<open>expect 91 s = Some r\<close> quote brace by simp
        qed
      next
        case None
        with quote brace show ?thesis by (simp add: parse_literal_takes)
      qed
    qed
  qed
next
  case (4 n s)
  show ?case
  proof (cases "expect 34 s")
    case None
    then show ?thesis by simp
  next
    case (Some r0)
    note r0 = Some
    show ?thesis
    proof (cases "parse_string r0")
      case (Parsed k r1)
      have l1: "length r1 < length r0" using parse_string_takes [of r0] Parsed by simp
      show ?thesis
      proof (cases "expect 58 (skip_ws r1)")
        case (Some r2)
        have l2: "length (skip_ws r2) \<le> length r1"
          using expect_length [OF Some] length_skip_ws [of r1] length_skip_ws [of r2] by linarith
        then have l3: "2 * length (skip_ws r2) < n" "length (skip_ws r2) \<le> length s"
          using l1 expect_length [OF r0] "4.prems" by linarith+
        have val: "takes (skip_ws r2) (json_value n (skip_ws r2))"
          by (rule "4.IH"(1) [OF r0 Parsed Some l3(1)])
        show ?thesis
        proof (cases "json_value n (skip_ws r2)")
          case (Parsed v r3)
          note v = Parsed
          have l4: "length (skip_ws r3) < length (skip_ws r2)"
            using val v length_skip_ws [of r3] by simp
          show ?thesis
          proof (cases "expect 125 (skip_ws r3)")
            case (Some r4)
            then show ?thesis
              using expect_length [OF Some] l4 l3 r0 \<open>parse_string r0 = _\<close> \<open>expect 58 _ = _\<close> v by simp
          next
            case None
            note close = None
            show ?thesis
            proof (cases "expect 44 (skip_ws r3)")
              case None
              then show ?thesis using r0 \<open>parse_string r0 = _\<close> \<open>expect 58 _ = _\<close> v close by simp
            next
              case (Some r4)
              have l5: "2 * length (skip_ws r4) < n" "length (skip_ws r4) \<le> length s"
                using expect_length [OF Some] length_skip_ws [of r4] l4 l3 by linarith+
              have "takes (skip_ws r4) (json_members n (skip_ws r4))"
                by (rule "4.IH"(2) [OF r0 \<open>parse_string r0 = _\<close> \<open>expect 58 _ = _\<close> v close Some l5(1)])
              then show ?thesis
                using takes_mono l5(2) Some r0 \<open>parse_string r0 = _\<close> \<open>expect 58 _ = _\<close> v close by simp
            qed
          qed
        qed (use val r0 Parsed Some in simp_all)
      qed (use r0 Parsed in simp)
    qed (use r0 parse_string_takes [of r0] in simp_all)
  qed
next
  case (6 n s)
  have val: "takes s (json_value n s)" using "6.IH"(1) "6.prems" by simp
  show ?case
  proof (cases "json_value n s")
    case (Parsed v r)
    note v = Parsed
    have l: "length (skip_ws r) < length s" using val v length_skip_ws [of r] by simp
    show ?thesis
    proof (cases "expect 93 (skip_ws r)")
      case (Some r')
      then show ?thesis using expect_length [OF Some] l v by simp
    next
      case None
      note close = None
      show ?thesis
      proof (cases "expect 44 (skip_ws r)")
        case None
        then show ?thesis using v close by simp
      next
        case (Some r')
        have l': "2 * length (skip_ws r') + 1 < n" "length (skip_ws r') \<le> length s"
          using expect_length [OF Some] length_skip_ws [of r'] l "6.prems" by linarith+
        have "takes (skip_ws r') (json_items n (skip_ws r'))"
          by (rule "6.IH"(2) [OF v close Some l'(1)])
        then show ?thesis using takes_mono l'(2) Some v close by simp
      qed
    qed
  qed (use val in simp_all)
qed simp_all

lemma json_loads_total: "json_loads s \<noteq> Out_of_fuel"
proof -
  have "2 * length (skip_ws s) < Suc (2 * length s)" using length_skip_ws [of s] by linarith
  from takes_cases [OF json_takes(1) [OF this]] show ?thesis
    by (simp add: json_loads_def split: parse.split)
qed


subsection \<open>Parsing what was written\<close>

text \<open>The code points of a text that is not made of surrogates.\<close>

definition scalar :: "nat \<Rightarrow> bool" where
  "scalar c \<longleftrightarrow> c < 1114112 \<and> \<not> high_surrogate c \<and> \<not> low_surrogate c"

lemma hex_digit_char: "i < 16 \<Longrightarrow> hex_digit (hex_char i) = Some i"
  by (auto simp: hex_digit_def hex_char_def)

lemma hex_value_escape:
  assumes "u < 65536"
  shows "hex_value 0 [hex_char (u div 4096), hex_char (u div 256 mod 16), hex_char (u div 16 mod 16), hex_char (u mod 16)] = Some u"
proof -
  have "u div 4096 < 16" using assms by (simp add: less_mult_imp_div_less)
  moreover have "u div 4096 = u div 256 div 16" "u div 256 = u div 16 div 16" by (simp_all add: div_mult2_eq [symmetric])
  then have "((u div 4096 * 16 + u div 256 mod 16) * 16 + u div 16 mod 16) * 16 + u mod 16 = u" by simp
  ultimately show ?thesis by (simp add: hex_digit_char)
qed

lemma utf16_small: "c < 1114112 \<Longrightarrow> \<forall>u \<in> set (utf16 c). u < 65536"
proof -
  assume "c < 1114112"
  then have "(c - 65536) div 1024 < 1024" by (simp add: less_mult_imp_div_less)
  moreover have "(c - 65536) mod 1024 < 1024" by simp
  ultimately show ?thesis by (auto simp: utf16_def)
qed

definition prepend_units :: "nat list \<Rightarrow> (nat list \<times> points) option \<Rightarrow> (nat list \<times> points) option" where
  "prepend_units us = map_option (\<lambda>(vs, r). (us @ vs, r))"

lemma string_units_u_escapes:
  "\<forall>u \<in> set us. u < 65536 \<Longrightarrow>
   string_units (concat (map u_escape us) @ t) = prepend_units us (string_units t)"
proof (induction us)
  case Nil
  then show ?case by (cases "string_units t") (simp_all add: prepend_units_def)
next
  case (Cons u us)
  have "string_units (u_escape u @ r) = map_option (\<lambda>(us, r). (u # us, r)) (string_units r)" for r
    using hex_value_escape [of u] Cons.prems by (simp add: u_escape_def)
  with Cons show ?case by (cases "string_units t") (simp_all add: prepend_units_def case_prod_beta')
qed

lemma string_units_escape:
  assumes "c < 1114112"
  shows "string_units (json_escape c @ t) = prepend_units (utf16 c) (string_units t)"
proof (cases "c \<in> {34, 92, 10, 13, 9, 12, 8} \<or> 32 \<le> c \<and> c \<le> 126")
  case True
  then show ?thesis
    by (auto simp: json_escape_def prepend_units_def utf16_def simple_escape_def case_prod_beta' intro!: map_option_cong)
next
  case False
  then have "json_escape c = concat (map u_escape (utf16 c))" by (auto simp: json_escape_def)
  with string_units_u_escapes [OF utf16_small [OF assms]] show ?thesis by simp
qed

lemma string_units_dump:
  "\<forall>c \<in> set s. c < 1114112 \<Longrightarrow>
   string_units (concat (map json_escape s) @ 34 # r) = Some (concat (map utf16 s), r)"
  by (induction s) (simp_all add: string_units_escape prepend_units_def)

text \<open>A text of code points below 65536 ends where its closing quote stands, so lists are written injectively.\<close>

lemma dump_string_inj:
  assumes "dump_string s @ r = dump_string t @ r'" and "\<forall>c \<in> set s \<union> set t. c < 65536"
  shows "s = t \<and> r = r'"
proof -
  have units: "string_units (concat (map json_escape x) @ 34 # y) = Some (x, y)" if "\<forall>c \<in> set x. c < 65536" for x y
  proof -
    have "concat (map utf16 x) = x" using that by (induction x) (simp_all add: utf16_def)
    with that show ?thesis using string_units_dump [of x y] by fastforce
  qed
  from assms(1) have "concat (map json_escape s) @ 34 # r = concat (map json_escape t) @ 34 # r'"
    by (simp add: dump_string_def)
  then have "string_units (concat (map json_escape s) @ 34 # r) = string_units (concat (map json_escape t) @ 34 # r')"
    by simp
  with assms(2) show ?thesis by (simp add: units)
qed

lemma dump_items_head: "dump_items (s # ss) @ r = dump_string s @ (if ss = [] then r else 44 # dump_items ss @ r)"
  by (cases ss) simp_all

lemma dump_items_inj:
  "dump_items ss @ 93 # r = dump_items ts @ 93 # r' \<Longrightarrow>
   \<forall>s \<in> set ss \<union> set ts. \<forall>c \<in> set s. c < 65536 \<Longrightarrow> ss = ts"
proof (induction ss arbitrary: ts)
  case Nil
  then show ?case by (cases ts) (simp_all add: dump_items_head dump_string_def)
next
  case (Cons s ss)
  show ?case
  proof (cases ts)
    case Nil
    with Cons.prems(1) show ?thesis by (simp add: dump_items_head dump_string_def)
  next
    case (Cons t ts')
    let ?rest = "\<lambda>us v. if us = [] then 93 # v else 44 # dump_items us @ 93 # v"
    from Cons.prems(1) have "dump_string s @ ?rest ss r = dump_string t @ ?rest ts' r'"
      by (simp only: Cons dump_items_head)
    moreover have "\<forall>c \<in> set s \<union> set t. c < 65536" using Cons.prems(2) Cons by (simp add: ball_Un)
    ultimately have eq: "s = t" and rest: "?rest ss r = ?rest ts' r'" using dump_string_inj by blast+
    show ?thesis
    proof (cases "ss = [] \<or> ts' = []")
      case True
      with rest eq Cons show ?thesis by (auto split: if_splits)
    next
      case False
      with rest have "dump_items ss @ 93 # r = dump_items ts' @ 93 # r'" by simp
      with Cons.IH [OF this] Cons.prems(2) Cons eq show ?thesis by simp
    qed
  qed
qed

lemma json_dumps_list_inj:
  assumes "json_dumps_list k ss = json_dumps_list k ts" and "\<forall>s \<in> set ss \<union> set ts. \<forall>c \<in> set s. c < 65536"
  shows "ss = ts"
proof -
  from assms(1) have "dump_items ss @ 93 # [125] = dump_items ts @ 93 # [125]" by (simp add: json_dumps_list_def)
  with assms(2) show ?thesis by (blast intro: dump_items_inj)
qed

lemma json_escape_ascii: "c < 1114112 \<Longrightarrow> \<forall>x \<in> set (json_escape c). x < 128"
proof -
  assume c: "c < 1114112"
  have hex: "hex_char i < 128" if "i < 16" for i using that by (simp add: hex_char_def)
  have "\<forall>x \<in> set (u_escape u). x < 128" if "u < 65536" for u
  proof -
    have "u div 4096 < 16" using that by (simp add: less_mult_imp_div_less)
    then show ?thesis by (simp add: u_escape_def hex)
  qed
  then show ?thesis using utf16_small [OF c] by (auto simp: json_escape_def)
qed

lemma dump_string_ascii: "\<forall>c \<in> set s. c < 1114112 \<Longrightarrow> \<forall>x \<in> set (dump_string s). x < 128"
  using json_escape_ascii by (fastforce simp: dump_string_def)

lemma json_dumps_list_ascii:
  assumes "\<forall>s \<in> set (k # ss). \<forall>c \<in> set s. c < 1114112"
  shows "\<forall>x \<in> set (json_dumps_list k ss). x < 128"
proof -
  have "\<forall>s \<in> set ss. \<forall>c \<in> set s. c < 1114112 \<Longrightarrow> \<forall>x \<in> set (dump_items ss). x < 128"
    by (induction ss rule: dump_items.induct) (use dump_string_ascii in fastforce)+
  with assms dump_string_ascii [of k] show ?thesis by (auto simp: json_dumps_list_def)
qed

lemma join_no_high: "\<not> high_surrogate c \<Longrightarrow> join_surrogates (c # us) = c # join_surrogates us"
  by (cases us) simp_all

lemma join_utf16: "\<forall>c \<in> set s. scalar c \<Longrightarrow> join_surrogates (concat (map utf16 s)) = s"
proof (induction s)
  case Nil
  then show ?case by simp
next
  case (Cons c cs)
  let ?us = "concat (map utf16 cs)"
  show ?case
  proof (cases "c < 65536")
    case True
    have "join_surrogates (c # ?us) = c # join_surrogates ?us"
      using Cons.prems by (intro join_no_high) (simp add: scalar_def)
    moreover have "utf16 c = [c]" using True by (simp add: utf16_def)
    ultimately show ?thesis using Cons by simp
  next
    case False
    let ?d = "c - 65536"
    have "c < 1114112" using Cons.prems by (simp add: scalar_def)
    then have "?d < 1024 * 1024" by linarith
    then have "?d div 1024 < 1024" by (rule less_mult_imp_div_less)
    then have "high_surrogate (55296 + ?d div 1024)" "low_surrogate (56320 + ?d mod 1024)"
      by (simp_all add: high_surrogate_def low_surrogate_def)
    moreover have "65536 + ?d div 1024 * 1024 + ?d mod 1024 = c" using False by simp
    moreover have "utf16 c = [55296 + ?d div 1024, 56320 + ?d mod 1024]" using False by (simp add: utf16_def)
    ultimately show ?thesis using Cons by simp
  qed
qed

lemma parse_string_dump:
  "\<forall>c \<in> set s. scalar c \<Longrightarrow> parse_string (concat (map json_escape s) @ 34 # r) = Parsed s r"
  using string_units_dump [of s r] join_utf16 [of s] by (auto simp: parse_string_def scalar_def)

abbreviation scalars :: "points \<times> points \<Rightarrow> bool" where
  "scalars kv \<equiv> (\<forall>c \<in> set (fst kv). scalar c) \<and> (\<forall>c \<in> set (snd kv). scalar c)"

lemma skip_ws_head: "\<not> json_space c \<Longrightarrow> skip_ws (c # s) = c # s"
  by (simp add: skip_ws_def)

lemma punctuation [simp]:
  "skip_ws (34 # s) = 34 # s" "skip_ws (58 # s) = 58 # s" "skip_ws (44 # s) = 44 # s"
  "skip_ws (125 # s) = 125 # s" "skip_ws (123 # s) = 123 # s" "skip_ws [] = []"
  by (simp_all add: skip_ws_def json_space_def)

lemma json_value_string:
  "0 < n \<Longrightarrow> \<forall>c \<in> set v. scalar c \<Longrightarrow>
   json_value n (34 # concat (map json_escape v) @ 34 # r) = Parsed (JStr v) r"
  by (cases n) (simp_all add: parse_string_dump)

lemma json_members_dump:
  "kvs \<noteq> [] \<Longrightarrow> \<forall>kv \<in> set kvs. scalars kv \<Longrightarrow> length kvs < n \<Longrightarrow>
   json_members n (dump_members kvs @ 125 # r) = Parsed (map (\<lambda>(k, v). (k, JStr v)) kvs) r"
proof (induction kvs arbitrary: n rule: dump_members.induct)
  case 1
  then show ?case by simp
next
  case (2 k v)
  then obtain m where "n = Suc m" and "0 < m" by (cases n) auto
  with 2 show ?case by (simp add: dump_string_def parse_string_dump json_value_string)
next
  case (3 k v kv kvs)
  then obtain m where n: "n = Suc m" "0 < m" by (cases n) auto
  obtain rest where rest: "dump_members (kv # kvs) = 34 # rest"
    by (cases kv; cases kvs) (simp_all add: dump_string_def)
  have "json_members m (34 # rest @ 125 # r) = Parsed (map (\<lambda>(k, v). (k, JStr v)) (kv # kvs)) r"
    using "3.IH" [of m] "3.prems" n rest by simp
  with 3 n rest show ?case by (simp add: dump_string_def parse_string_dump json_value_string)
qed

lemma json_loads_dumps:
  assumes "kvs \<noteq> []" and "\<forall>kv \<in> set kvs. scalars kv"
  shows "json_loads (json_dumps kvs) = Parsed (JObj (map (\<lambda>(k, v). (k, JStr v)) kvs)) []"
proof -
  have len: "length kvs \<le> length (dump_members kvs)"
    using assms(1) by (induction kvs rule: dump_members.induct) (simp_all add: dump_string_def)
  obtain rest where head: "dump_members kvs = 34 # rest"
    using assms(1) by (cases kvs rule: dump_members.cases) (simp_all add: dump_string_def)
  have "json_members (2 * length (json_dumps kvs)) (dump_members kvs @ 125 # []) =
      Parsed (map (\<lambda>(k, v). (k, JStr v)) kvs) []"
    using assms len by (intro json_members_dump) (simp_all add: json_dumps_def)
  then show ?thesis by (simp add: json_loads_def json_dumps_def head)
qed

end
