(* ===== verification/Routes.thy ===== *)
theory Routes
  imports Detail_Repo Task_Queue Normalization Json "HOL-Library.List_Lexorder" "HOL-Library.Char_ord"
begin

section \<open>Creating a job (routes.py)\<close>

text \<open>
  \<open>create_job\<close> normalizes and deduplicates the domains of a request, and in one transaction writes the
  job, an idempotency record, the missing domains, and one task for each domain. Identifiers (\<open>uuid4\<close>),
  the clock, SHA-256, the order of iteration over a set and a failure of the commit are arguments.
\<close>

text \<open>The name of the domain with an identifier.\<close>

definition domain_name :: "uuid \<Rightarrow> db \<Rightarrow> string option" where
  "domain_name i d = map_option d_normalized_domain (get_domain i d)"

subsection \<open>Requests and responses\<close>

datatype http_exn = HTTP (http_status: nat) (http_detail: string)

record create_request =
  cr_domains :: "string list"
  cr_idempotency_key :: "string option"
  cr_client_id :: "string option"
  cr_request_id :: string

datatype create_response = Created uuid | Replayed uuid

record api_env =
  ae_shutting_down :: bool
  ae_max_domains :: nat
  ae_now :: timestamp
  ae_idna :: "string \<Rightarrow> idna_outcome"
  ae_sha256 :: "nat list \<Rightarrow> string"
  ae_set_order :: "string list \<Rightarrow> string list"
  ae_job_id :: uuid
  ae_record_id :: uuid
  ae_domain_id :: "nat \<Rightarrow> uuid"
  ae_task_id :: "nat \<Rightarrow> uuid"
  ae_commit_fault :: bool

definition truthy_header :: "string option \<Rightarrow> bool" where
  "truthy_header h \<longleftrightarrow> h \<noteq> None \<and> h \<noteq> Some []"

definition effective_client_id :: "create_request \<Rightarrow> string" where
  "effective_client_id req =
     (if truthy_header (cr_client_id req) then the (cr_client_id req) else cr_request_id req)"

text \<open>The hash of the canonical JSON text of the sorted normalized names; \<open>ae_sha256\<close> is the hex digest of bytes.\<close>

definition canonical_payload :: "string list \<Rightarrow> points" where
  "canonical_payload names = json_dumps_list (cps ''domains'') (map cps names)"

definition request_names :: "api_env \<Rightarrow> create_request \<Rightarrow> string list" where
  "request_names env req = map (\<lambda>d. nd_value (normalize_domain (ae_idna env) d)) (cr_domains req)"

definition request_text :: "api_env \<Rightarrow> create_request \<Rightarrow> nat list" where
  "request_text env req = utf8_encode (canonical_payload (sort (request_names env req)))"

definition compute_request_hash :: "api_env \<Rightarrow> create_request \<Rightarrow> string" where
  "compute_request_hash env req = ae_sha256 env (request_text env req)"

subsection \<open>The job and its idempotency record\<close>

definition new_job :: "uuid \<Rightarrow> timestamp \<Rightarrow> job" where
  "new_job i now = \<lparr>j_id = i, j_status = PENDING, j_created_at = now, j_updated_at = now\<rparr>"

definition new_record :: "api_env \<Rightarrow> create_request \<Rightarrow> string \<Rightarrow> idempotency_record" where
  "new_record env req key =
     \<lparr>ir_id = ae_record_id env, ir_client_id = effective_client_id req, ir_idempotency_key = key,
      ir_request_hash = compute_request_hash env req, ir_job_id = ae_job_id env,
      ir_created_at = ae_now env\<rparr>"

text \<open>
  An exception of the handler's \<open>try\<close> block is an \<open>HTTPException\<close> (\<open>Inl\<close>) or any other (\<open>Inr\<close>).
\<close>

type_synonym handler_exn = "http_exn + exn"

text \<open>The savepoint: both rows or none; the result is the job to use and whether it is a replay.\<close>

definition create_job_with_key ::
  "api_env \<Rightarrow> create_request \<Rightarrow> string \<Rightarrow> db \<Rightarrow> handler_exn + (uuid \<times> bool \<times> db)" where
  "create_job_with_key env req key w =
     (case (case create_job_row (new_job (ae_job_id env) (ae_now env)) w of
              Inl e \<Rightarrow> Inl e
            | Inr w1 \<Rightarrow> create_idem (new_record env req key) w1) of
        Inr w2 \<Rightarrow> Inr (ae_job_id env, False, w2)
      | Inl e \<Rightarrow>
          (case get_idem (effective_client_id req) key w of
             None \<Rightarrow> Inl (Inr e)
           | Some r \<Rightarrow>
               if ir_request_hash r = compute_request_hash env req
               then Inr (ir_job_id r, True, w)
               else Inl (Inl (HTTP 409
                      ''Idempotency key already used with different payload (conflict)''))))"

definition create_or_replay ::
  "api_env \<Rightarrow> create_request \<Rightarrow> db \<Rightarrow> handler_exn + (uuid \<times> bool \<times> db)" where
  "create_or_replay env req w =
     (case cr_idempotency_key req of
        Some (c # cs) \<Rightarrow> create_job_with_key env req (c # cs) w
      | _ \<Rightarrow>
          (case create_job_row (new_job (ae_job_id env) (ae_now env)) w of
             Inl e \<Rightarrow> Inl (Inr e)
           | Inr w1 \<Rightarrow> Inr (ae_job_id env, False, w1)))"

subsection \<open>Domains and tasks\<close>

definition final_valid_domains :: "(string \<Rightarrow> idna_outcome) \<Rightarrow> normalized_domain list \<Rightarrow> string list" where
  "final_valid_domains idna valid =
     (if valid \<noteq> [] then
        filter (\<lambda>v. v \<in> nd_value ` set valid) (deduplicate_domains idna (map nd_value valid))
      else [])"

definition stored_name :: "normalized_domain \<Rightarrow> string" where
  "stored_name r = (if nd_value r \<noteq> [] then nd_value r else ''invalid'')"

text \<open>The missing domains, in the order of iteration over the set of names.\<close>

fun missing_domains :: "(nat \<Rightarrow> uuid) \<Rightarrow> timestamp \<Rightarrow> nat \<Rightarrow> domain list \<Rightarrow> string list \<Rightarrow> domain list" where
  "missing_domains ids now n known [] = []"
| "missing_domains ids now n known (name # names) =
     (if name \<in> d_normalized_domain ` set known then missing_domains ids now n known names
      else
        (let dm = new_domain (ids n) name now
         in dm # missing_domains ids now (Suc n) (known @ [dm]) names))"

text \<open>The reactivation loop over the accepted domains: the changed rows and their identifiers.\<close>

fun reactivate_all :: "timestamp \<Rightarrow> domain list \<Rightarrow> string list \<Rightarrow> db \<Rightarrow> uuid list \<times> db" where
  "reactivate_all now known [] w = ([], w)"
| "reactivate_all now known (name # names) w =
     (case find_by d_normalized_domain name known of
        None \<Rightarrow> reactivate_all now known names w
      | Some dm \<Rightarrow>
          if \<not> d_is_active dm then
            (let (ids, w') = reactivate_all now known names (put_domain (reactivate now dm) w)
             in (d_id dm # ids, w'))
          else reactivate_all now known names w)"

definition user_task ::
  "uuid \<Rightarrow> uuid \<Rightarrow> uuid \<Rightarrow> timestamp \<Rightarrow> task_status \<Rightarrow> error_payload option \<Rightarrow> task" where
  "user_task i job_id domain_id now st payload =
     \<lparr>t_id = i, t_job_id = Some job_id, t_domain_id = domain_id, t_type = USER_REQUEST, t_status = st,
      t_attempts = 0, t_next_attempt_at = now, t_lease_expires_at = None, t_error_payload = payload,
      t_created_at = now, t_updated_at = now\<rparr>"

definition validation_payload :: "normalized_domain \<Rightarrow> error_payload" where
  "validation_payload r =
     \<lparr>ep_code = ''VALIDATION_ERROR'',
      ep_message = (case nd_error r of
                      None \<Rightarrow> ''Domain validation failed''
                    | Some e \<Rightarrow> if e = [] then ''Domain validation failed'' else e),
      ep_retryable = False\<rparr>"

text \<open>A task for each name with its status and error; a name without a domain would be a KeyError.\<close>

fun build_tasks ::
  "(nat \<Rightarrow> uuid) \<Rightarrow> nat \<Rightarrow> uuid \<Rightarrow> timestamp \<Rightarrow> domain list
     \<Rightarrow> (string \<times> task_status \<times> error_payload option) list \<Rightarrow> exn + task list" where
  "build_tasks ids n job_id now known [] = Inr []"
| "build_tasks ids n job_id now known ((name, st, payload) # rest) =
     (case find_by d_normalized_domain name known of
        None \<Rightarrow> Inl (Exn OtherError name)
      | Some dm \<Rightarrow>
          (case build_tasks ids (Suc n) job_id now known rest of
             Inl e \<Rightarrow> Inl e
           | Inr ts \<Rightarrow> Inr (user_task (ids n) job_id (d_id dm) now st payload # ts)))"

definition task_specs ::
  "string list \<Rightarrow> normalized_domain list \<Rightarrow> (string \<times> task_status \<times> error_payload option) list" where
  "task_specs valid invalid =
     map (\<lambda>v. (v, PENDING, None)) valid @
     map (\<lambda>r. (stored_name r, FAILED, Some (validation_payload r))) invalid"

text \<open>The work after the lookup; \<open>existing\<close> is what the lookup returned.\<close>

definition write_domains_and_tasks ::
  "api_env \<Rightarrow> uuid \<Rightarrow> string list \<Rightarrow> normalized_domain list \<Rightarrow> domain list \<Rightarrow> db \<Rightarrow> exn + db" where
  "write_domains_and_tasks env job_id valid invalid existing w =
     (let names = ae_set_order env (remdups (valid @ map stored_name invalid));
          new = missing_domains (ae_domain_id env) (ae_now env) 0 existing names;
          known = existing @ new
      in case create_domain_batch new w of
           Inl e \<Rightarrow> Inl e
         | Inr w1 \<Rightarrow>
             (let (ids, w2) = reactivate_all (ae_now env) known valid w1;
                  w3 = clear_domain_details_batch ids w2
              in case build_tasks (ae_task_id env) 0 job_id (ae_now env) known (task_specs valid invalid) of
                   Inl e \<Rightarrow> Inl e
                 | Inr ts \<Rightarrow> create_task_batch ts w3))"

definition look_up_domains :: "api_env \<Rightarrow> string list \<Rightarrow> normalized_domain list \<Rightarrow> db \<Rightarrow> domain list" where
  "look_up_domains env valid invalid w =
     get_by_normalized_domains (ae_set_order env (remdups (valid @ map stored_name invalid))) w"

definition create_domains_and_tasks ::
  "api_env \<Rightarrow> uuid \<Rightarrow> string list \<Rightarrow> normalized_domain list \<Rightarrow> db \<Rightarrow> exn + db" where
  "create_domains_and_tasks env job_id valid invalid w =
     write_domains_and_tasks env job_id valid invalid (look_up_domains env valid invalid w) w"

subsection \<open>The handler\<close>

text \<open>The accepted names and the rejected results of a request, as the handler computes them.\<close>

definition accepted :: "api_env \<Rightarrow> create_request \<Rightarrow> string list" where
  "accepted env req =
     final_valid_domains (ae_idna env)
       (filter nd_is_valid (map (normalize_domain (ae_idna env)) (cr_domains req)))"

definition refused :: "api_env \<Rightarrow> create_request \<Rightarrow> normalized_domain list" where
  "refused env req =
     filter (\<lambda>r. \<not> nd_is_valid r) (map (normalize_domain (ae_idna env)) (cr_domains req))"

definition try_create :: "api_env \<Rightarrow> create_request \<Rightarrow> db \<Rightarrow> handler_exn + (create_response \<times> db)" where
  "try_create env req w =
     (let valid = accepted env req; invalid = refused env req
      in case create_or_replay env req w of
           Inl e \<Rightarrow> Inl e
         | Inr (job_id, replay, w1) \<Rightarrow>
             (case (if replay then Inr w1 else create_domains_and_tasks env job_id valid invalid w1) of
                Inl e \<Rightarrow> Inl (Inr e)
              | Inr w2 \<Rightarrow>
                  if ae_commit_fault env then Inl (Inr (Exn OperationalError ''commit failed''))
                  else Inr (if replay then Replayed job_id else Created job_id, w2)))"

text \<open>The checks before the session is used.\<close>

definition refusal :: "api_env \<Rightarrow> create_request \<Rightarrow> http_exn option" where
  "refusal env req =
     (if ae_shutting_down env then Some (HTTP 503 ''Service is shutting down'')
      else if cr_domains req = [] then Some (HTTP 400 ''domains list cannot be empty'')
      else if length (cr_domains req) > ae_max_domains env then
        Some (HTTP 413 (''maximum '' @ digits_of (ae_max_domains env) @ '' domains per request''))
      else None)"

text \<open>
  The \<open>try\<close> block and its handlers; \<open>committed\<close> is the database without the work of this session when it ends.
\<close>

definition answered ::
  "(db \<Rightarrow> handler_exn + (create_response \<times> db)) \<Rightarrow> db \<Rightarrow> db \<Rightarrow> (http_exn + create_response) \<times> db" where
  "answered body committed d =
     (case body (s_work (open_session d)) of
        Inl (Inl http) \<Rightarrow> (Inl http, close_session (rollback (open_session committed)))
      | Inl (Inr e) \<Rightarrow> (Inl (HTTP 500 ''failed to create job''), close_session (rollback (open_session committed)))
      | Inr (resp, w) \<Rightarrow> (Inr resp, close_session (commit ((open_session d)\<lparr>s_work := w\<rparr>))))"

definition create_job :: "api_env \<Rightarrow> create_request \<Rightarrow> db \<Rightarrow> (http_exn + create_response) \<times> db" where
  "create_job env req d =
     (case refusal env req of
        Some http \<Rightarrow> (Inl http, d)
      | None \<Rightarrow> answered (try_create env req) d d)"

subsection \<open>All or nothing\<close>

lemma session_results [simp]:
  "close_session (rollback (open_session d)) = d"
  "close_session (commit ((open_session d)\<lparr>s_work := w\<rparr>)) = w"
  "s_work (open_session d) = d"
  by (simp_all add: open_session_def rollback_def commit_def close_session_def)

lemma create_job_success:
  assumes "create_job env req d = (Inr resp, d')"
  shows "try_create env req d = Inr (resp, d')" "\<not> ae_shutting_down env" "cr_domains req \<noteq> []"
    "length (cr_domains req) \<le> ae_max_domains env"
  using assms by (auto simp: create_job_def refusal_def answered_def Let_def split: if_splits sum.splits prod.splits)

lemma create_job_failure:
  "create_job env req d = (Inl e, d') \<Longrightarrow> d' = d"
  by (auto simp: create_job_def refusal_def answered_def Let_def split: if_splits sum.splits prod.splits)

lemma schema_ok_reactivate_all:
  "schema_ok w \<Longrightarrow> \<forall>dm \<in> set known. \<exists>dm0. get_domain (d_id dm) w = Some dm0 \<and>
     d_normalized_domain dm0 = d_normalized_domain dm \<Longrightarrow>
   reactivate_all now known names w = (ids, w') \<Longrightarrow>
   schema_ok w' \<and> db_tasks w' = db_tasks w \<and> db_jobs w' = db_jobs w \<and>
   db_idem w' = db_idem w \<and> d_id ` set (db_domains w') = d_id ` set (db_domains w) \<and>
   (\<forall>dm \<in> set known. map_option d_normalized_domain (get_domain (d_id dm) w') =
      Some (d_normalized_domain dm))"
proof (induction names arbitrary: w ids)
  case Nil
  then show ?case by fastforce
next
  case (Cons name names)
  show ?case
  proof (cases "find_by d_normalized_domain name known")
    case None
    with Cons.prems Cons.IH [OF Cons.prems(1,2)] show ?thesis by simp
  next
    case (Some dm)
    then have dm: "dm \<in> set known" by (auto dest: find_by_SomeD)
    show ?thesis
    proof (cases "d_is_active dm")
      case True
      with Some Cons.prems(3) have "reactivate_all now known names w = (ids, w')" by simp
      from Cons.IH [OF Cons.prems(1,2) this] show ?thesis .
    next
      case False
      let ?w = "put_domain (reactivate now dm) w"
      from Cons.prems(2) dm obtain dm0 where dm0: "get_domain (d_id dm) w = Some dm0"
        "d_normalized_domain dm0 = d_normalized_domain dm" by blast
      have sch: "schema_ok ?w"
        using dm0 by (intro schema_ok_put_domain [OF Cons.prems(1), of _ dm0]) simp_all
      have known: "\<forall>x \<in> set known. \<exists>x0. get_domain (d_id x) ?w = Some x0 \<and>
          d_normalized_domain x0 = d_normalized_domain x"
      proof
        fix x assume x: "x \<in> set known"
        with Cons.prems(2) obtain x0 where x0: "get_domain (d_id x) w = Some x0"
          "d_normalized_domain x0 = d_normalized_domain x" by blast
        show "\<exists>x0. get_domain (d_id x) ?w = Some x0 \<and> d_normalized_domain x0 = d_normalized_domain x"
        proof (cases "d_id x = d_id dm")
          case True
          then have "d_normalized_domain x = d_normalized_domain dm" using x0 dm0 by simp
          then show ?thesis
            using True dm0 domain_rows.get_put_same [of "reactivate now dm" w] by simp
        next
          case False
          then show ?thesis using x0 domain_rows.get_put_other [of "d_id x" "reactivate now dm" w] by simp
        qed
      qed
      obtain ids1 w1 where rec: "reactivate_all now known names ?w = (ids1, w1)" by fastforce
      with Cons.prems(3) Some False have w1: "w1 = w'" by (simp add: Let_def)
      with Cons.IH [OF sch known rec [unfolded w1]] show ?thesis by simp
    qed
  qed
qed

lemma build_tasks_shape:
  "build_tasks ids n j now known specs = Inr ts \<Longrightarrow>
   \<forall>dm \<in> set known. name_of (d_id dm) = Some (d_normalized_domain dm) \<Longrightarrow>
   (\<forall>t \<in> set ts. \<exists>i k st p. t = user_task i j k now st p) \<and>
   map (\<lambda>t. (name_of (t_domain_id t), t_status t, t_error_payload t)) ts =
     map (\<lambda>(name, st, p). (Some name, st, p)) specs"
proof (induction specs arbitrary: n ts)
  case Nil
  then show ?case by simp
next
  case (Cons s specs)
  obtain name st p where s: "s = (name, st, p)" by (cases s)
  from Cons.prems(1) obtain dm ts' where dm: "find_by d_normalized_domain name known = Some dm"
    and ts: "ts = user_task (ids n) j (d_id dm) now st p # ts'"
    and rec: "build_tasks ids (Suc n) j now known specs = Inr ts'"
    by (auto simp: s split: option.splits sum.splits)
  from find_by_SomeD [OF dm] Cons.prems(2) have "name_of (d_id dm) = Some name" by auto
  with Cons.IH [OF rec Cons.prems(2)] show ?case
    by (auto simp: ts s user_task_def)
qed

lemma create_domains_and_tasks_effect:
  assumes "schema_ok w" and "create_domains_and_tasks env j valid invalid w = Inr w'"
  shows "schema_ok w' \<and> db_jobs w' = db_jobs w \<and> db_idem w' = db_idem w \<and>
    (\<exists>ts. db_tasks w' = db_tasks w @ ts \<and>
       (\<forall>t \<in> set ts. \<exists>i k st p. t = user_task i j k (ae_now env) st p) \<and>
       map (\<lambda>t. (domain_name (t_domain_id t) w', t_status t, t_error_payload t)) ts =
         map (\<lambda>(name, st, p). (Some name, st, p)) (task_specs valid invalid))"
proof -
  define names where "names = ae_set_order env (remdups (valid @ map stored_name invalid))"
  define existing where "existing = get_by_normalized_domains names w"
  define new where "new = missing_domains (ae_domain_id env) (ae_now env) 0 existing names"
  define known where "known = existing @ new"
  obtain w1 ids w2 ts where w1: "create_domain_batch new w = Inr w1"
    and w2: "reactivate_all (ae_now env) known valid w1 = (ids, w2)"
    and ts: "build_tasks (ae_task_id env) 0 j (ae_now env) known (task_specs valid invalid) = Inr ts"
    and w': "create_task_batch ts (clear_domain_details_batch ids w2) = Inr w'"
    using assms(2)
    by (auto simp: create_domains_and_tasks_def write_domains_and_tasks_def look_up_domains_def Let_def names_def [symmetric] existing_def [symmetric]
        new_def [symmetric] known_def [symmetric] split: sum.splits prod.splits)
  note eq1 = create_domain_batch_InrD [OF w1]
  have s1: "schema_ok w1" by (rule schema_ok_create_domain_batch [OF assms(1) w1])
  have "dm \<in> set (db_domains w1)" if "dm \<in> set known" for dm
    using that by (auto simp: known_def eq1 existing_def get_by_normalized_domains_def split: if_splits)
  then have "\<forall>dm \<in> set known. \<exists>dm0. get_domain (d_id dm) w1 = Some dm0 \<and>
      d_normalized_domain dm0 = d_normalized_domain dm"
    using s1 by (auto simp: get_domain_def schema_ok_def keys_ok_def find_by_member)
  note r = schema_ok_reactivate_all [OF s1 this w2]
  have s3: "schema_ok (clear_domain_details_batch ids w2)"
    using r by (simp add: schema_ok_clear_batch)
  have "schema_ok w'" by (rule schema_ok_create_task_batch [OF s3 w'])
  moreover have w'_eq: "w' = (clear_domain_details_batch ids w2)\<lparr>db_tasks := db_tasks w2 @ ts\<rparr>"
    using create_task_batch_InrD [OF w'] by (simp add: clear_domain_details_batch_def)
  moreover have names: "\<forall>dm \<in> set known. domain_name (d_id dm) w' = Some (d_normalized_domain dm)"
    using r by (simp add: w'_eq domain_name_def get_domain_def clear_domain_details_batch_def)
  ultimately show ?thesis
    using r build_tasks_shape [OF ts names] eq1 by (auto simp: clear_domain_details_batch_def)
qed

lemma create_or_replay_cases:
  assumes "create_or_replay env req w = Inr (j, replay, w1)"
  shows "(replay \<and> w1 = w \<and> (\<exists>key r. cr_idempotency_key req = Some key \<and> key \<noteq> [] \<and>
           get_idem (effective_client_id req) key w = Some r \<and>
           ir_request_hash r = compute_request_hash env req \<and> ir_job_id r = j)) \<or>
    (\<not> replay \<and> j = ae_job_id env \<and>
       (\<exists>w0. create_job_row (new_job j (ae_now env)) w = Inr w0 \<and>
         (w1 = w0 \<and> \<not> truthy_header (cr_idempotency_key req) \<or>
          (\<exists>key. cr_idempotency_key req = Some key \<and> key \<noteq> [] \<and>
             create_idem (new_record env req key) w0 = Inr w1))))"
  using assms
  by (auto simp: create_or_replay_def create_job_with_key_def truthy_header_def
      split: option.splits list.splits sum.splits if_splits)

lemma try_create_Created:
  assumes "schema_ok d" and "try_create env req d = Inr (Created j, d')"
  obtains w1 where "create_or_replay env req d = Inr (j, False, w1)" and "schema_ok w1"
    and "create_domains_and_tasks env j
           (accepted env req)
           (refused env req) w1 = Inr d'"
    and "db_tasks w1 = db_tasks d" and "db_jobs w1 = db_jobs d @ [new_job j (ae_now env)]"
proof -
  from assms(2) obtain w1 where w1: "create_or_replay env req d = Inr (j, False, w1)"
    and rest: "create_domains_and_tasks env j
           (accepted env req)
           (refused env req) w1 = Inr d'"
    by (auto simp: try_create_def accepted_def refused_def Let_def split: sum.splits prod.splits if_splits)
  from create_or_replay_cases [OF w1] obtain w0 where w0: "create_job_row (new_job j (ae_now env)) d = Inr w0"
    and or: "w1 = w0 \<or> (\<exists>r. create_idem r w0 = Inr w1)" by blast
  have "schema_ok w0" by (rule schema_ok_create_job_row [OF assms(1) w0])
  then have "schema_ok w1" using or schema_ok_create_idem by blast
  moreover have "db_tasks w0 = db_tasks d" "db_jobs w0 = db_jobs d @ [new_job j (ae_now env)]"
    using w0 by (auto simp: create_job_row_def split: if_splits)
  then have "db_tasks w1 = db_tasks d" "db_jobs w1 = db_jobs d @ [new_job j (ae_now env)]"
    using or by (auto dest: create_idem_InrD(1))
  ultimately show thesis using that w1 rest by blast
qed


definition demo_api :: api_env where
  "demo_api =
     \<lparr>ae_shutting_down = False, ae_max_domains = 10, ae_now = 50, ae_idna = Idna_ok,
      ae_sha256 = map char_of, ae_set_order = (\<lambda>xs. xs), ae_job_id = 100, ae_record_id = 200,
      ae_domain_id = (\<lambda>n. 300 + n), ae_task_id = (\<lambda>n. 400 + n), ae_commit_fault = False\<rparr>"

definition demo_request :: create_request where
  "demo_request =
     \<lparr>cr_domains = [''Example.com '', ''b.org'', ''a..b''], cr_idempotency_key = Some ''k1'',
      cr_client_id = Some ''c1'', cr_request_id = ''r1''\<rparr>"

lemma demo_create:
  "fst (create_job demo_api demo_request empty_db) = Inr (Created 100)"
  by code_simp


subsection \<open>Idempotency\<close>

lemma create_with_taken_key:
  assumes taken: "get_idem (effective_client_id req) key d = Some r"
    and key: "cr_idempotency_key req = Some key" "key \<noteq> []"
  shows "create_or_replay env req d =
    (if ir_request_hash r = compute_request_hash env req then Inr (ir_job_id r, True, d)
     else Inl (Inl (HTTP 409 ''Idempotency key already used with different payload (conflict)'')))"
proof -
  obtain c cs where k: "key = c # cs" using key(2) by (cases key) auto
  have "(effective_client_id req, key) \<in> idem_key ` set (db_idem d)"
    using taken find_by_None [of idem_key "(effective_client_id req, key)" "db_idem d"]
    by (simp add: get_idem_def)
  then obtain e where "(case create_job_row (new_job (ae_job_id env) (ae_now env)) d of
      Inl e \<Rightarrow> Inl e | Inr w1 \<Rightarrow> create_idem (new_record env req (c # cs)) w1) = Inl e"
    by (auto simp: k create_job_row_def create_idem_def new_record_def idem_key_def)
  then show ?thesis
    using taken key(1) by (simp add: create_or_replay_def create_job_with_key_def k)
qed

lemma Created_key_recorded:
  assumes "schema_ok d" and "create_job env req d = (Inr (Created j), d')"
    and "cr_idempotency_key req = Some key" and "key \<noteq> []"
  shows "get_idem (effective_client_id req) key d' = Some (new_record env req key) \<and> j = ae_job_id env"
proof -
  from create_job_success(1) [OF assms(2)] have run: "try_create env req d = Inr (Created j, d')" .
  from try_create_Created [OF assms(1) run] obtain w1 where
    w1: "create_or_replay env req d = Inr (j, False, w1)" "schema_ok w1"
    and rest: "create_domains_and_tasks env j (accepted env req) (refused env req) w1 = Inr d'"
    by metis
  from create_or_replay_cases [OF w1(1)] assms(3,4) obtain w0 where
    j: "j = ae_job_id env" and idem: "create_idem (new_record env req key) w0 = Inr w1"
    by (auto simp: truthy_header_def)
  have "new_record env req key \<in> set (db_idem w1)"
    using create_idem_InrD(1) [OF idem] by simp
  moreover have "db_idem d' = db_idem w1" "schema_ok d'"
    using create_domains_and_tasks_effect [OF w1(2) rest] by auto
  ultimately have "find_by idem_key (idem_key (new_record env req key)) (db_idem d') =
      Some (new_record env req key)"
    by (intro find_by_member) (auto simp: schema_ok_def keys_ok_def)
  then show ?thesis using j by (simp add: get_idem_def idem_key_def new_record_def)
qed

text \<open>The canonical text forgets the order of the names and nothing else.\<close>

lemma request_text_eq:
  "request_text env req = request_text env' req' \<longleftrightarrow> mset (request_names env req) = mset (request_names env' req')"
proof -
  have small: "of_char c < (1114112::nat)" "of_char c < (65536::nat)" for c
    using nat_of_char_less_256 [of c] by linarith+
  have plain: "utf8_encode (canonical_payload xs) = canonical_payload xs" for xs
  proof -
    have "\<forall>s \<in> set (cps ''domains'' # map cps xs). \<forall>c \<in> set s. c < 1114112"
      unfolding cps_def by (simp add: small)
    from utf8_encode_ascii [OF json_dumps_list_ascii [OF this]] show ?thesis
      by (simp only: canonical_payload_def)
  qed
  have "canonical_payload xs = canonical_payload ys \<longleftrightarrow> xs = ys" for xs ys
  proof
    assume eq: "canonical_payload xs = canonical_payload ys"
    have "\<forall>s \<in> set (map cps xs) \<union> set (map cps ys). \<forall>c \<in> set s. c < 65536"
      unfolding cps_def by (auto simp: small)
    from json_dumps_list_inj [OF eq [unfolded canonical_payload_def] this]
    have "map cps xs = map cps ys" .
    moreover have "inj cps" by (simp add: inj_def cps_def inj_map_eq_map [OF inj_of_char])
    ultimately show "xs = ys" by (simp add: inj_map_eq_map)
  qed simp
  then have "request_text env req = request_text env' req' \<longleftrightarrow>
      sort (request_names env req) = sort (request_names env' req')"
    by (simp add: request_text_def plain)
  also have "\<dots> \<longleftrightarrow> mset (request_names env req) = mset (request_names env' req')"
    by (metis mset_sort properties_for_sort sorted_sort)
  finally show ?thesis .
qed

text \<open>
  C12. A retry is safe: after a request with an idempotency key has created a job, a later request of
  the same client with the same key, at any database that still has the record of the first, never
  creates anything. If its normalized domains are the same up to order it is answered with the same job; if
  they are not, the hashed texts differ, and it is answered with 409 unless SHA-256 maps both to one digest.
\<close>

theorem idempotent_retry:
  assumes "schema_ok d" and "create_job env req d = (Inr (Created j), d')"
    and "cr_idempotency_key req = Some key" and "key \<noteq> []"
    and "get_idem (effective_client_id req) key d2 = get_idem (effective_client_id req) key d'"
    and "cr_idempotency_key req2 = Some key" and "effective_client_id req2 = effective_client_id req"
    and "\<not> ae_shutting_down env2" and "cr_domains req2 \<noteq> []"
    and "length (cr_domains req2) \<le> ae_max_domains env2"
    and "ae_sha256 env2 = ae_sha256 env"
  shows "snd (create_job env2 req2 d2) = d2 \<and>
    (if mset (request_names env2 req2) = mset (request_names env req)
     then \<not> ae_commit_fault env2 \<longrightarrow> fst (create_job env2 req2 d2) = Inr (Replayed j)
     else request_text env2 req2 \<noteq> request_text env req \<and>
       (ae_sha256 env (request_text env2 req2) \<noteq> ae_sha256 env (request_text env req) \<longrightarrow>
          (\<exists>msg. fst (create_job env2 req2 d2) = Inl (HTTP 409 msg))))"
proof -
  have rec: "get_idem (effective_client_id req2) key d2 = Some (new_record env req key)"
    and j: "j = ae_job_id env"
    using Created_key_recorded [OF assms(1-4)] assms(5,7) by simp_all
  note step = create_with_taken_key [OF rec assms(6,4), of env2]
  have hash: "ir_request_hash (new_record env req key) = ae_sha256 env (request_text env req)"
    "ir_job_id (new_record env req key) = j"
    by (simp_all add: new_record_def j compute_request_hash_def)
  show ?thesis
  proof (cases "mset (request_names env2 req2) = mset (request_names env req)")
    case True
    then have "request_text env2 req2 = request_text env req" by (simp add: request_text_eq)
    with step True assms(8-11) show ?thesis
      by (auto simp: create_job_def refusal_def answered_def try_create_def hash compute_request_hash_def)
  next
    case False
    then have "request_text env2 req2 \<noteq> request_text env req" by (simp add: request_text_eq)
    with step False assms(8-11) show ?thesis
      by (auto simp: create_job_def refusal_def answered_def try_create_def hash compute_request_hash_def)
  qed
qed

theorem idempotent_retry_witness:
  "\<exists>d'. create_job demo_api demo_request empty_db = (Inr (Created 100), d') \<and>
     create_job demo_api (demo_request\<lparr>cr_domains := [''a..b'', ''example.com'', ''B.org'']\<rparr>) d' =
       (Inr (Replayed 100), d')"
proof -
  let ?req2 = "demo_request\<lparr>cr_domains := [''a..b'', ''example.com'', ''B.org'']\<rparr>"
  obtain d' where run: "create_job demo_api demo_request empty_db = (Inr (Created 100), d')"
    using demo_create by (metis prod.collapse)
  have ms: "mset (request_names demo_api ?req2) = mset (request_names demo_api demo_request)"
    by code_simp
  have "snd (create_job demo_api ?req2 d') = d' \<and>
      fst (create_job demo_api ?req2 d') = Inr (Replayed 100)"
    using idempotent_retry [OF schema_ok_empty run, of "''k1''" d' ?req2 demo_api] ms
    by (simp add: demo_request_def demo_api_def effective_client_id_def)
  with run show ?thesis by (metis prod.collapse)
qed

text \<open>
  C15. Without a client identifier a retry is not recognised: the identifier of the request stands in for it, and
  the retry has another one. It is never answered with the job of the first request, nor refused because of it;
  the record it looks for is not there.
\<close>

theorem anonymous_retry_not_recognised:
  assumes "schema_ok d" and "create_job env req d = (Inr (Created j), d')"
    and "cr_idempotency_key req = Some key" and "key \<noteq> []" and "cr_idempotency_key req2 = Some key"
    and "\<not> truthy_header (cr_client_id req)" and "\<not> truthy_header (cr_client_id req2)"
    and "cr_request_id req2 \<noteq> cr_request_id req"
    and "get_idem (cr_request_id req2) key d = None"
  shows "get_idem (effective_client_id req2) key d' = None \<and>
    (\<forall>env2 k msg. fst (create_job env2 req2 d') \<noteq> Inr (Replayed k) \<and>
       fst (create_job env2 req2 d') \<noteq> Inl (HTTP 409 msg))"
proof -
  from create_job_success(1) [OF assms(2)] have run: "try_create env req d = Inr (Created j, d')" .
  from try_create_Created [OF assms(1) run] obtain w1 where
    w1: "create_or_replay env req d = Inr (j, False, w1)" "schema_ok w1"
    and rest: "create_domains_and_tasks env j (accepted env req) (refused env req) w1 = Inr d'"
    by metis
  from create_or_replay_cases [OF w1(1)] assms(3,4) obtain w0 where
    job: "create_job_row (new_job j (ae_now env)) d = Inr w0" and idem: "create_idem (new_record env req key) w0 = Inr w1"
    by (auto simp: truthy_header_def)
  have rows: "db_idem d' = db_idem d @ [new_record env req key]"
    using create_idem_InrD(1) [OF idem] job create_domains_and_tasks_effect [OF w1(2) rest]
    by (auto simp: create_job_row_def split: if_splits)
  have other: "effective_client_id req2 = cr_request_id req2" "effective_client_id req = cr_request_id req"
    using assms(6,7) by (simp_all add: effective_client_id_def)
  have none: "get_idem (effective_client_id req2) key d' = None"
    using assms(8,9) by (auto simp: get_idem_def rows other find_by_None new_record_def idem_key_def)
  have "create_or_replay env2 req2 d' \<noteq> Inr (k, True, w)" "create_or_replay env2 req2 d' \<noteq> Inl (Inl h)"
    for env2 k w h
    using none assms(4,5)
    by (auto simp: create_or_replay_def create_job_with_key_def split: option.splits list.splits sum.splits if_splits)
  then have "try_create env2 req2 d' \<noteq> Inr (Replayed k, w)" "try_create env2 req2 d' \<noteq> Inl (Inl h)" for env2 k w h
    by (auto simp: try_create_def Let_def split: sum.splits prod.splits if_splits)
  then have "fst (create_job env2 req2 d') \<noteq> Inr (Replayed k)" "fst (create_job env2 req2 d') \<noteq> Inl (HTTP 409 msg)"
    for env2 k msg
    by (auto simp: create_job_def refusal_def answered_def split: if_splits sum.splits prod.splits)
  with none show ?thesis by blast
qed

theorem anonymous_retry_not_recognised_witness:
  "\<exists>d'. create_job demo_api (demo_request\<lparr>cr_client_id := None\<rparr>) empty_db = (Inr (Created 100), d') \<and>
     fst (create_job demo_api (demo_request\<lparr>cr_client_id := None, cr_request_id := ''r2''\<rparr>) d') \<noteq> Inr (Replayed 100)"
proof -
  let ?req = "demo_request\<lparr>cr_client_id := None\<rparr>"
  have "fst (create_job demo_api ?req empty_db) = Inr (Created 100)" by code_simp
  then obtain d' where run: "create_job demo_api ?req empty_db = (Inr (Created 100), d')" by (metis prod.collapse)
  from anonymous_retry_not_recognised [OF schema_ok_empty run, of "''k1''" "?req\<lparr>cr_request_id := ''r2''\<rparr>"]
  have "fst (create_job demo_api (?req\<lparr>cr_request_id := ''r2''\<rparr>) d') \<noteq> Inr (Replayed 100)"
    by (simp add: demo_request_def truthy_header_def get_idem_def empty_db_def row_simps)
  with run show ?thesis by auto
qed

subsection \<open>Two requests at the same time\<close>

text \<open>
  Under READ COMMITTED every statement sees what other transactions have committed before it. The domains are
  looked up by one statement and inserted by a later one; \<open>others\<close> are the domains another request commits in
  between.
\<close>

definition commit_domains :: "domain list \<Rightarrow> db \<Rightarrow> db" where
  "commit_domains others d = d\<lparr>db_domains := db_domains d @ others\<rparr>"

definition try_create_raced ::
  "api_env \<Rightarrow> create_request \<Rightarrow> domain list \<Rightarrow> db \<Rightarrow> handler_exn + (create_response \<times> db)" where
  "try_create_raced env req others w =
     (let valid = accepted env req; invalid = refused env req
      in case create_or_replay env req w of
           Inl e \<Rightarrow> Inl e
         | Inr (job_id, replay, w1) \<Rightarrow>
             (case (if replay then Inr (commit_domains others w1)
                    else write_domains_and_tasks env job_id valid invalid (look_up_domains env valid invalid w1)
                           (commit_domains others w1)) of
                Inl e \<Rightarrow> Inl (Inr e)
              | Inr w2 \<Rightarrow>
                  if ae_commit_fault env then Inl (Inr (Exn OperationalError ''commit failed''))
                  else Inr (if replay then Replayed job_id else Created job_id, w2)))"

definition create_job_raced ::
  "api_env \<Rightarrow> create_request \<Rightarrow> domain list \<Rightarrow> db \<Rightarrow> (http_exn + create_response) \<times> db" where
  "create_job_raced env req others d =
     (case refusal env req of
        Some http \<Rightarrow> (Inl http, commit_domains others d)
      | None \<Rightarrow> answered (try_create_raced env req others) (commit_domains others d) d)"

lemma missing_domains_member:
  "name \<in> set names \<Longrightarrow> name \<notin> d_normalized_domain ` set known \<Longrightarrow>
   name \<in> d_normalized_domain ` set (missing_domains ids now n known names)"
proof (induction names arbitrary: n known)
  case Nil
  then show ?case by simp
next
  case (Cons m names)
  show ?case
  proof (cases "name = m")
    case True
    with Cons.prems show ?thesis by (simp add: Let_def new_domain_def)
  next
    case False
    with Cons show ?thesis by (auto simp: Let_def new_domain_def)
  qed
qed

lemma create_domain_batch_taken:
  "dm \<in> set dms \<Longrightarrow> d_normalized_domain dm \<in> d_normalized_domain ` set (db_domains w) \<Longrightarrow>
   create_domain_batch dms w = Inl integrity_error"
  by (induction dms arbitrary: w) (auto simp: create_domain_def)

lemma raced_insert_fails:
  assumes "\<And>xs. set (ae_set_order env xs) = set xs"
    and "name \<in> set valid \<union> stored_name ` set invalid"
    and "name \<notin> d_normalized_domain ` set (db_domains w)" and "name \<in> d_normalized_domain ` set others"
  shows "write_domains_and_tasks env j valid invalid (look_up_domains env valid invalid w) (commit_domains others w) =
    Inl integrity_error"
proof -
  define names where "names = ae_set_order env (remdups (valid @ map stored_name invalid))"
  define existing where "existing = get_by_normalized_domains names w"
  define new where "new = missing_domains (ae_domain_id env) (ae_now env) 0 existing names"
  have "name \<in> set names" using assms(1,2) by (simp add: names_def)
  moreover have "name \<notin> d_normalized_domain ` set existing"
    using assms(3) by (auto simp: existing_def get_by_normalized_domains_def split: if_splits)
  ultimately have "name \<in> d_normalized_domain ` set new"
    unfolding new_def by (rule missing_domains_member)
  then obtain dm where "dm \<in> set new" "d_normalized_domain dm = name" by blast
  with assms(4) have "create_domain_batch new (commit_domains others w) = Inl integrity_error"
    by (intro create_domain_batch_taken [of dm]) (auto simp: commit_domains_def)
  then show ?thesis
    by (simp add: write_domains_and_tasks_def look_up_domains_def Let_def names_def [symmetric]
        existing_def [symmetric] new_def [symmetric])
qed

text \<open>
  C14. Two requests for the same new domain collide: if the request alone would create its job, but another
  transaction commits one of the domains it is missing between its lookup and its insert, the unique
  constraint fails, the client gets 500 and nothing of the request is written.
\<close>

theorem concurrent_new_domain_fails:
  assumes "fst (create_job env req d) = Inr (Created j)" and "\<And>xs. set (ae_set_order env xs) = set xs"
    and "name \<in> set (accepted env req) \<union> stored_name ` set (refused env req)"
    and "name \<notin> d_normalized_domain ` set (db_domains d)" and "name \<in> d_normalized_domain ` set others"
  shows "create_job_raced env req others d =
    (Inl (HTTP 500 ''failed to create job''), commit_domains others d)"
proof -
  obtain d' where run: "create_job env req d = (Inr (Created j), d')" using assms(1) by (metis prod.collapse)
  have pass: "refusal env req = None"
    using create_job_success(2-4) [OF run] by (simp add: refusal_def)
  from create_job_success(1) [OF run] obtain w1 where w1: "create_or_replay env req d = Inr (j, False, w1)"
    by (auto simp: try_create_def Let_def split: sum.splits prod.splits if_splits)
  from create_or_replay_cases [OF w1] have "db_domains w1 = db_domains d"
    by (auto simp: create_job_row_def create_idem_def split: if_splits)
  with raced_insert_fails [OF assms(2,3), of w1 others j] assms(4,5)
  have "try_create_raced env req others d = Inl (Inr integrity_error)"
    by (simp add: try_create_raced_def w1 Let_def)
  then show ?thesis by (simp add: create_job_raced_def pass answered_def)
qed

theorem concurrent_new_domain_fails_witness:
  "create_job_raced demo_api demo_request [new_domain 900 ''b.org'' 49] empty_db =
     (Inl (HTTP 500 ''failed to create job''), commit_domains [new_domain 900 ''b.org'' 49] empty_db)"
proof (rule concurrent_new_domain_fails [OF demo_create])
  show "set (ae_set_order demo_api xs) = set xs" for xs by (simp add: demo_api_def)
  show "''b.org'' \<in> set (accepted demo_api demo_request) \<union> stored_name ` set (refused demo_api demo_request)"
    by code_simp
qed (simp_all add: empty_db_def new_domain_def)

end
