(* ===== verification/Calendar.thy ===== *)
theory Calendar
  imports Py_Str
begin

section \<open>Dates and times (the part of datetime the cursor uses)\<close>

text \<open>
  The instant of an aware datetime is its number of microseconds since 0001-01-01T00:00:00+00:00, the first
  one Python has; the fields of the datetime in UTC are computed from it and give it back. Years go from 1 to
  9999.
\<close>

subsection \<open>The calendar\<close>

definition is_leap :: "nat \<Rightarrow> bool" where
  "is_leap y \<longleftrightarrow> y mod 4 = 0 \<and> (y mod 100 \<noteq> 0 \<or> y mod 400 = 0)"

definition days_in_month :: "nat \<Rightarrow> nat \<Rightarrow> nat" where
  "days_in_month y m =
     (if m = 2 then (if is_leap y then 29 else 28) else if m \<in> {4, 6, 9, 11} then 30 else 31)"

definition days_in_year :: "nat \<Rightarrow> nat" where
  "days_in_year y = (if is_leap y then 366 else 365)"

fun days_before_month :: "nat \<Rightarrow> nat \<Rightarrow> nat" where
  "days_before_month y 0 = 0"
| "days_before_month y (Suc m) = (if m = 0 then 0 else days_before_month y m + days_in_month y m)"

definition days_before_year :: "nat \<Rightarrow> nat" where
  "days_before_year y = (let x = y - 1 in x * 365 + x div 4 + x div 400 - x div 100)"

definition ymd2ord :: "nat \<Rightarrow> nat \<Rightarrow> nat \<Rightarrow> nat" where
  "ymd2ord y m d = days_before_year y + days_before_month y m + d"

function find_year :: "nat \<Rightarrow> nat \<Rightarrow> nat \<times> nat" where
  "find_year y n = (if n < days_in_year y then (y, n) else find_year (Suc y) (n - days_in_year y))"
  by pat_completeness auto

termination find_year
  by (relation "measure snd") (auto simp: days_in_year_def split: if_splits)

function find_month :: "nat \<Rightarrow> nat \<Rightarrow> nat \<Rightarrow> nat \<times> nat" where
  "find_month y m n =
     (if 12 \<le> m \<or> n < days_in_month y m then (m, Suc n) else find_month y (Suc m) (n - days_in_month y m))"
  by pat_completeness auto

termination find_month
  by (relation "measure (\<lambda>(y, m, n). 12 - m)") auto

declare find_year.simps [simp del] find_month.simps [simp del]

definition ord2ymd :: "nat \<Rightarrow> nat \<times> nat \<times> nat" where
  "ord2ymd n =
     (let (y, r) = find_year 1 (n - 1); (m, d) = find_month y 1 r in (y, m, d))"

lemma days_before_next_year: "0 < y \<Longrightarrow> days_before_year (Suc y) = days_before_year y + days_in_year y"
proof -
  assume "0 < y"
  then obtain x where y: "y = Suc x" by (cases y) auto
  have "x div 100 \<le> x div 4" by (rule div_le_mono2) simp_all
  then obtain k where k: "x div 4 = x div 100 + k" using le_Suc_ex by blast
  have "Suc x mod 400 = 0 \<Longrightarrow> Suc x mod 100 = 0" "Suc x mod 100 = 0 \<Longrightarrow> Suc x mod 4 = 0"
    by (presburger, presburger)
  then show ?thesis
    by (cases "Suc x mod 400 = 0"; cases "Suc x mod 100 = 0"; cases "Suc x mod 4 = 0")
      (simp_all add: y days_before_year_def Let_def days_in_year_def is_leap_def div_Suc k)
qed

lemma find_year_correct:
  "find_year y n = (y', n') \<Longrightarrow> 0 < y \<Longrightarrow>
   days_before_year y' + n' = days_before_year y + n \<and> n' < days_in_year y' \<and> y \<le> y'"
proof (induction y n arbitrary: y' n' rule: find_year.induct)
  case (1 y n)
  show ?case
  proof (cases "n < days_in_year y")
    case True
    with "1.prems" show ?thesis by (simp add: find_year.simps [of y n])
  next
    case False
    with "1.prems" have "find_year (Suc y) (n - days_in_year y) = (y', n')" by (simp add: find_year.simps [of y n])
    from "1.IH" [OF False this] False "1.prems"(2) show ?thesis by (simp add: days_before_next_year)
  qed
qed

lemma months_of_year: "days_before_month y 12 + days_in_month y 12 = days_in_year y"
  by (simp add: numeral_eq_Suc days_in_month_def days_in_year_def)

lemma find_month_correct:
  "find_month y m n = (m', d) \<Longrightarrow> 0 < m \<Longrightarrow> m \<le> 12 \<Longrightarrow> days_before_month y m + n < days_in_year y \<Longrightarrow>
   days_before_month y m' + d = Suc (days_before_month y m + n) \<and> m \<le> m' \<and> m' \<le> 12 \<and>
   0 < d \<and> d \<le> days_in_month y m'"
proof (induction y m n arbitrary: m' d rule: find_month.induct)
  case (1 y m n)
  show ?case
  proof (cases "12 \<le> m \<or> n < days_in_month y m")
    case True
    have "n < days_in_month y m"
    proof (cases "m = 12")
      case True
      with "1.prems"(4) months_of_year [of y] show ?thesis by simp
    qed (use True "1.prems"(3) in auto)
    moreover from True "1.prems"(1) have "m' = m" "d = Suc n" by (simp_all add: find_month.simps [of y m n])
    ultimately show ?thesis using "1.prems"(3) by simp
  next
    case False
    with "1.prems"(1) have "find_month y (Suc m) (n - days_in_month y m) = (m', d)"
      by (simp add: find_month.simps [of y m n])
    from "1.IH" [OF False this] False "1.prems"(2-4) show ?thesis by auto
  qed
qed

lemma ord2ymd_correct:
  assumes "ord2ymd (Suc n) = (y, m, d)"
  shows "ymd2ord y m d = Suc n" "0 < y" "0 < m" "m \<le> 12" "0 < d" "d \<le> days_in_month y m"
    "days_before_year y \<le> n"
proof -
  obtain y' r where y: "find_year 1 n = (y', r)" by fastforce
  obtain m' d' where m: "find_month y' 1 r = (m', d')" by fastforce
  have eq: "y' = y" "m' = m" "d' = d" using assms y m by (simp_all add: ord2ymd_def)
  from find_year_correct [OF y] have yr: "days_before_year y + r = n" "r < days_in_year y" "1 \<le> y"
    by (simp_all add: eq days_before_year_def)
  from find_month_correct [OF m] yr(2)
  have md: "days_before_month y m + d = Suc r" "1 \<le> m" "m \<le> 12" "0 < d" "d \<le> days_in_month y m"
    by (simp_all add: eq)
  show "ymd2ord y m d = Suc n" using yr md by (simp add: ymd2ord_def)
  show "0 < y" "0 < m" "m \<le> 12" "0 < d" "d \<le> days_in_month y m" "days_before_year y \<le> n"
    using yr md by simp_all
qed

subsection \<open>The fields of an instant\<close>

record py_datetime =
  dt_year :: nat
  dt_month :: nat
  dt_day :: nat
  dt_hour :: nat
  dt_minute :: nat
  dt_second :: nat
  dt_microsecond :: nat

definition datetime_ok :: "py_datetime \<Rightarrow> bool" where
  "datetime_ok f \<longleftrightarrow>
     1 \<le> dt_year f \<and> dt_year f \<le> 9999 \<and> 1 \<le> dt_month f \<and> dt_month f \<le> 12 \<and>
     1 \<le> dt_day f \<and> dt_day f \<le> days_in_month (dt_year f) (dt_month f) \<and>
     dt_hour f < 24 \<and> dt_minute f < 60 \<and> dt_second f < 60 \<and> dt_microsecond f < 1000000"

definition micros_per_day :: nat where
  "micros_per_day = 86400000000"

definition instant_of :: "py_datetime \<Rightarrow> nat" where
  "instant_of f =
     (ymd2ord (dt_year f) (dt_month f) (dt_day f) - 1) * micros_per_day +
     ((dt_hour f * 60 + dt_minute f) * 60 + dt_second f) * 1000000 + dt_microsecond f"

definition datetime_of :: "nat \<Rightarrow> py_datetime" where
  "datetime_of u =
     (let (y, m, d) = ord2ymd (u div micros_per_day + 1); r = u mod micros_per_day; s = r div 1000000
      in \<lparr>dt_year = y, dt_month = m, dt_day = d, dt_hour = s div 3600, dt_minute = s div 60 mod 60,
          dt_second = s mod 60, dt_microsecond = r mod 1000000\<rparr>)"

text \<open>The first instant after the year 9999.\<close>

definition end_of_time :: nat where
  "end_of_time = days_before_year 10000 * micros_per_day"

lemma seconds_split: "((s div 3600 * 60 + s div 60 mod 60) * 60 + s mod 60) = (s::nat)"
proof -
  have "s div 3600 = s div 60 div 60" by (simp add: div_mult2_eq [symmetric])
  then have "s div 3600 * 60 + s div 60 mod 60 = s div 60" by simp
  then show ?thesis by simp
qed

lemma days_before_year_mono: "0 < y \<Longrightarrow> y \<le> z \<Longrightarrow> days_before_year y \<le> days_before_year z"
proof (induction z)
  case (Suc z)
  then show ?case by (cases "y = Suc z") (auto simp: days_before_next_year)
qed simp

lemma instant_datetime:
  assumes "u < end_of_time"
  shows "instant_of (datetime_of u) = u" "datetime_ok (datetime_of u)"
proof -
  let ?n = "u div micros_per_day" and ?r = "u mod micros_per_day"
  let ?s = "?r div 1000000"
  obtain y m d where ymd: "ord2ymd (Suc ?n) = (y, m, d)" by (metis prod.exhaust)
  note c = ord2ymd_correct [OF ymd]
  have "?n < days_before_year 10000"
    using assms by (simp add: end_of_time_def micros_per_day_def less_mult_imp_div_less)
  then have "days_before_year y < days_before_year 10000" using c(7) by simp
  then have "\<not> 10000 \<le> y" using days_before_year_mono [of 10000 y] by auto
  then have y: "y \<le> 9999" by simp
  have r: "?r < 86400000000" by (simp add: micros_per_day_def)
  then have s: "?s < 86400" by (simp add: less_mult_imp_div_less)
  have f: "datetime_of u = \<lparr>dt_year = y, dt_month = m, dt_day = d, dt_hour = ?s div 3600,
      dt_minute = ?s div 60 mod 60, dt_second = ?s mod 60, dt_microsecond = ?r mod 1000000\<rparr>"
    by (simp add: datetime_of_def ymd Let_def)
  have "instant_of (datetime_of u) = ?n * micros_per_day + (?s * 1000000 + ?r mod 1000000)"
    by (simp only: f instant_of_def py_datetime.simps c(1) seconds_split diff_Suc_1 add.assoc)
  then show "instant_of (datetime_of u) = u" by simp
  show "datetime_ok (datetime_of u)"
    using c y s by (simp add: f datetime_ok_def less_mult_imp_div_less)
qed

end
