(* ===== verification/Cursor.thy ===== *)
theory Cursor
  imports Calendar Json Model
begin

section \<open>The cursor of a page (dtos.py)\<close>

text \<open>
  \<open>Cursor.encode\<close> writes the creation time and the identifier of the last task of a page as JSON in URL-safe
  base64; \<open>Cursor.decode\<close> reads what a client sends back. \<open>datetime.fromisoformat\<close> and \<open>uuid.UUID\<close> are modelled
  on the formats that \<open>isoformat\<close> and \<open>str\<close> write; they accept other texts too, and what they make of those is
  the argument \<open>lenient_parsers\<close>. A \<open>ValueError\<close> or \<open>KeyError\<close> of any stage becomes a \<open>ValueError\<close>; a \<open>TypeError\<close>
  or \<open>AttributeError\<close>, for JSON that is not an object of texts, is not caught.
\<close>

subsection \<open>Digits\<close>

fun fixed_digits :: "nat \<Rightarrow> nat \<Rightarrow> nat \<Rightarrow> points" where
  "fixed_digits base 0 n = []"
| "fixed_digits base (Suc w) n = fixed_digits base w (n div base) @ [hex_char (n mod base)]"

fun read_digits :: "nat \<Rightarrow> nat \<Rightarrow> nat \<Rightarrow> points \<Rightarrow> (nat \<times> points) option" where
  "read_digits base 0 acc s = Some (acc, s)"
| "read_digits base (Suc w) acc [] = None"
| "read_digits base (Suc w) acc (c # cs) =
     (case hex_digit c of
        None \<Rightarrow> None
      | Some v \<Rightarrow> if v < base then read_digits base w (acc * base + v) cs else None)"

lemma read_digits_append:
  "read_digits base (v + w) acc s =
     (case read_digits base v acc s of None \<Rightarrow> None | Some (a, r) \<Rightarrow> read_digits base w a r)"
  by (induction base v acc s rule: read_digits.induct) (simp_all split: option.split)

lemma read_fixed_digits:
  "0 < base \<Longrightarrow> base \<le> 16 \<Longrightarrow> read_digits base w acc (fixed_digits base w n @ r) = Some (acc * base ^ w + n mod base ^ w, r)"
proof (induction w arbitrary: n r)
  case 0
  then show ?case by simp
next
  case (Suc w)
  have "n mod base < 16" using Suc.prems mod_less_divisor [of base n] by linarith
  moreover have "(acc * base ^ w + n div base mod base ^ w) * base + n mod base = acc * base ^ Suc w + n mod base ^ Suc w"
    using mod_mult2_eq [of n base "base ^ w"] by (simp add: algebra_simps)
  ultimately show ?case
    using read_digits_append [of base w 1 acc "fixed_digits base (Suc w) n @ r"] Suc
    by (simp add: hex_digit_char)
qed

lemma fixed_digits_ascii: "base \<le> 16 \<Longrightarrow> 0 < base \<Longrightarrow> \<forall>c \<in> set (fixed_digits base w n). c < 128"
proof (induction w arbitrary: n)
  case (Suc w)
  have "n mod base < 16" using Suc.prems mod_less_divisor [of base n] by linarith
  then show ?case using Suc by (auto simp: hex_char_def)
qed simp

subsection \<open>isoformat and its inverse\<close>

definition isoformat :: "py_datetime \<Rightarrow> points" where
  "isoformat f =
     fixed_digits 10 4 (dt_year f) @ cps ''-'' @ fixed_digits 10 2 (dt_month f) @ cps ''-'' @
     fixed_digits 10 2 (dt_day f) @ cps ''T'' @ fixed_digits 10 2 (dt_hour f) @ cps '':'' @
     fixed_digits 10 2 (dt_minute f) @ cps '':'' @ fixed_digits 10 2 (dt_second f) @
     (if dt_microsecond f = 0 then [] else cps ''.'' @ fixed_digits 10 6 (dt_microsecond f)) @ cps ''+00:00''"

definition field_then :: "nat \<Rightarrow> nat \<Rightarrow> points \<Rightarrow> points \<Rightarrow> (nat \<times> points) option" where
  "field_then base w sep s =
     (case read_digits base w 0 s of
        None \<Rightarrow> None
      | Some (v, r) \<Rightarrow> map_option (\<lambda>r'. (v, r')) (expect_all sep r))"

definition read_isoformat :: "points \<Rightarrow> py_datetime option" where
  "read_isoformat s =
     Option.bind (field_then 10 4 (cps ''-'') s) (\<lambda>(y, s).
     Option.bind (field_then 10 2 (cps ''-'') s) (\<lambda>(m, s).
     Option.bind (field_then 10 2 (cps ''T'') s) (\<lambda>(d, s).
     Option.bind (field_then 10 2 (cps '':'') s) (\<lambda>(h, s).
     Option.bind (field_then 10 2 (cps '':'') s) (\<lambda>(mi, s).
     Option.bind (field_then 10 2 [] s) (\<lambda>(sec, s).
     Option.bind
       (case expect_all (cps ''.'') s of None \<Rightarrow> Some (0, s) | Some s \<Rightarrow> field_then 10 6 [] s) (\<lambda>(us, s).
     if s = cps ''+00:00''
     then Some \<lparr>dt_year = y, dt_month = m, dt_day = d, dt_hour = h, dt_minute = mi, dt_second = sec, dt_microsecond = us\<rparr>
     else None)))))))"

record lenient_parsers =
  lp_datetime :: "points \<Rightarrow> timestamp option"
  lp_uuid :: "points \<Rightarrow> uuid option"

definition fromisoformat :: "lenient_parsers \<Rightarrow> points \<Rightarrow> timestamp option" where
  "fromisoformat lp s =
     (case read_isoformat s of
        None \<Rightarrow> lp_datetime lp s
      | Some f \<Rightarrow> if datetime_ok f then Some (int (instant_of f)) else None)"

subsection \<open>UUIDs\<close>

definition uuid_text :: "uuid \<Rightarrow> points" where
  "uuid_text i =
     fixed_digits 16 8 (i div 16 ^ 24) @ cps ''-'' @ fixed_digits 16 4 (i div 16 ^ 20) @ cps ''-'' @
     fixed_digits 16 4 (i div 16 ^ 16) @ cps ''-'' @ fixed_digits 16 4 (i div 16 ^ 12) @ cps ''-'' @
     fixed_digits 16 12 i"

definition read_uuid :: "points \<Rightarrow> uuid option" where
  "read_uuid s =
     Option.bind (field_then 16 8 (cps ''-'') s) (\<lambda>(a, s).
     Option.bind (field_then 16 4 (cps ''-'') s) (\<lambda>(b, s).
     Option.bind (field_then 16 4 (cps ''-'') s) (\<lambda>(c, s).
     Option.bind (field_then 16 4 (cps ''-'') s) (\<lambda>(d, s).
     Option.bind (field_then 16 12 [] s) (\<lambda>(e, s).
     if s = [] then Some ((((a * 16 ^ 4 + b) * 16 ^ 4 + c) * 16 ^ 4 + d) * 16 ^ 12 + e) else None)))))"

definition uuid_of_text :: "lenient_parsers \<Rightarrow> points \<Rightarrow> uuid option" where
  "uuid_of_text lp s = (case read_uuid s of None \<Rightarrow> lp_uuid lp s | Some i \<Rightarrow> Some i)"

subsection \<open>The cursor\<close>

type_synonym cursor_key = "timestamp \<times> uuid"

definition cursor_encode :: "cursor_key \<Rightarrow> string" where
  "cursor_encode c =
     (let data = [(cps ''created_at'', isoformat (datetime_of (nat (fst c)))), (cps ''task_id'', uuid_text (snd c))];
          json_data = json_dumps data
      in map char_of (b64_encode (utf8_encode json_data)))"

text \<open>What \<open>decode\<close> does: a cursor, its \<open>ValueError\<close>, or an exception that it does not catch.\<close>

datatype decoded = Cursor_ok cursor_key | Invalid_cursor | Uncaught

text \<open>Looking a key up in a dict whose duplicate keys have been overwritten by later ones.\<close>

definition dict_get :: "points \<Rightarrow> (points \<times> json) list \<Rightarrow> json option" where
  "dict_get k kvs = map_of (rev kvs) k"

definition cursor_of_json :: "lenient_parsers \<Rightarrow> json \<Rightarrow> decoded" where
  "cursor_of_json lp data =
     (case data of
        JObj kvs \<Rightarrow>
          (case dict_get (cps ''created_at'') kvs of
             None \<Rightarrow> Invalid_cursor
           | Some (JStr at) \<Rightarrow>
               (case fromisoformat lp at of
                  None \<Rightarrow> Invalid_cursor
                | Some created \<Rightarrow>
                    (case dict_get (cps ''task_id'') kvs of
                       None \<Rightarrow> Invalid_cursor
                     | Some (JStr i) \<Rightarrow>
                         (case uuid_of_text lp i of
                            None \<Rightarrow> Invalid_cursor
                          | Some k \<Rightarrow> Cursor_ok (created, k))
                     | Some _ \<Rightarrow> Uncaught))
           | Some _ \<Rightarrow> Uncaught)
      | _ \<Rightarrow> Uncaught)"

definition cursor_decode :: "lenient_parsers \<Rightarrow> string \<Rightarrow> decoded" where
  "cursor_decode lp cursor =
     (case Option.bind (b64_decode (utf8_encode (cps cursor))) utf8_decode of
        None \<Rightarrow> Invalid_cursor
      | Some json_data \<Rightarrow>
          (case json_loads json_data of
             Parsed data r \<Rightarrow> cursor_of_json lp data
           | _ \<Rightarrow> Invalid_cursor))"


subsection \<open>Decoding what was encoded\<close>

lemma expect_all_append: "expect_all cs (cs @ r) = Some r"
  by (induction cs) simp_all

lemma field_then_fixed:
  "0 < base \<Longrightarrow> base \<le> 16 \<Longrightarrow> n < base ^ w \<Longrightarrow> field_then base w sep (fixed_digits base w n @ sep @ r) = Some (n, r)"
  by (simp add: field_then_def read_fixed_digits expect_all_append)

lemma field_then_last:
  "0 < base \<Longrightarrow> base \<le> 16 \<Longrightarrow> n < base ^ w \<Longrightarrow> field_then base w [] (fixed_digits base w n @ r) = Some (n, r)"
  using field_then_fixed [where sep = "[]"] by simp

lemma read_isoformat_inverse:
  assumes "datetime_ok f"
  shows "read_isoformat (isoformat f) = Some f"
proof -
  have "days_in_month (dt_year f) (dt_month f) \<le> 31" by (simp add: days_in_month_def)
  then have bounds: "dt_year f < 10 ^ 4" "dt_month f < 10 ^ 2" "dt_day f < 10 ^ 2" "dt_hour f < 10 ^ 2"
      "dt_minute f < 10 ^ 2" "dt_second f < 10 ^ 2" "dt_microsecond f < 10 ^ 6"
    using assms by (simp_all add: datetime_ok_def)
  note fields = field_then_fixed [of 10, OF _ _ bounds(1)] field_then_fixed [of 10, OF _ _ bounds(2)]
    field_then_fixed [of 10, OF _ _ bounds(3)] field_then_fixed [of 10, OF _ _ bounds(4)]
    field_then_fixed [of 10, OF _ _ bounds(5)] field_then_last [of 10, OF _ _ bounds(6)]
    field_then_last [of 10, OF _ _ bounds(7)]
  have no_dot: "expect_all (cps ''.'') (cps ''+00:00'') = None" by (simp add: cps_def)
  show ?thesis
  proof (cases "dt_microsecond f = 0")
    case True
    have "\<lparr>dt_year = dt_year f, dt_month = dt_month f, dt_day = dt_day f, dt_hour = dt_hour f,
        dt_minute = dt_minute f, dt_second = dt_second f, dt_microsecond = 0\<rparr> = f"
      using True by (cases f) simp
    with True show ?thesis by (simp add: read_isoformat_def isoformat_def fields no_dot)
  next
    case False
    then show ?thesis by (simp add: read_isoformat_def isoformat_def fields expect_all_append)
  qed
qed

lemma read_uuid_inverse:
  assumes "i < 2 ^ 128"
  shows "read_uuid (uuid_text i) = Some i"
proof -
  have shift: "i div 16 ^ 24 = i div 16 ^ 20 div 16 ^ 4" "i div 16 ^ 20 = i div 16 ^ 16 div 16 ^ 4"
      "i div 16 ^ 16 = i div 16 ^ 12 div 16 ^ 4"
    by (simp_all add: div_mult2_eq [symmetric])
  have top: "i div 16 ^ 24 < 16 ^ 8" using assms by (simp add: less_mult_imp_div_less)
  have part: "field_then 16 w sep (fixed_digits 16 w n @ sep @ r) = Some (n mod 16 ^ w, r)" for w sep n r
    by (simp add: field_then_def read_fixed_digits expect_all_append)
  have last: "field_then 16 w [] (fixed_digits 16 w n) = Some (n mod 16 ^ w, [])" for w n
    using part [where sep = "[]" and r = "[]"] by simp
  have "read_uuid (uuid_text i) = Some ((((i div 16 ^ 24 mod 16 ^ 8 * 16 ^ 4 + i div 16 ^ 20 mod 16 ^ 4) * 16 ^ 4 +
      i div 16 ^ 16 mod 16 ^ 4) * 16 ^ 4 + i div 16 ^ 12 mod 16 ^ 4) * 16 ^ 12 + i mod 16 ^ 12)"
    by (simp only: read_uuid_def uuid_text_def part last Option.bind.simps prod.case simp_thms if_True append_assoc)
  also have "i div 16 ^ 24 mod 16 ^ 8 = i div 16 ^ 24" using top by (rule mod_less)
  also have "i div 16 ^ 24 * 16 ^ 4 + i div 16 ^ 20 mod 16 ^ 4 = i div 16 ^ 20" by (simp only: shift(1) div_mult_mod_eq)
  also have "i div 16 ^ 20 * 16 ^ 4 + i div 16 ^ 16 mod 16 ^ 4 = i div 16 ^ 16" by (simp only: shift(2) div_mult_mod_eq)
  also have "i div 16 ^ 16 * 16 ^ 4 + i div 16 ^ 12 mod 16 ^ 4 = i div 16 ^ 12" by (simp only: shift(3) div_mult_mod_eq)
  also have "i div 16 ^ 12 * 16 ^ 12 + i mod 16 ^ 12 = i" by (rule div_mult_mod_eq)
  finally show ?thesis .
qed

lemma cps_ascii: "list_all (\<lambda>c. of_char c < (128::nat)) s \<Longrightarrow> \<forall>c \<in> set (cps s). c < 128"
  by (simp add: cps_def list_all_iff)

lemma texts_ascii: "\<forall>c \<in> set (isoformat f). c < 128" "\<forall>c \<in> set (uuid_text i). c < 128"
proof -
  have sep: "\<forall>c \<in> set (cps ''-''). c < 128" "\<forall>c \<in> set (cps ''T''). c < 128" "\<forall>c \<in> set (cps '':''). c < 128"
      "\<forall>c \<in> set (cps ''.''). c < 128" "\<forall>c \<in> set (cps ''+00:00''). c < 128"
    by (simp_all add: cps_def)
  have dec: "\<forall>c \<in> set (fixed_digits 10 w n). c < 128" and hex: "\<forall>c \<in> set (fixed_digits 16 w n). c < 128" for w n
    by (rule fixed_digits_ascii, simp, simp)+
  show "\<forall>c \<in> set (isoformat f). c < 128"
    unfolding isoformat_def set_append ball_Un
  proof (intro conjI sep dec)
    have "\<forall>c \<in> set (cps ''.'' @ fixed_digits 10 6 (dt_microsecond f)). c < 128"
      unfolding set_append ball_Un by (intro conjI sep dec)
    then show "\<forall>c \<in> set (if dt_microsecond f = 0 then [] else cps ''.'' @ fixed_digits 10 6 (dt_microsecond f)). c < 128"
      by (cases "dt_microsecond f = 0") (simp, simp only: if_False)
  qed
  show "\<forall>c \<in> set (uuid_text i). c < 128"
    unfolding uuid_text_def set_append ball_Un by (intro conjI sep hex)
qed

lemma ascii_scalar: "c < 128 \<Longrightarrow> scalar c"
  by (simp add: scalar_def high_surrogate_def low_surrogate_def)

definition cursor_members :: "cursor_key \<Rightarrow> (points \<times> points) list" where
  "cursor_members c =
     [(cps ''created_at'', isoformat (datetime_of (nat (fst c)))), (cps ''task_id'', uuid_text (snd c))]"

lemma cursor_members_ascii: "\<forall>x \<in> set (json_dumps (cursor_members c)). x < 128"
proof -
  have keys: "\<forall>c \<in> set (cps ''created_at''). c < 128" "\<forall>c \<in> set (cps ''task_id''). c < 128"
    by (simp_all add: cps_def)
  have wide: "\<forall>c \<in> set s. c < 128 \<Longrightarrow> \<forall>c \<in> set s. c < 1114112" for s :: points by fastforce
  show ?thesis
    using dump_string_ascii [OF wide [OF keys(1)]] dump_string_ascii [OF wide [OF keys(2)]]
      dump_string_ascii [OF wide [OF texts_ascii(1)]] dump_string_ascii [OF wide [OF texts_ascii(2)]]
    by (auto simp: json_dumps_def cursor_members_def)
qed

lemma cps_char_of: "\<forall>c \<in> set bs. c < 128 \<Longrightarrow> cps (map char_of bs) = bs"
  by (induction bs) (simp_all add: cps_def)

text \<open>The cursors the service hands out: instants of the years 1 to 9999, 128-bit identifiers.\<close>

definition cursor_key_ok :: "cursor_key \<Rightarrow> bool" where
  "cursor_key_ok c \<longleftrightarrow> 0 \<le> fst c \<and> fst c < int end_of_time \<and> snd c < 2 ^ 128"

lemma cursor_decode_encode:
  assumes "cursor_key_ok c"
  shows "cursor_decode lp (cursor_encode c) = Cursor_ok c"
proof -
  let ?kvs = "cursor_members c"
  let ?json = "json_dumps ?kvs"
  have ascii: "\<forall>x \<in> set ?json. x < 128" by (rule cursor_members_ascii)
  then have small: "\<forall>x \<in> set ?json. x < 256" by fastforce
  have enc: "cursor_encode c = map char_of (b64_encode ?json)"
    by (simp add: cursor_encode_def cursor_members_def utf8_encode_ascii [OF ascii [unfolded cursor_members_def]] Let_def)
  have bytes: "Option.bind (b64_decode (utf8_encode (cps (cursor_encode c)))) utf8_decode = Some ?json"
    unfolding enc cps_char_of [OF b64_encode_ascii] utf8_encode_ascii [OF b64_encode_ascii]
    by (simp add: b64_round_trip [OF small] utf8_decode_ascii [OF ascii])
  have "\<forall>kv \<in> set ?kvs. scalars kv"
    using texts_ascii ascii_scalar by (auto simp: cursor_members_def cps_def)
  from json_loads_dumps [OF _ this]
  have loads: "json_loads ?json = Parsed (JObj (map (\<lambda>(k, v). (k, JStr v)) ?kvs)) []"
    by (simp add: cursor_members_def)
  let ?u = "nat (fst c)"
  have "?u < end_of_time" using assms by (simp add: cursor_key_ok_def nat_less_iff)
  note u = instant_datetime [OF this]
  have at: "fromisoformat lp (isoformat (datetime_of ?u)) = Some (fst c)"
    using u assms by (simp add: fromisoformat_def read_isoformat_inverse cursor_key_ok_def)
  have i: "uuid_of_text lp (uuid_text (snd c)) = Some (snd c)"
    using assms by (simp add: uuid_of_text_def read_uuid_inverse cursor_key_ok_def)
  have ne: "cps ''created_at'' \<noteq> cps ''task_id''" by (simp add: cps_def)
  have "cursor_of_json lp (JObj (map (\<lambda>(k, v). (k, JStr v)) ?kvs)) = Cursor_ok c"
    by (simp add: cursor_of_json_def dict_get_def cursor_members_def at i ne ne [symmetric])
  then show ?thesis
    unfolding cursor_decode_def bytes by (simp add: loads)
qed

text \<open>
  C31. A cursor survives the round trip over the client: what \<open>encode\<close> writes for a time and an identifier
  \<open>decode\<close> reads back, through JSON, UTF-8 and base64, for every instant a datetime can have and every UUID.
\<close>

theorem cursor_round_trip:
  assumes "0 \<le> at" and "at < int end_of_time" and "i < 2 ^ 128"
  shows "cursor_decode lp (cursor_encode (at, i)) = Cursor_ok (at, i)"
  using assms by (intro cursor_decode_encode) (simp add: cursor_key_ok_def)

theorem cursor_round_trip_witness:
  "cursor_decode \<lparr>lp_datetime = (\<lambda>_. None), lp_uuid = (\<lambda>_. None)\<rparr> (cursor_encode (63923000000123456, 77)) =
     Cursor_ok (63923000000123456, 77)"
  by (rule cursor_round_trip) (simp_all add: end_of_time_def days_before_year_def micros_per_day_def)

end
