(* ===== verification/Job_Pages.thy ===== *)
theory Job_Pages
  imports Routes Cursor
begin

section \<open>Reading a job (routes.py, dtos.py)\<close>

text \<open>
  \<open>get_job\<close> (\<open>read_job\<close> here) answers with the status of a job, the counts of its tasks and one page of
  their results. A page starts after a cursor, the creation time and identifier of the last task of the
  page before, in the text format of \<open>Cursor\<close>. A cursor that raises what the handler does not catch makes
  FastAPI answer 500.
\<close>

subsection \<open>Reading a job\<close>

record result_data =
  rd_ip_addresses :: "string list"
  rd_dns_records :: "(string \<times> string list) list"
  rd_http_status :: int
  rd_page_title :: "string option"
  rd_response_time :: int

record task_result =
  tr_task_id :: uuid
  tr_domain :: string
  tr_status :: string
  tr_result :: "result_data option"
  tr_error :: "error_payload option"

record job_summary =
  js_total :: nat
  js_completed :: nat
  js_failed :: nat
  js_pending :: nat
  js_processing :: nat

record job_response =
  jr_job_id :: uuid
  jr_status :: string
  jr_summary :: job_summary
  jr_results :: "task_result list"
  jr_next_cursor :: "string option"

record page_settings =
  ps_default_page_size :: int
  ps_max_page_size :: int

definition result_data_of :: "domain_detail \<Rightarrow> result_data" where
  "result_data_of dd =
     \<lparr>rd_ip_addresses = dd_ip_addresses dd, rd_dns_records = dd_dns_records dd,
      rd_http_status = dd_http_status dd, rd_page_title = dd_page_title dd,
      rd_response_time = dd_response_time dd\<rparr>"

definition task_result_of :: "db \<Rightarrow> task \<Rightarrow> task_result" where
  "task_result_of d t =
     \<lparr>tr_task_id = t_id t,
      tr_domain = (case get_domain (t_domain_id t) d of
                     None \<Rightarrow> ''unknown'' | Some dm \<Rightarrow> d_normalized_domain dm),
      tr_status = task_status_value (t_status t),
      tr_result = (if t_status t = COMPLETED then map_option result_data_of (get_detail (t_domain_id t) d)
                   else None),
      tr_error = (if t_status t = FAILED then t_error_payload t else None)\<rparr>"

definition count_of :: "(task_status \<rightharpoonup> nat) \<Rightarrow> task_status \<Rightarrow> nat" where
  "count_of counts st = (case counts st of None \<Rightarrow> 0 | Some n \<Rightarrow> n)"

definition summary_of :: "(task_status \<rightharpoonup> nat) \<Rightarrow> job_summary" where
  "summary_of counts =
     \<lparr>js_total = sum_list (map (count_of counts) [PENDING, PROCESSING, COMPLETED, FAILED]),
      js_completed = count_of counts COMPLETED, js_failed = count_of counts FAILED,
      js_pending = count_of counts PENDING, js_processing = count_of counts PROCESSING\<rparr>"

definition page_response ::
  "job \<Rightarrow> nat \<Rightarrow> cursor_key option \<Rightarrow> db \<Rightarrow> job_response" where
  "page_response j page_limit cur d =
     (let fetched = get_by_job_id_paginated (j_id j) (page_limit + 1)
                      (map_option fst cur) (map_option snd cur) d;
          has_next = page_limit < length fetched;
          tasks = (if has_next then take page_limit fetched else fetched)
      in \<lparr>jr_job_id = j_id j, jr_status = task_status_value (j_status j),
          jr_summary = summary_of (get_summary_by_job_id (j_id j) d),
          jr_results = map (task_result_of d) tasks,
          jr_next_cursor =
            (if has_next \<and> tasks \<noteq> [] then Some (cursor_encode (t_created_at (last tasks), t_id (last tasks)))
             else None)\<rparr>)"

definition read_job ::
  "lenient_parsers \<Rightarrow> page_settings \<Rightarrow> uuid \<Rightarrow> int option
     \<Rightarrow> string option \<Rightarrow> db \<Rightarrow> http_exn + job_response" where
  "read_job lp st i limit cursor d =
     (case get_job i d of
        None \<Rightarrow> Inl (HTTP 404 ''job not found'')
      | Some j \<Rightarrow>
          (let page_limit = (case limit of None \<Rightarrow> ps_default_page_size st | Some l \<Rightarrow> l) in
           if page_limit \<le> 0 then Inl (HTTP 400 ''limit must be positive'')
           else
             (let page_limit = (if ps_max_page_size st < page_limit then ps_max_page_size st else page_limit) in
              case cursor of
                None \<Rightarrow> Inr (page_response j (nat page_limit) None d)
              | Some text \<Rightarrow>
                  (case cursor_decode lp text of
                     Invalid_cursor \<Rightarrow> Inl (HTTP 400 ''invalid cursor format'')
                   | Uncaught \<Rightarrow> Inl (HTTP 500 ''Internal Server Error'')
                   | Cursor_ok cur \<Rightarrow> Inr (page_response j (nat page_limit) (Some cur) d)))))"

subsection \<open>Pages of a job\<close>

text \<open>All tasks of a job in the order of the pages.\<close>

definition job_tasks :: "uuid \<Rightarrow> db \<Rightarrow> task list" where
  "job_tasks j d = sort_key cursor_order (filter (\<lambda>t. t_job_id t = Some j) (db_tasks d))"

text \<open>What the pages that follow a cursor still have to show.\<close>

definition tasks_after :: "uuid \<Rightarrow> cursor_key option \<Rightarrow> db \<Rightarrow> task list" where
  "tasks_after j cur d =
     filter (\<lambda>t. case cur of None \<Rightarrow> True | Some c \<Rightarrow> c < cursor_order t) (job_tasks j d)"

lemma after_cursor_eq:
  "after_cursor (map_option fst cur) (map_option snd cur) t \<longleftrightarrow>
     (case cur of None \<Rightarrow> True | Some c \<Rightarrow> c < cursor_order t)"
  by (cases cur) (auto simp: after_cursor_def cursor_order_def less_prod_def)

lemma fetched_page:
  "get_by_job_id_paginated j n (map_option fst cur) (map_option snd cur) d =
     take (n + 1) (tasks_after j cur d)"
  unfolding get_by_job_id_paginated_def tasks_after_def job_tasks_def after_cursor_eq filter_sort
  by (simp add: conj_commute)

lemma page_response_eq:
  assumes "0 < n"
  shows "page_response j n cur d =
    \<lparr>jr_job_id = j_id j, jr_status = task_status_value (j_status j),
     jr_summary = summary_of (get_summary_by_job_id (j_id j) d),
     jr_results = map (task_result_of d) (take n (tasks_after (j_id j) cur d)),
     jr_next_cursor =
       (if n < length (tasks_after (j_id j) cur d)
        then Some (cursor_encode (cursor_order (tasks_after (j_id j) cur d ! (n - 1)))) else None)\<rparr>"
proof -
  let ?xs = "tasks_after (j_id j) cur d"
  have last: "last (take n ?xs) = ?xs ! (n - 1)" if "n < length ?xs"
  proof -
    from that assms have "take n ?xs \<noteq> []" by auto
    from last_conv_nth [OF this] that assms show ?thesis by simp
  qed
  show ?thesis
  proof (cases "n < length ?xs")
    case True
    then have "take n ?xs \<noteq> []" using assms by auto
    with True last show ?thesis
      by (simp add: page_response_def fetched_page Let_def cursor_order_def min_def)
  next
    case False
    then show ?thesis by (simp add: page_response_def fetched_page Let_def)
  qed
qed

lemma strictly_sorted_job_tasks:
  "keys_ok d \<Longrightarrow> sorted_wrt (\<lambda>s t. cursor_order s < cursor_order t) (job_tasks j d)"
proof -
  assume "keys_ok d"
  then have "distinct (map t_id (filter (\<lambda>t. t_job_id t = Some j) (db_tasks d)))"
    by (intro distinct_map_filter_key) (simp add: keys_ok_def)
  then have "distinct (map t_id (job_tasks j d))"
    by (simp add: job_tasks_def distinct_map_sort_key)
  then have d: "distinct (map cursor_order (job_tasks j d))"
    by (auto simp: distinct_map inj_on_def cursor_order_def)
  have "sorted (map cursor_order (job_tasks j d))" by (simp add: job_tasks_def)
  with d have "sorted_wrt (<) (map cursor_order (job_tasks j d))"
    by (simp only: strict_sorted_iff)
  then show ?thesis by (simp add: sorted_wrt_map)
qed

lemma filter_after_nth:
  assumes "sorted_wrt (\<lambda>s t. f s < f t) xs" and "n < length xs"
  shows "filter (\<lambda>t. f (xs ! n) < (f t :: 'b :: linorder)) xs = drop (Suc n) xs"
proof -
  have split: "xs = take (Suc n) xs @ drop (Suc n) xs" by simp
  have "\<not> f (xs ! n) < f t" if "t \<in> set (take (Suc n) xs)" for t
  proof -
    from that obtain i where "i \<le> n" "t = xs ! i"
      by (auto simp: in_set_conv_nth less_Suc_eq_le)
    show ?thesis
    proof (cases "i = n")
      case False
      with \<open>i \<le> n\<close> assms have "f (xs ! i) < f (xs ! n)" by (simp add: sorted_wrt_iff_nth_less)
      with \<open>t = xs ! i\<close> show ?thesis by simp
    qed (simp add: \<open>t = xs ! i\<close>)
  qed
  then have 1: "filter (\<lambda>t. f (xs ! n) < f t) (take (Suc n) xs) = []"
    by (simp add: filter_empty_conv)
  have "f (xs ! n) < f t" if "t \<in> set (drop (Suc n) xs)" for t
    using that assms by (auto simp: in_set_conv_nth sorted_wrt_iff_nth_less)
  then have 2: "filter (\<lambda>t. f (xs ! n) < f t) (drop (Suc n) xs) = drop (Suc n) xs"
    by (simp add: filter_id_conv)
  show ?thesis by (subst (2) split) (simp only: filter_append 1 2 append_Nil)
qed

lemma tasks_after_next:
  assumes "keys_ok d" and "0 < n" and "n < length (tasks_after j cur d)"
  shows "tasks_after j (Some (cursor_order (tasks_after j cur d ! (n - 1)))) d = drop n (tasks_after j cur d)"
proof -
  let ?xs = "tasks_after j cur d"
  let ?c = "cursor_order (?xs ! (n - 1))"
  have sorted: "sorted_wrt (\<lambda>s t. cursor_order s < cursor_order t) ?xs"
    unfolding tasks_after_def by (intro sorted_wrt_filter strictly_sorted_job_tasks assms(1))
  have "?xs ! (n - 1) \<in> set ?xs" using assms(2,3) by (intro nth_mem) linarith
  then have "case cur of None \<Rightarrow> True | Some c \<Rightarrow> c < ?c"
    unfolding tasks_after_def by (simp only: set_filter mem_Collect_eq)
  then have "tasks_after j (Some ?c) d = filter (\<lambda>t. ?c < cursor_order t) ?xs"
    by (auto simp: tasks_after_def intro!: filter_cong split: option.splits dest: less_trans)
  also have "\<dots> = drop n ?xs"
    using filter_after_nth [OF sorted, of "n - 1"] assms(2,3) by simp
  finally show ?thesis .
qed


lemma summary_counts:
  "count_of (get_summary_by_job_id j d) st =
     length (filter (\<lambda>t. t_status t = st) (job_tasks j d))"
proof -
  have "length (filter (\<lambda>t. t_status t = st) (job_tasks j d)) =
      length (filter (\<lambda>t. t_job_id t = Some j \<and> t_status t = st) (db_tasks d))"
    by (simp add: job_tasks_def filter_sort conj_commute)
  then show ?thesis by (simp add: count_of_def get_summary_by_job_id_def Let_def)
qed

lemma status_counts_total:
  "length (filter (\<lambda>t. t_status t = PENDING) ts) + length (filter (\<lambda>t. t_status t = PROCESSING) ts) +
     length (filter (\<lambda>t. t_status t = COMPLETED) ts) + length (filter (\<lambda>t. t_status t = FAILED) ts) = length ts"
proof (induction ts)
  case (Cons t ts)
  then show ?case by (cases "t_status t") simp_all
qed simp

text \<open>Where a page starts, for the cursor as it was decoded.\<close>

fun start_of :: "decoded option \<Rightarrow> cursor_key option" where
  "start_of (Some (Cursor_ok c)) = Some c"
| "start_of _ = None"


text \<open>A client that follows the cursors from the first page, for at most \<open>k\<close> pages.\<close>

fun read_pages ::
  "nat \<Rightarrow> (string option \<Rightarrow> http_exn + job_response) \<Rightarrow> string option \<Rightarrow> task_result list option" where
  "read_pages 0 page cursor = None"
| "read_pages (Suc k) page cursor =
     (case page cursor of
        Inl _ \<Rightarrow> None
      | Inr resp \<Rightarrow>
          (case jr_next_cursor resp of
             None \<Rightarrow> Some (jr_results resp)
           | Some c \<Rightarrow> map_option (\<lambda>rs. jr_results resp @ rs) (read_pages k page (Some c))))"

lemma read_pages_rest:
  assumes "keys_ok d" and "0 < n"
    and "\<And>cur. pred_option ok cur \<Longrightarrow> page (map_option cursor_encode cur) = Inr (page_response j n cur d)"
    and "\<forall>t \<in> set (db_tasks d). ok (cursor_order t)"
    and "pred_option ok cur" and "length (tasks_after (j_id j) cur d) < k"
  shows "read_pages k page (map_option cursor_encode cur) =
    Some (map (task_result_of d) (tasks_after (j_id j) cur d))"
  using assms(5,6)
proof (induction k arbitrary: cur)
  case 0
  then show ?case by simp
next
  case (Suc k)
  let ?xs = "tasks_after (j_id j) cur d"
  show ?case
  proof (cases "n < length ?xs")
    case False
    then show ?thesis using Suc.prems(1) by (simp add: assms(3) page_response_eq [OF assms(2)])
  next
    case True
    let ?c = "cursor_order (?xs ! (n - 1))"
    have next': "tasks_after (j_id j) (Some ?c) d = drop n ?xs"
      by (rule tasks_after_next [OF assms(1,2) True])
    have "?xs ! (n - 1) \<in> set ?xs" using True by (intro nth_mem) linarith
    then have ok: "pred_option ok (Some ?c)" using assms(4) by (simp add: tasks_after_def job_tasks_def)
    have "length (tasks_after (j_id j) (Some ?c) d) < k"
      unfolding next' using Suc.prems True assms(2) by simp
    from Suc.IH [OF ok this] have "read_pages k page (Some (cursor_encode ?c)) =
        Some (map (task_result_of d) (drop n ?xs))"
      unfolding next' by simp
    then show ?thesis
      using True Suc.prems(1) by (simp add: assms(3) page_response_eq [OF assms(2)] map_append [symmetric] del: map_append)
  qed
qed

text \<open>
  C30. Pagination is complete: a client that follows the cursors of an undisturbed job, with any positive
  limit, gets after finitely many pages every task of the job exactly once, in the order of creation time
  and identifier. A page for each task is enough.
\<close>

theorem pagination_complete:
  assumes "schema_ok d" and "get_job i d = Some j" and "0 < limit" and "0 < ps_max_page_size st"
    and "\<forall>t \<in> set (db_tasks d). cursor_key_ok (cursor_order t)"
  shows "read_pages (Suc (length (job_tasks i d)))
      (\<lambda>cursor. read_job lp st i (Some limit) cursor d) None =
    Some (map (task_result_of d) (job_tasks i d)) \<and>
    mset (job_tasks i d) = filter_mset (\<lambda>t. t_job_id t = Some i) (mset (db_tasks d)) \<and>
    distinct (map t_id (job_tasks i d))"
proof -
  let ?n = "nat (min limit (ps_max_page_size st))"
  have ji: "j_id j = i" using assms(2) by (auto dest: get_job_SomeD)
  have keys: "keys_ok d" using assms(1) by (simp add: schema_ok_def)
  have cap: "nat (if ps_max_page_size st < limit then ps_max_page_size st else limit) = ?n"
    by (simp add: min_def)
  have page: "read_job lp st i (Some limit) (map_option cursor_encode cur) d =
      Inr (page_response j ?n cur d)" if "pred_option cursor_key_ok cur" for cur
    using assms(2,3) that by (cases cur) (simp_all add: read_job_def Let_def cap cursor_decode_encode)
  have all: "tasks_after i None d = job_tasks i d" by (simp add: tasks_after_def)
  have n: "0 < ?n" using assms(3,4) by simp
  have "read_pages (Suc (length (job_tasks i d)))
      (\<lambda>cursor. read_job lp st i (Some limit) cursor d) (map_option cursor_encode None) =
    Some (map (task_result_of d) (tasks_after (j_id j) None d))"
    by (rule read_pages_rest [OF keys n page assms(5)]) (simp_all add: ji all)
  moreover have "distinct (map t_id (job_tasks i d))"
    using keys by (simp add: job_tasks_def distinct_map_sort_key distinct_map_filter_key keys_ok_def)
  ultimately show ?thesis by (simp add: ji all job_tasks_def)
qed


definition strict_parsers :: lenient_parsers where
  "strict_parsers = \<lparr>lp_datetime = (\<lambda>_. None), lp_uuid = (\<lambda>_. None)\<rparr>"

definition demo_page_settings :: page_settings where
  "demo_page_settings = \<lparr>ps_default_page_size = 100, ps_max_page_size = 1\<rparr>"

definition two_tasks :: db where
  "two_tasks = demo_db
     \<lparr>db_tasks := map (\<lambda>t. t\<lparr>t_job_id := Some 1\<rparr>) (take 2 (db_tasks demo_db))\<rparr>"

lemma two_tasks_schema: "schema_ok two_tasks"
  by (simp add: two_tasks_def schema_ok_def keys_ok_def refs_ok_def task_refs_ok_def demo_defs)


theorem pagination_complete_witness:
  "map_option length (read_pages 3
     (\<lambda>cursor. read_job strict_parsers demo_page_settings 1 (Some 5) cursor two_tasks) None) =
   Some 2"
proof -
  have j: "get_job 1 two_tasks = Some demo_job"
    by (simp add: two_tasks_def get_job_def row_simps demo_defs)
  have n: "length (job_tasks 1 two_tasks) = 2"
    by (simp add: job_tasks_def two_tasks_def demo_defs)
  have m: "0 < ps_max_page_size demo_page_settings" by (simp add: demo_page_settings_def)
  have keys: "\<forall>t \<in> set (db_tasks two_tasks). cursor_key_ok (cursor_order t)"
    by (simp add: two_tasks_def demo_defs cursor_order_def cursor_key_ok_def end_of_time_def
        days_before_year_def micros_per_day_def)
  note all = pagination_complete [OF two_tasks_schema j _ m keys, of 5 strict_parsers]
  have three: "Suc (length (job_tasks 1 two_tasks)) = 3" by (simp only: n)
  from all show ?thesis unfolding three by (simp del: One_nat_def add: n)
qed

end
