(* ===== verification/System.thy ===== *)
theory System
  imports Processor Manager Scheduler Job_Pages
begin

section \<open>The system: every component on one database\<close>

text \<open>
  The components meet in the database. \<open>db_step\<close> is one committed transaction of any of them: a request
  to create a job, a claim or recovery cycle of the manager, a tick of the scheduler, or a session of the
  processor. A run of the system is any sequence of such steps, in any interleaving. The pipeline, with
  whatever the others commit in between, is such a sequence, so what holds of all reachable databases
  holds of every run of the service with any number of workers.
\<close>

subsection \<open>Steps\<close>

inductive db_step :: "nat \<Rightarrow> db \<Rightarrow> db \<Rightarrow> bool" for m :: nat where
  step_create: "create_job env req d = (out, d') \<Longrightarrow> db_step m d d'"
| step_claim: "claim_cycle ms locked now now' pool d = (waiting, pool', d') \<Longrightarrow> db_step m d d'"
| step_recover:
    "ms_max_attempts ms = m \<Longrightarrow>
     recovery_cycle ms locked now now' clk jitter pool d = (waiting, pool', d') \<Longrightarrow> db_step m d d'"
| step_tick: "tick workers (pool :: task bounded_queue option) now ids d = (res, d') \<Longrightarrow> db_step m d d'"
| step_complete: "db_step m d (complete_task clk i COMPLETED d)"
| step_fail: "db_step m d (fail_task clk i e ''permanent'' d)"
| step_fail_deact:
    "c \<noteq> ''retryable'' \<Longrightarrow> db_step m d (write_fail_task_with_deactivation clk i k e c x d)"
| step_reschedule: "db_step m d (reschedule_task m clk jit i e d)"
| step_persist: "upsert_with_occ dd v d = Inr (u, d') \<Longrightarrow> db_step m d d'"

abbreviation db_steps :: "nat \<Rightarrow> db \<Rightarrow> db \<Rightarrow> bool" where
  "db_steps m \<equiv> (db_step m)\<^sup>*\<^sup>*"

lemma db_steps_step: "db_steps m d d' \<Longrightarrow> db_step m d' d'' \<Longrightarrow> db_steps m d d''"
  by (rule rtranclp.rtrancl_into_rtrancl)

subsection \<open>Each step, in terms of the repositories\<close>

lemma claim_cycle_db:
  "claim_cycle ms locked now now' pool d = (waiting, pool', d') \<Longrightarrow>
   d' = d \<or> (\<exists>limit lease ts. claim_tasks locked limit lease None now' d = (ts, d'))"
  by (auto simp: claim_cycle_def Let_def close_session_def split: option.splits if_splits prod.splits)

lemma create_job_cases:
  assumes "create_job env req d = (out, d')"
  shows "d' = d \<or> (\<exists>j. out = Inr (Created j) \<and> try_create env req d = Inr (Created j, d'))"
proof (cases out)
  case (Inl e)
  with assms show ?thesis by (auto dest: create_job_failure)
next
  case (Inr resp)
  with assms have run: "try_create env req d = Inr (resp, d')" by (auto dest: create_job_success)
  show ?thesis
  proof (cases resp)
    case (Replayed j)
    with run have "d' = d"
      by (auto simp: try_create_def Let_def split: sum.splits prod.splits if_splits
          dest!: create_or_replay_cases)
    then show ?thesis ..
  next
    case (Created j)
    with Inr run show ?thesis by simp
  qed
qed

lemma create_job_rows:
  assumes "schema_ok d" and "create_job env req d = (out, d')"
  shows "schema_ok d' \<and> (\<exists>js ts. db_jobs d' = db_jobs d @ js \<and> db_tasks d' = db_tasks d @ ts \<and>
    (\<forall>t \<in> set ts. t_attempts t = 0 \<and> t_lease_expires_at t = None \<and>
       (t_status t = PENDING \<and> t_error_payload t = None \<or>
        t_status t = FAILED \<and> (\<exists>r. t_error_payload t = Some (validation_payload r)))))"
  using create_job_cases [OF assms(2)]
proof
  assume "d' = d"
  with assms(1) show ?thesis by simp
next
  assume "\<exists>j. out = Inr (Created j) \<and> try_create env req d = Inr (Created j, d')"
  then obtain j where run: "try_create env req d = Inr (Created j, d')" by blast
  from try_create_Created [OF assms(1) run] obtain w1 where w1: "schema_ok w1"
    "create_domains_and_tasks env j (accepted env req) (refused env req) w1 = Inr d'"
    "db_tasks w1 = db_tasks d" "db_jobs w1 = db_jobs d @ [new_job j (ae_now env)]" by metis
  from create_domains_and_tasks_effect [OF w1(1,2)] obtain ts where ts: "schema_ok d'"
      "db_jobs d' = db_jobs w1" "db_tasks d' = db_tasks w1 @ ts"
    and st: "map (\<lambda>t. (domain_name (t_domain_id t) d', t_status t, t_error_payload t)) ts =
       map (\<lambda>(name, st, p). (Some name, st, p)) (task_specs (accepted env req) (refused env req))"
    and each: "\<forall>t \<in> set ts. \<exists>i k st p. t = user_task i j k (ae_now env) st p"
    by blast
  have "t_attempts t = 0 \<and> t_lease_expires_at t = None \<and>
       (t_status t = PENDING \<and> t_error_payload t = None \<or>
        t_status t = FAILED \<and> (\<exists>r. t_error_payload t = Some (validation_payload r)))"
    if t: "t \<in> set ts" for t
  proof -
    from t each have "t_attempts t = 0 \<and> t_lease_expires_at t = None"
      by (auto simp: user_task_def)
    moreover have "(domain_name (t_domain_id t) d', t_status t, t_error_payload t) \<in>
        set (map (\<lambda>(name, st, p). (Some name, st, p)) (task_specs (accepted env req) (refused env req)))"
      unfolding st [symmetric] using t by simp
    then have "t_status t = PENDING \<and> t_error_payload t = None \<or>
        t_status t = FAILED \<and> (\<exists>r. t_error_payload t = Some (validation_payload r))"
      by (auto simp: task_specs_def)
    ultimately show ?thesis by simp
  qed
  with ts w1 show ?thesis by auto
qed

subsection \<open>Invariants of all reachable databases\<close>

lemma schema_ok_step: "db_step m d d' \<Longrightarrow> schema_ok d \<Longrightarrow> schema_ok d'"
proof (induction rule: db_step.induct)
  case (step_create env req d out d')
  then show ?case by (blast dest: create_job_rows)
next
  case (step_claim ms locked now now' pool d waiting pool' d')
  then show ?case by (blast dest: claim_cycle_db intro: schema_ok_claim_tasks)
next
  case (step_recover ms locked now now' clk jitter pool d waiting pool' d')
  then show ?case by (blast dest: recovery_cycle_db intro: schema_ok_recover)
next
  case (step_tick workers pool now ids d res d')
  then show ?case by (blast dest: tick_cases intro: schema_ok_create_refresh_tasks)
qed (simp_all add: schema_ok_complete_task schema_ok_fail_task schema_ok_write_fail_deact
    schema_ok_reschedule_task schema_ok_upsert_with_occ)

lemma tasks_ok_step: "db_step m d d' \<Longrightarrow> 0 < m \<Longrightarrow> schema_ok d \<Longrightarrow> tasks_ok m d \<Longrightarrow> tasks_ok m d'"
proof (induction rule: db_step.induct)
  case (step_create env req d out d')
  from create_job_rows [OF step_create(3,1)] obtain ts where ts: "db_tasks d' = db_tasks d @ ts"
    and each: "\<forall>t \<in> set ts. t_attempts t = 0 \<and> t_lease_expires_at t = None \<and>
       (t_status t = PENDING \<and> t_error_payload t = None \<or>
        t_status t = FAILED \<and> (\<exists>r. t_error_payload t = Some (validation_payload r)))"
    by blast
  have "task_ok m t" if "t \<in> set ts" for t
    using each that step_create(2)
    by (auto simp: task_ok_def retry_payload_def failure_payload_def validation_payload_def)
  with step_create(4) show ?case by (auto simp: tasks_ok_def list_all_iff ts)
next
  case (step_claim ms locked now now' pool d waiting pool' d')
  then show ?case by (blast dest: claim_cycle_db intro: tasks_ok_claim_tasks)
next
  case (step_recover ms locked now now' clk jitter pool d waiting pool' d')
  then show ?case by (blast dest: recovery_cycle_db intro: tasks_ok_recover)
next
  case (step_tick workers pool now ids d res d')
  then show ?case by (blast dest: tick_cases intro: tasks_ok_create_refresh_tasks)
next
  case (step_persist dd v d u d')
  then show ?case by (simp add: tasks_ok_cong [OF upsert_with_occ_tables(1)])
qed (simp_all add: tasks_ok_complete_task tasks_ok_fail_task tasks_ok_write_fail_deact
    tasks_ok_reschedule_task)

lemma invariants_steps:
  "db_steps m d d' \<Longrightarrow> 0 < m \<Longrightarrow> schema_ok d \<Longrightarrow> tasks_ok m d \<Longrightarrow> schema_ok d' \<and> tasks_ok m d'"
  by (induction rule: rtranclp_induct) (auto intro: schema_ok_step tasks_ok_step)

subsection \<open>What never goes backwards\<close>

text \<open>
  The abstract view of a run: rows of tasks and jobs are never deleted and keep their identity, the
  attempts of a task never decrease, and the status of a job only advances (no operation makes a job
  FAILED).
\<close>

fun job_progress :: "task_status \<Rightarrow> nat" where
  "job_progress PENDING = 0"
| "job_progress PROCESSING = 1"
| "job_progress COMPLETED = 2"
| "job_progress FAILED = 0"

definition task_follows :: "task \<Rightarrow> task \<Rightarrow> bool" where
  "task_follows t t' \<longleftrightarrow>
     t_id t' = t_id t \<and> t_job_id t' = t_job_id t \<and> t_domain_id t' = t_domain_id t \<and>
     t_type t' = t_type t \<and> t_created_at t' = t_created_at t \<and> t_attempts t \<le> t_attempts t'"

definition job_follows :: "job \<Rightarrow> job \<Rightarrow> bool" where
  "job_follows j j' \<longleftrightarrow>
     j_id j' = j_id j \<and> j_created_at j' = j_created_at j \<and>
     job_progress (j_status j) \<le> job_progress (j_status j') \<and>
     (j_status j' = FAILED \<longrightarrow> j_status j = FAILED)"

definition progresses :: "db \<Rightarrow> db \<Rightarrow> bool" where
  "progresses d d' \<longleftrightarrow>
     (\<forall>i t. get_task i d = Some t \<longrightarrow> (\<exists>t'. get_task i d' = Some t' \<and> task_follows t t')) \<and>
     (\<forall>i j. get_job i d = Some j \<longrightarrow> (\<exists>j'. get_job i d' = Some j' \<and> job_follows j j'))"

lemma follows_refl [simp]: "task_follows t t" "job_follows j j"
  by (simp_all add: task_follows_def job_follows_def)

lemma progresses_refl [simp]: "progresses d d"
  by (simp add: progresses_def)

lemma follows_trans:
  "task_follows t t' \<Longrightarrow> task_follows t' t'' \<Longrightarrow> task_follows t t''"
  "job_follows j j' \<Longrightarrow> job_follows j' j'' \<Longrightarrow> job_follows j j''"
  by (simp_all add: task_follows_def job_follows_def)

lemma progresses_trans:
  assumes "progresses d d'" and "progresses d' d''"
  shows "progresses d d''"
  unfolding progresses_def
proof (intro conjI allI impI)
  fix i t assume "get_task i d = Some t"
  with assms(1) obtain t' where t': "get_task i d' = Some t'" "task_follows t t'"
    unfolding progresses_def by blast
  with assms(2) obtain t'' where "get_task i d'' = Some t''" "task_follows t' t''"
    unfolding progresses_def by blast
  with t'(2) show "\<exists>t''. get_task i d'' = Some t'' \<and> task_follows t t''"
    by (blast intro: follows_trans)
next
  fix i j assume "get_job i d = Some j"
  with assms(1) obtain j' where j': "get_job i d' = Some j'" "job_follows j j'"
    unfolding progresses_def by blast
  with assms(2) obtain j'' where "get_job i d'' = Some j''" "job_follows j' j''"
    unfolding progresses_def by blast
  with j'(2) show "\<exists>j''. get_job i d'' = Some j'' \<and> job_follows j j''"
    by (blast intro: follows_trans)
qed

lemma progresses_same: "db_tasks d' = db_tasks d \<Longrightarrow> db_jobs d' = db_jobs d \<Longrightarrow> progresses d d'"
  by (simp add: progresses_def get_task_def get_job_def)

lemma progresses_append:
  "db_tasks d' = db_tasks d @ ts \<Longrightarrow> db_jobs d' = db_jobs d @ js \<Longrightarrow> progresses d d'"
  by (simp add: progresses_def get_task_def get_job_def row_simps)

lemma progresses_put_task:
  assumes "get_task i d = Some t" and "task_follows t t'"
  shows "progresses d (put_task t' d)"
proof -
  have "t_id t' = i" using assms by (auto simp: task_follows_def dest: get_task_SomeD)
  with assms show ?thesis by (auto simp: progresses_def task_rows.get_put)
qed

lemma progresses_put_tasks:
  assumes "keys_ok d" and "set sel \<subseteq> set (db_tasks d)" and "distinct (map t_id sel)"
    and "\<And>t. task_follows t (f t)"
  shows "progresses d (put_tasks (map f sel) d)"
proof -
  have id: "t_id (f t) = t_id t" for t using assms(4) [of t] by (simp add: task_follows_def)
  have "\<exists>t'. get_task i (put_tasks (map f sel) d) = Some t' \<and> task_follows t t'"
    if "get_task i d = Some t" for i t
    using get_task_put_tasks_changed [OF assms(1) id assms(3,2)] get_task_SomeD [OF that] assms(4)
    by fastforce
  then show ?thesis by (auto simp: progresses_def get_job_def frame_simps)
qed

lemma progresses_check_job: "progresses d (check_and_update_job_status now k d)"
proof (cases k)
  case None
  then show ?thesis by (simp add: check_and_update_job_status_def)
next
  case (Some i)
  have "job_progress st \<le> job_progress (next_job_status b st) \<and>
      (next_job_status b st = FAILED \<longrightarrow> st = FAILED)" for st b
    by (cases st) (simp_all add: next_job_status_def)
  then have "\<exists>j'. get_job x (check_and_update_job_status now (Some i) d) = Some j' \<and> job_follows j j'"
    if "get_job x d = Some j" for x j
    using that by (simp add: check_job_get job_follows_def)
  then show ?thesis by (simp add: Some progresses_def)
qed

lemma progresses_frames [simp]:
  "progresses d (deactivate_if_active now i d') = progresses d d'"
  by (simp add: progresses_def get_job_def get_task_def)

lemmas progresses_update = progresses_trans [OF progresses_put_task progresses_check_job]

lemma progresses_complete_task: "progresses d (complete_task clk i st d)"
  by (auto simp: complete_task_def task_follows_def intro!: progresses_update split: option.split)

lemma progresses_fail_task: "progresses d (fail_task clk i e c d)"
  by (auto simp: fail_task_def task_follows_def intro!: progresses_update split: option.split)

lemma progresses_reschedule_task: "progresses d (reschedule_task m clk jit i e d)"
  by (auto simp: reschedule_task_def Let_def task_follows_def
      intro!: progresses_update progresses_put_task split: option.split)

lemma progresses_write_fail_deact: "progresses d (write_fail_task_with_deactivation clk i k e c x d)"
  by (simp add: write_fail_task_with_deactivation_def Let_def progresses_fail_task)

lemma progresses_claim:
  assumes "keys_ok d" and "claim_tasks locked limit lease types now d = (ts, d')"
  shows "progresses d d'"
proof -
  have "task_follows t (claim_mark lease now t)" for t
    by (simp add: task_follows_def claim_mark_def)
  note mark = progresses_put_tasks [OF assms(1) claim_select_subset distinct_ids_claim_select [OF assms(1)] this]
  show ?thesis using assms(2) mark by (auto simp: claim_tasks_def Let_def split: if_splits)
qed

lemma progresses_recover:
  assumes "keys_ok d" and "recover_expired_tasks m msg locked limit now now' clock jitter d = (ts, d')"
  shows "progresses d d'"
proof -
  have "task_follows t (recover_mark m msg now' clock jitter t)" for t
    by (simp add: task_follows_def recover_mark_def Let_def)
  note mark = progresses_put_tasks [OF assms(1) recover_select_subset distinct_ids_recover_select [OF assms(1)] this]
  show ?thesis using assms(2) mark by (auto simp: recover_expired_tasks_def Let_def split: if_splits)
qed

lemma progresses_create_task: "create_task t d = Inr d' \<Longrightarrow> progresses d d'"
  by (rule progresses_append [where ts = "[t]" and js = "[]"]) (auto dest: create_task_InrD(1))

lemma progresses_create_refresh:
  "create_refresh_tasks dms now ids n d = Inr (ts, d') \<Longrightarrow> progresses d d'"
  by (induction dms arbitrary: d n ts d')
    (auto simp: Let_def dest!: progresses_create_task elim: progresses_trans
      split: sum.splits option.splits)

lemma progresses_step: "db_step m d d' \<Longrightarrow> schema_ok d \<Longrightarrow> progresses d d'"
proof (induction rule: db_step.induct)
  case (step_create env req d out d')
  from create_job_rows [OF step_create(2,1)] show ?case by (auto intro: progresses_append)
next
  case (step_claim ms locked now now' pool d waiting pool' d')
  then have "keys_ok d" by (simp add: schema_ok_def)
  with step_claim show ?case by (blast dest: claim_cycle_db intro: progresses_claim progresses_refl)
next
  case (step_recover ms locked now now' clk jitter pool d waiting pool' d')
  then have "keys_ok d" by (simp add: schema_ok_def)
  with step_recover show ?case
    by (blast dest: recovery_cycle_db intro: progresses_recover progresses_refl)
next
  case (step_tick workers pool now ids d res d')
  then show ?case by (blast dest: tick_cases intro: progresses_create_refresh progresses_refl)
next
  case (step_persist dd v d u d')
  then show ?case using upsert_with_occ_tables(1,2) by (blast intro: progresses_same)
qed (simp_all add: progresses_complete_task progresses_fail_task progresses_write_fail_deact
    progresses_reschedule_task)

lemma progresses_steps: "db_steps m d d' \<Longrightarrow> schema_ok d \<Longrightarrow> progresses d d' \<and> schema_ok d'"
  by (induction rule: rtranclp_induct)
    (blast intro: progresses_refl progresses_trans progresses_step schema_ok_step)+

subsection \<open>The pipeline is a sequence of steps\<close>

text \<open>
  The contract of the write helpers once more: being reachable from a database by steps is a condition
  each helper keeps, so a run of the pipeline keeps it.
\<close>

interpretation step_writes: write_invariant "db_steps m d0" m for m d0
  by unfold_locales
    (auto intro: db_steps_step db_step.intros)

lemma process_task_steps:
  assumes "\<forall>f \<in> {pe_o1 env, pe_o2 env, pe_o3 env} \<union> range (pe_others env). \<forall>x. db_steps (pe_max_attempts env) x (f x)"
    and "process_task rd meanwhile env t (r, d) = ((res, d', urls), r')"
  shows "db_steps (pe_max_attempts env) d d'"
proof -
  have "step_writes.env_keeps (pe_max_attempts env) d env"
    using assms(1) by (auto simp: step_writes.env_keeps_def intro: rtranclp_trans)
  from step_writes.process_task_keeps [OF this _ assms(2)] show ?thesis by simp
qed


subsection \<open>The properties of every run\<close>

text \<open>
  C1. Every database the service can reach, by any interleaving of requests, claims, recoveries, ticks
  and processor sessions, satisfies the constraints of the schema, and each of its tasks the life-cycle
  invariant: at most \<open>m\<close> attempts, a PENDING task has attempts left and no lease, a PROCESSING one has a
  lease, a FAILED one an error that is not retryable.
\<close>

theorem reachable_invariants:
  assumes "0 < m" and "db_steps m empty_db d"
  shows "schema_ok d \<and> (\<forall>i t. get_task i d = Some t \<longrightarrow>
    t_attempts t \<le> m \<and>
    (t_status t = PENDING \<longrightarrow> t_attempts t < m \<and> t_lease_expires_at t = None) \<and>
    (t_status t = PROCESSING \<longrightarrow> 1 \<le> t_attempts t \<and> t_lease_expires_at t \<noteq> None) \<and>
    (t_status t = FAILED \<longrightarrow> (\<exists>p. t_error_payload t = Some p \<and> \<not> ep_retryable p)))"
proof -
  have "tasks_ok m empty_db" by (simp add: tasks_ok_def empty_db_def)
  from invariants_steps [OF assms(2,1) schema_ok_empty this]
  have inv: "schema_ok d" "tasks_ok m d" by simp_all
  have "t_attempts t \<le> m \<and>
    (t_status t = PENDING \<longrightarrow> t_attempts t < m \<and> t_lease_expires_at t = None) \<and>
    (t_status t = PROCESSING \<longrightarrow> 1 \<le> t_attempts t \<and> t_lease_expires_at t \<noteq> None) \<and>
    (t_status t = FAILED \<longrightarrow> (\<exists>p. t_error_payload t = Some p \<and> \<not> ep_retryable p))"
    if "get_task i d = Some t" for i t
    using tasks_ok_get [OF inv(2) that]
    by (cases "t_status t") (auto simp: task_ok_def failure_payload_def split: option.splits)
  with inv(1) show ?thesis by blast
qed

lemma demo_reachable:
  "\<exists>d. db_steps 3 empty_db d \<and> length (db_tasks d) = 3"
proof -
  have "fst (create_job demo_api demo_request empty_db) = Inr (Created 100) \<and>
      length (db_tasks (snd (create_job demo_api demo_request empty_db))) = 3"
    by code_simp
  then show ?thesis
    using step_create [of demo_api demo_request empty_db] by (metis prod.collapse r_into_rtranclp)
qed

theorem reachable_invariants_witness:
  "\<exists>d. length (db_tasks d) = 3 \<and> schema_ok d \<and> (\<forall>i t. get_task i d = Some t \<longrightarrow> t_attempts t \<le> 3)"
proof -
  obtain d where "db_steps 3 empty_db d" and "length (db_tasks d) = 3" using demo_reachable by blast
  with reachable_invariants [of 3 d] show ?thesis by auto
qed

text \<open>
  C21. Nothing is lost and nothing goes backwards in any run of the service: a task or job that exists
  stays, with its identity; the attempts of a task never decrease; the status of a job advances from
  PENDING over PROCESSING to COMPLETED and never becomes FAILED.
\<close>

theorem runs_progress:
  assumes "schema_ok d" and "db_steps m d d'"
  shows "(\<forall>i t. get_task i d = Some t \<longrightarrow> (\<exists>t'. get_task i d' = Some t' \<and>
      t_job_id t' = t_job_id t \<and> t_domain_id t' = t_domain_id t \<and> t_type t' = t_type t \<and>
      t_created_at t' = t_created_at t \<and> t_attempts t \<le> t_attempts t')) \<and>
    (\<forall>i j. get_job i d = Some j \<longrightarrow> (\<exists>j'. get_job i d' = Some j' \<and>
      job_progress (j_status j) \<le> job_progress (j_status j') \<and>
      (j_status j \<noteq> FAILED \<longrightarrow> j_status j' \<noteq> FAILED)))"
  using progresses_steps [OF assms(2,1)]
  unfolding progresses_def task_follows_def job_follows_def by fast

theorem runs_progress_witness:
  "\<exists>t'. get_task 12 (complete_task (\<lambda>_. 5) 12 COMPLETED demo_db) = Some t' \<and> 1 \<le> t_attempts t'"
proof -
  have step: "db_steps 3 demo_db (complete_task (\<lambda>_. 5) 12 COMPLETED demo_db)"
    by (rule r_into_rtranclp) (rule step_complete)
  have "get_task 12 demo_db = Some (demo_task 12 USER_REQUEST PROCESSING 1 (Some 100))"
    by (simp add: get_task_def row_simps demo_defs)
  moreover have "t_attempts (demo_task 12 USER_REQUEST PROCESSING 1 (Some 100)) = 1"
    by (simp add: demo_task_def)
  ultimately show ?thesis
    using runs_progress [OF demo_schema step] by metis
qed

text \<open>
  C18. The pipeline refines the system: whatever one run of \<open>process_task\<close> does to the database, together
  with what others commit in between, is a sequence of steps of the system, so every property of all
  reachable databases holds after it.
\<close>

theorem process_task_refines:
  assumes "\<forall>f \<in> {pe_o1 env, pe_o2 env, pe_o3 env} \<union> range (pe_others env).
      \<forall>x. db_steps (pe_max_attempts env) x (f x)"
    and "process_task rd meanwhile env t (r, d) = ((res, d', urls), r')"
  shows "db_steps (pe_max_attempts env) d d'"
  using assms by (rule process_task_steps)

theorem process_task_refines_witness:
  "\<exists>res d' urls r'. process_task map_redis (\<lambda>r. r) (demo_env (respond 200)) demo_claimed
     (Map.empty, demo_db) = ((res, d', urls), r') \<and> db_steps 3 demo_db d'"
proof -
  obtain res d' urls r' where run: "process_task map_redis (\<lambda>r. r) (demo_env (respond 200)) demo_claimed
      (Map.empty, demo_db) = ((res, d', urls), r')"
    by (metis prod.exhaust)
  have "db_steps (pe_max_attempts (demo_env (respond 200))) demo_db d'"
    by (rule process_task_refines [OF _ run]) (auto simp: demo_env_def)
  with run show ?thesis by (auto simp: demo_env_def)
qed

end
