(* ===== verification/Progress.thy ===== *)
theory Progress
  imports System
begin

section \<open>Liveness: every task is decided\<close>

text \<open>
  Safety says what a run never does; here is what it does in the end. A run is an infinite sequence of
  databases, each from the one before by a claim cycle, a recovery cycle, a write of the worker that has a
  task in hand, or nothing that touches the tasks. When the two loops of the manager keep getting their
  turn, every task is COMPLETED or FAILED after finitely many steps, however many workers crash: each claim
  costs an attempt, and the attempts are bounded.
\<close>

subsection \<open>The work left in a database\<close>

fun rank :: "nat \<Rightarrow> task \<Rightarrow> nat" where
  "rank m t =
     (case t_status t of
        PENDING \<Rightarrow> 2 * (m - t_attempts t)
      | PROCESSING \<Rightarrow> 2 * (m - t_attempts t) + 1
      | COMPLETED \<Rightarrow> 0
      | FAILED \<Rightarrow> 0)"

definition work_left :: "nat \<Rightarrow> db \<Rightarrow> nat" where
  "work_left m d = sum_list (map (rank m) (db_tasks d))"

definition decided :: "db \<Rightarrow> bool" where
  "decided d \<longleftrightarrow> list_all (\<lambda>t. t_status t = COMPLETED \<or> t_status t = FAILED) (db_tasks d)"

subsection \<open>The steps of a run\<close>

text \<open>The steps of the system, with no new tasks, and with writes of a worker for a task it has claimed.\<close>

inductive work_step :: "nat \<Rightarrow> db \<Rightarrow> db \<Rightarrow> bool" for m :: nat where
  work_claim: "claim_cycle ms locked now now' pool d = (waiting, pool', d') \<Longrightarrow> work_step m d d'"
| work_recover:
    "ms_max_attempts ms = m \<Longrightarrow>
     recovery_cycle ms locked now now' clk jitter pool d = (waiting, pool', d') \<Longrightarrow> work_step m d d'"
| work_complete:
    "get_task i d = Some t \<Longrightarrow> t_status t = PROCESSING \<Longrightarrow> work_step m d (complete_task clk i COMPLETED d)"
| work_fail:
    "get_task i d = Some t \<Longrightarrow> t_status t = PROCESSING \<Longrightarrow> c \<noteq> ''retryable'' \<Longrightarrow>
     work_step m d (write_fail_task_with_deactivation clk i k e c x d)"
| work_reschedule:
    "get_task i d = Some t \<Longrightarrow> t_status t = PROCESSING \<Longrightarrow> work_step m d (reschedule_task m clk jit i e d)"
| work_persist: "upsert_with_occ dd v d = Inr (u, d') \<Longrightarrow> work_step m d d'"
| work_idle: "work_step m d d"

text \<open>
  A turn of a loop: the claim cycle finds room in the queue and no row locked, the recovery cycle finds the
  leases run out as well.
\<close>

inductive claim_turn :: "db \<Rightarrow> db \<Rightarrow> bool" where
  "0 < available_capacity q \<Longrightarrow> 0 < ms_worker_concurrency ms \<Longrightarrow>
   claim_cycle ms (\<lambda>_. False) now now' (Some q) d = (waiting, pool', d') \<Longrightarrow> claim_turn d d'"

inductive recovery_turn :: "nat \<Rightarrow> db \<Rightarrow> db \<Rightarrow> bool" for m :: nat where
  "ms_max_attempts ms = m \<Longrightarrow> 0 < available_capacity q \<Longrightarrow> 0 < ms_worker_concurrency ms \<Longrightarrow>
   \<forall>t \<in> set (db_tasks d). pred_option (\<lambda>l. l < now) (t_lease_expires_at t) \<Longrightarrow>
   recovery_cycle ms (\<lambda>_. False) now now' clk jitter (Some q) d = (waiting, pool', d') \<Longrightarrow>
   recovery_turn m d d'"

inductive_cases claim_turnE: "claim_turn d d'"
inductive_cases recovery_turnE: "recovery_turn m d d'"

subsection \<open>Tables after a write\<close>

lemma rows_eqI:
  "distinct (map key rs) \<Longrightarrow> map key rs' = map key rs \<Longrightarrow>
   (\<And>r. r \<in> set rs \<Longrightarrow> find_by key (key r) rs' = Some r) \<Longrightarrow> rs' = rs"
proof (induction rs arbitrary: rs')
  case Nil
  then show ?case by simp
next
  case (Cons r rs)
  from Cons.prems(2) obtain r' us where rs': "rs' = r' # us" "key r' = key r" "map key us = map key rs"
    by (cases rs') auto
  with Cons.prems(3) [of r] have "r' = r" by (simp add: row_simps)
  moreover have "us = rs"
  proof (rule Cons.IH)
    show "find_by key (key x) us = Some x" if "x \<in> set rs" for x
    proof -
      have "key r' \<noteq> key x" using Cons.prems(1) that rs'(2) by (metis distinct.simps(2) image_eqI list.set_map list.simps(9))
      with Cons.prems(3) [of x] that rs'(1) show ?thesis by (simp add: row_simps)
    qed
  qed (use Cons.prems(1) rs'(3) in simp_all)
  ultimately show ?case by (simp add: rs'(1))
qed

lemma put_tasks_map:
  assumes "keys_ok d" and "\<And>t. t_id (f t) = t_id t" and "set sel \<subseteq> set (db_tasks d)"
    and "distinct (map t_id sel)"
  shows "db_tasks (put_tasks (map f sel) d) = map (\<lambda>t. if t \<in> set sel then f t else t) (db_tasks d)"
proof -
  let ?g = "\<lambda>t. if t \<in> set sel then f t else t"
  have id: "t_id (?g t) = t_id t" for t using assms(2) by simp
  have ids: "map t_id (map ?g (db_tasks d)) = map t_id (db_tasks d)"
    by (simp add: comp_def id del: if_image_distrib)
  show ?thesis
  proof (rule rows_eqI [where key = t_id])
    show "distinct (map t_id (map ?g (db_tasks d)))" using assms(1) by (simp only: ids keys_okD)
    show "map t_id (db_tasks (put_tasks (map f sel) d)) = map t_id (map ?g (db_tasks d))"
      by (simp only: ids task_ids_put_tasks)
    fix r assume "r \<in> set (map ?g (db_tasks d))"
    then obtain t where t: "t \<in> set (db_tasks d)" "r = ?g t" by auto
    have "t_id r = t_id t" by (simp only: t(2) id)
    moreover have "get_task (t_id t) (put_tasks (map f sel) d) = Some (?g t)"
      by (rule get_task_put_tasks_changed [OF assms(1,2,4,3) t(1)])
    ultimately show "find_by t_id (t_id r) (db_tasks (put_tasks (map f sel) d)) = Some r"
      by (simp add: get_task_def t(2))
  qed
qed

lemma put_task_map:
  assumes "keys_ok d" and "get_task i d = Some t" and "t_id t' = i"
  shows "db_tasks (put_task t' d) = map (\<lambda>x. if x = t then t' else x) (db_tasks d)"
proof -
  have "t_id x = t_id t' \<longleftrightarrow> x = t" if "x \<in> set (db_tasks d)" for x
    using get_task_member [OF assms(1) that] get_task_SomeD [OF assms(2)] assms(2,3) by auto
  then show ?thesis by (simp add: put_task_def write_row_def)
qed

subsection \<open>A step that changes a task leaves less work\<close>

lemma less_work:
  assumes "db_tasks d' = map (\<lambda>t. if t \<in> S then f t else t) (db_tasks d)"
    and "\<And>t. t \<in> S \<Longrightarrow> t \<in> set (db_tasks d) \<Longrightarrow> rank m (f t) < rank m t"
    and "t \<in> S" and "t \<in> set (db_tasks d)"
  shows "work_left m d' < work_left m d"
proof -
  let ?g = "\<lambda>t. if t \<in> S then f t else t"
  have "sum_list (map (rank m \<circ> ?g) ts) + (if t \<in> set ts then 1 else 0) \<le> sum_list (map (rank m) ts)"
    if "set ts \<subseteq> set (db_tasks d)" for ts
    using that
  proof (induction ts)
    case Nil
    then show ?case by simp
  next
    case (Cons x xs)
    then have "x \<in> S \<Longrightarrow> rank m (f x) < rank m x" using assms(2) by simp
    then have "x \<in> S \<Longrightarrow> Suc (rank m (f x)) \<le> rank m x" by (simp only: Suc_le_eq)
    with Cons assms(3) show ?case by (auto simp del: rank.simps)
  qed
  from this [of "db_tasks d"] assms(4) show ?thesis
    by (simp add: work_left_def assms(1) del: rank.simps)
qed


abbreviation no_more_work :: "nat \<Rightarrow> db \<Rightarrow> db \<Rightarrow> bool" where
  "no_more_work m d d' \<equiv> db_tasks d' = db_tasks d \<or> work_left m d' < work_left m d"

lemma less_work_put_tasks:
  assumes "keys_ok d" and "\<And>t. t_id (f t) = t_id t" and "set sel \<subseteq> set (db_tasks d)"
    and "distinct (map t_id sel)" and "\<And>t. t \<in> set sel \<Longrightarrow> rank m (f t) < rank m t" and "sel \<noteq> []"
  shows "work_left m (put_tasks (map f sel) d) < work_left m d"
proof -
  from assms(6) obtain t where "t \<in> set sel" by (cases sel) auto
  with assms(3,5) show ?thesis
    by (intro less_work [OF put_tasks_map [OF assms(1-4)]]) auto
qed

lemma rank_claim_mark: "task_ok m t \<Longrightarrow> t_status t = PENDING \<Longrightarrow> rank m (claim_mark lease now t) < rank m t"
  unfolding task_ok_def by simp arith

lemma rank_recover_mark: "t_status t = PROCESSING \<Longrightarrow> rank m (recover_mark m msg now clk jit t) < rank m t"
  by (simp add: recover_mark_status)

lemma claim_tasks_work:
  assumes "keys_ok d" and "tasks_ok m d" and "claim_tasks locked limit lease None now d = (ts, d')"
  shows "no_more_work m d d'"
    and "0 < limit \<Longrightarrow> claim_select locked limit [USER_REQUEST, REFRESH] d \<noteq> [] \<Longrightarrow> work_left m d' < work_left m d"
proof -
  let ?sel = "claim_select locked limit [USER_REQUEST, REFRESH] d"
  have less: "work_left m (put_tasks (map (claim_mark lease now) ?sel) d) < work_left m d" if "?sel \<noteq> []"
    using that assms(2)
    by (intro less_work_put_tasks [OF assms(1) _ claim_select_subset distinct_ids_claim_select [OF assms(1)]])
      (auto intro!: rank_claim_mark dest: claim_selectD tasks_okD simp del: rank.simps)
  have eq: "d' = (if limit \<le> 0 then d else put_tasks (map (claim_mark lease now) ?sel) d)"
    using assms(3) by (auto simp: claim_tasks_def Let_def split: if_splits)
  show "0 < limit \<Longrightarrow> ?sel \<noteq> [] \<Longrightarrow> work_left m d' < work_left m d" using less by (simp add: eq)
  show "no_more_work m d d'"
    using less by (cases "?sel = []") (simp_all add: eq put_tasks_def)
qed

lemma recover_tasks_work:
  assumes "keys_ok d" and "recover_expired_tasks m msg locked limit now now' clk jit d = (ts, d')"
  shows "no_more_work m d d'"
    and "0 < limit \<Longrightarrow> recover_select locked limit now d \<noteq> [] \<Longrightarrow> work_left m d' < work_left m d"
proof -
  let ?sel = "recover_select locked limit now d"
  have less: "work_left m (put_tasks (map (recover_mark m msg now' clk jit) ?sel) d) < work_left m d"
    if "?sel \<noteq> []"
    using that
    by (intro less_work_put_tasks [OF assms(1) _ recover_select_subset distinct_ids_recover_select [OF assms(1)]])
      (auto intro!: rank_recover_mark dest: recover_selectD simp del: rank.simps)
  have eq: "d' = (if limit \<le> 0 then d else put_tasks (map (recover_mark m msg now' clk jit) ?sel) d)"
    using assms(2) by (auto simp: recover_expired_tasks_def Let_def split: if_splits)
  show "0 < limit \<Longrightarrow> ?sel \<noteq> [] \<Longrightarrow> work_left m d' < work_left m d" using less by (simp add: eq)
  show "no_more_work m d d'"
    using less by (cases "?sel = []") (simp_all add: eq put_tasks_def)
qed

lemma put_task_work:
  assumes "keys_ok d" and "get_task i d = Some t" and "t_id t' = i" and "rank m t' < rank m t"
  shows "work_left m (put_task t' d) < work_left m d"
proof (rule less_work [where S = "{t}" and f = "\<lambda>_. t'" and t = t])
  show "db_tasks (put_task t' d) = map (\<lambda>x. if x \<in> {t} then t' else x) (db_tasks d)"
    using put_task_map [OF assms(1-3)] by simp
qed (use assms(2,4) in \<open>auto dest: get_task_SomeD simp del: rank.simps\<close>)

lemma work_left_frames [simp]:
  "work_left m (check_and_update_job_status now k d) = work_left m d"
  "work_left m (deactivate_if_active now i d) = work_left m d"
  by (simp_all add: work_left_def)

lemma outcome_work:
  assumes "keys_ok d" and "get_task i d = Some t" and "t_status t = PROCESSING"
  shows "work_left m (complete_task clk i COMPLETED d) < work_left m d"
    and "work_left m (write_fail_task_with_deactivation clk i k e c x d) < work_left m d"
    and "work_left m (reschedule_task m clk jit i e d) < work_left m d"
proof -
  have i: "t_id t = i" using assms(2) by (auto dest: get_task_SomeD)
  note put = put_task_work [OF assms(1,2), of _ m]
  show "work_left m (complete_task clk i COMPLETED d) < work_left m d"
    using put assms(2,3) i by (simp add: complete_task_def)
  show "work_left m (write_fail_task_with_deactivation clk i k e c x d) < work_left m d"
    using put assms(2,3) i
    by (simp add: write_fail_task_with_deactivation_def run_session_def fail_task_def Let_def)
  show "work_left m (reschedule_task m clk jit i e d) < work_left m d"
    using put assms(2,3) i by (simp add: reschedule_task_def Let_def)
qed

lemma work_step_work:
  "work_step m d d' \<Longrightarrow> keys_ok d \<Longrightarrow> tasks_ok m d \<Longrightarrow> no_more_work m d d'"
proof (induction rule: work_step.induct)
  case (work_claim ms locked now now' pool d waiting pool' d')
  from claim_cycle_db [OF work_claim(1)] claim_tasks_work(1) [OF work_claim(2,3)] show ?case by metis
next
  case (work_recover ms locked now now' clk jitter pool d waiting pool' d')
  from recovery_cycle_db [OF work_recover(2)] recover_tasks_work(1) [OF work_recover(3)] work_recover(1)
  show ?case by metis
next
  case (work_persist dd v d u d')
  then show ?case by (simp add: upsert_with_occ_tables(1))
qed (simp_all add: outcome_work)

lemma work_step_db_step: "work_step m d d' \<Longrightarrow> d' = d \<or> db_step m d d'"
  by (induction rule: work_step.induct) (auto intro: db_step.intros)

subsection \<open>A turn does some of the work\<close>

lemma claim_turn_work:
  assumes "claim_turn d d'" and "keys_ok d" and "tasks_ok m d" and "t \<in> set (db_tasks d)" and "t_status t = PENDING"
  shows "work_left m d' < work_left m d"
  using assms(1)
proof (rule claim_turnE)
  fix q :: "task bounded_queue" and ms :: manager_settings and now now' waiting pool'
  let ?n = "min (available_capacity q) (ms_worker_concurrency ms)"
  assume "0 < available_capacity q" "0 < ms_worker_concurrency ms"
    and run: "claim_cycle ms (\<lambda>_. False) now now' (Some q) d = (waiting, pool', d')"
  then have n: "0 < ?n" by simp
  obtain claimed d1 where c: "claim_tasks (\<lambda>_. False) ?n (now + seconds (ms_task_lease_seconds ms)) None now' d = (claimed, d1)"
    by fastforce
  have "d' = d1" using run claim_cycle_eq [OF n c] by simp
  moreover have "claimable (\<lambda>_. False) [USER_REQUEST, REFRESH] t"
    using assms(5) by (cases "t_type t") (simp_all add: claimable_def)
  then have "filter (claimable (\<lambda>_. False) [USER_REQUEST, REFRESH]) (db_tasks d) \<noteq> []"
    using assms(4) by (auto simp: filter_empty_conv)
  then have "claim_select (\<lambda>_. False) ?n [USER_REQUEST, REFRESH] d \<noteq> []"
    using n by (simp flip: length_greater_0_conv add: length_claim_select)
  ultimately show ?thesis using claim_tasks_work(2) [OF assms(2,3) c n] by simp
qed

lemma recovery_cycle_eq:
  assumes "0 < min (available_capacity q) (ms_worker_concurrency ms)"
  shows "snd (snd (recovery_cycle ms locked now now' clk jitter (Some q) d)) =
    snd (recover_expired_tasks (ms_max_attempts ms) (recovery_message (ms_max_attempts ms)) locked
      (min (available_capacity q) (ms_worker_concurrency ms)) now now' clk jitter d)"
  using assms
  by (auto simp: recovery_cycle_def Let_def close_session_def min_le_iff_disj
      dest: recovered_loop_committed split: prod.split)

lemma recovery_turn_work:
  assumes "recovery_turn m d d'" and "keys_ok d" and "tasks_ok m d" and "t \<in> set (db_tasks d)"
    and "t_status t = PROCESSING"
  shows "work_left m d' < work_left m d"
  using assms(1)
proof (rule recovery_turnE)
  fix ms :: manager_settings and q :: "task bounded_queue" and now now' clk jitter waiting pool'
  let ?n = "min (available_capacity q) (ms_worker_concurrency ms)"
  assume ms: "ms_max_attempts ms = m" and "0 < available_capacity q" "0 < ms_worker_concurrency ms"
    and late: "\<forall>t \<in> set (db_tasks d). pred_option (\<lambda>l. l < now) (t_lease_expires_at t)"
    and run: "recovery_cycle ms (\<lambda>_. False) now now' clk jitter (Some q) d = (waiting, pool', d')"
  then have n: "0 < ?n" by simp
  obtain ts d1 where r: "recover_expired_tasks m (recovery_message m) (\<lambda>_. False) ?n now now' clk jitter d = (ts, d1)"
    by fastforce
  have "d' = d1" using run recovery_cycle_eq [OF n, of "\<lambda>_. False" now now' clk jitter d] r ms by simp
  moreover obtain l where "t_lease_expires_at t = Some l" "l < now"
    using late assms(4) tasks_okD [OF assms(3,4)] assms(5) by (fastforce simp: task_ok_def)
  then have "expired (\<lambda>_. False) now t" using assms(5) by (simp add: expired_def)
  then have "filter (expired (\<lambda>_. False) now) (db_tasks d) \<noteq> []"
    using assms(4) by (auto simp: filter_empty_conv)
  then have "recover_select (\<lambda>_. False) ?n now d \<noteq> []"
    using n by (simp flip: length_greater_0_conv add: recover_select_def min_le_iff_disj)
  ultimately show ?thesis using recover_tasks_work(2) [OF assms(2) r n] by simp
qed


subsection \<open>Every run decides every task\<close>

lemma run_invariants:
  assumes "0 < m" and "schema_ok (s 0)" and "tasks_ok m (s 0)" and "\<forall>n. work_step m (s n) (s (Suc n))"
  shows "schema_ok (s n) \<and> tasks_ok m (s n) \<and> progresses (s 0) (s n)"
proof (induction n)
  case 0
  with assms(2,3) show ?case by simp
next
  case (Suc n)
  from assms(4) have "s (Suc n) = s n \<or> db_step m (s n) (s (Suc n))" by (blast dest: work_step_db_step)
  with Suc assms(1) show ?case
    by (metis schema_ok_step tasks_ok_step progresses_step progresses_trans)
qed

lemma falls_to_constant:
  fixes f :: "nat \<Rightarrow> nat"
  assumes "\<And>n. f (Suc n) \<le> f n"
  shows "\<exists>n. \<forall>k \<ge> n. f k = f n"
proof -
  have mono: "f k \<le> f n" if "n \<le> k" for n k
    using that by (induction rule: dec_induct) (auto intro: order_trans assms)
  define v where "v = (LEAST v. \<exists>n. f n = v)"
  have "\<exists>n. f n = v" unfolding v_def by (rule LeastI) auto
  then obtain n where n: "f n = v" ..
  have "v \<le> f k" for k unfolding v_def by (rule Least_le) auto
  with n mono have "\<forall>k \<ge> n. f k = f n" by (metis le_antisym)
  then show ?thesis ..
qed

lemma run_settles:
  assumes "\<And>n. keys_ok (s n) \<and> tasks_ok m (s n)" and "\<forall>n. work_step m (s n) (s (Suc n))"
  shows "\<exists>n. \<forall>k \<ge> n. db_tasks (s k) = db_tasks (s n)"
proof -
  have step: "no_more_work m (s n) (s (Suc n))" for n
    using work_step_work [of m "s n" "s (Suc n)"] assms by blast
  then have "work_left m (s (Suc n)) \<le> work_left m (s n)" for n
    by (metis less_imp_le order_refl work_left_def)
  from falls_to_constant [of "\<lambda>n. work_left m (s n)", OF this] obtain n where n: "\<And>k. n \<le> k \<Longrightarrow> work_left m (s k) = work_left m (s n)"
    by blast
  have "db_tasks (s k) = db_tasks (s n)" if "n \<le> k" for k
    using that
  proof (induction rule: dec_induct)
    case base
    show ?case ..
  next
    case (step k)
    with n [of k] n [of "Suc k"] \<open>\<And>n. no_more_work m (s n) (s (Suc n))\<close> [of k] show ?case by simp
  qed
  then show ?thesis by blast
qed

lemma run_decides:
  assumes "0 < m" and "schema_ok (s 0)" and "tasks_ok m (s 0)"
    and "\<forall>n. work_step m (s n) (s (Suc n))"
    and "\<forall>n. \<exists>k \<ge> n. claim_turn (s k) (s (Suc k))"
    and "\<forall>n. \<exists>k \<ge> n. recovery_turn m (s k) (s (Suc k))"
  shows "\<exists>n. \<forall>k \<ge> n. decided (s k)"
proof -
  have inv: "keys_ok (s n) \<and> tasks_ok m (s n) \<and> progresses (s 0) (s n)" for n
    using run_invariants [OF assms(1-4)] by (simp add: schema_ok_def)
  then obtain n where n: "\<And>k. n \<le> k \<Longrightarrow> db_tasks (s k) = db_tasks (s n)"
    using run_settles [of s m] assms(4) by blast
  obtain c where c: "n \<le> c" "claim_turn (s c) (s (Suc c))" using assms(5) by blast
  obtain r where r: "n \<le> r" "recovery_turn m (s r) (s (Suc r))" using assms(6) by blast
  have same: "work_left m (s (Suc k)) = work_left m (s k)" if "n \<le> k" for k
    using n [of k] n [of "Suc k"] that by (simp add: work_left_def)
  have "t_status t = COMPLETED \<or> t_status t = FAILED" if "t \<in> set (db_tasks (s n))" for t
    using claim_turn_work [OF c(2), of m t] recovery_turn_work [OF r(2), of t] inv that n [of c] n [of r]
      same [OF c(1)] same [OF r(1)] c(1) r(1)
    by (cases "t_status t") simp_all
  then have dn: "decided (s n)" unfolding decided_def list_all_iff by blast
  have "decided (s k)" if "n \<le> k" for k using dn unfolding decided_def n [OF that] .
  then show ?thesis by blast
qed



text \<open>A run in which every worker crashes: the two cycles take turns, each on a fresh queue.\<close>

definition demo_settings :: manager_settings where
  "demo_settings = \<lparr>ms_worker_concurrency = 1, ms_task_lease_seconds = 60, ms_max_attempts = 3\<rparr>"

fun after_leases :: "task list \<Rightarrow> timestamp" where
  "after_leases [] = 0"
| "after_leases (t # ts) =
     (case t_lease_expires_at t of None \<Rightarrow> after_leases ts | Some l \<Rightarrow> max (l + 1) (after_leases ts))"

fun crash_run :: "nat \<Rightarrow> db" where
  "crash_run 0 = demo_db"
| "crash_run (Suc n) =
     (let d = crash_run n in
      if even n then snd (snd (claim_cycle demo_settings (\<lambda>_. False) 0 0 (Some empty_queue) d))
      else snd (snd (recovery_cycle demo_settings (\<lambda>_. False) (after_leases (db_tasks d)) 0 (\<lambda>_. 0) (\<lambda>_. 30)
        (Some empty_queue) d)))"

lemma after_leases: "t \<in> set ts \<Longrightarrow> pred_option (\<lambda>l. l < after_leases ts) (t_lease_expires_at t)"
  by (induction ts) (fastforce split: option.splits simp: pred_option_def)+

lemma crash_run_turns:
  "even n \<Longrightarrow> claim_turn (crash_run n) (crash_run (Suc n))"
  "odd n \<Longrightarrow> recovery_turn 3 (crash_run n) (crash_run (Suc n))"
proof -
  have room: "0 < available_capacity empty_queue" "0 < ms_worker_concurrency demo_settings"
      "ms_max_attempts demo_settings = 3"
    by (simp_all add: available_capacity_def queue_size_def empty_queue_def demo_settings_def)
  show "claim_turn (crash_run n) (crash_run (Suc n))" if "even n"
    using that by (auto simp: Let_def intro!: claim_turn.intros [OF room(1,2)] prod_eqI)
  show "recovery_turn 3 (crash_run n) (crash_run (Suc n))" if "odd n"
    using that after_leases
    by (auto simp: Let_def intro!: recovery_turn.intros [OF room(3,1,2)] prod_eqI)
qed

lemma claim_turn_step: "claim_turn d d' \<Longrightarrow> work_step m d d'"
  by (erule claim_turnE, erule work_claim)

lemma recovery_turn_step: "recovery_turn m d d' \<Longrightarrow> work_step m d d'"
  by (erule recovery_turnE, erule (1) work_recover)


end
