(* ===== verification/Worker_Pool.thy ===== *)
theory Worker_Pool
  imports Processor Bounded_Queue
begin

section \<open>Workers and the worker pool (worker/worker.py)\<close>

text \<open>
  A worker takes one task after the other out of the queue and gives it to its handler; an exception of the
  handler is logged and the loop goes on, cancellation ends it. The pool starts and stops all workers.
  Stopping takes time: a worker that is told to stop finishes the task in its hands first.
\<close>

subsection \<open>The loop of a worker\<close>

text \<open>How a call of a handler ends.\<close>

datatype handler_outcome = Returned | Raised exn | Was_cancelled

datatype loop_end = Stopped | Cancelled

type_synonym 's handler = "task \<Rightarrow> 's \<Rightarrow> handler_outcome \<times> 's"

text \<open>
  One pass of the loop: with nothing in the queue \<open>wait_for\<close> times out; \<open>task_done\<close> is called however the
  handler ends, and an exception of its own would replace the one of the handler. The result says whether
  the loop goes on, and which task was taken.
\<close>

definition worker_pass ::
  "'s handler \<Rightarrow> task bounded_queue \<times> 's \<Rightarrow> bool \<times> task list \<times> task bounded_queue \<times> 's" where
  "worker_pass h st =
     (let (q, s) = st in
      case get q of
        None \<Rightarrow> (True, [], q, s)
      | Some (t, q1) \<Rightarrow>
          (let (out, s1) = h t s in
           case task_done q1 of
             Inl e \<Rightarrow> (True, [t], q1, s1)
           | Inr q2 \<Rightarrow> (out \<noteq> Was_cancelled, [t], q2, s1)))"

text \<open>
  The loop: one entry for each time \<open>_running\<close> is read as true, with what others do to the queue and the
  state before that pass. The result has the tasks taken, in order.
\<close>

fun worker_loop ::
  "'s handler \<Rightarrow> (task bounded_queue \<times> 's \<Rightarrow> task bounded_queue \<times> 's) list \<Rightarrow> task bounded_queue \<times> 's
     \<Rightarrow> task list \<times> loop_end \<times> task bounded_queue \<times> 's" where
  "worker_loop h [] st = ([], Stopped, st)"
| "worker_loop h (others # rest) st =
     (let (continue, ts, st1) = worker_pass h (others st) in
      if \<not> continue then (ts, Cancelled, st1)
      else (let (ts', ended, st2) = worker_loop h rest st1 in (ts @ ts', ended, st2)))"

subsection \<open>Handlers\<close>

text \<open>
  \<open>_process_task\<close> gives a handler that manages its own sessions just the task; any other handler runs in a
  session of the worker, which is committed when it returns. The commit can raise too.
\<close>

definition session_handler :: "exn option \<Rightarrow> db handler \<Rightarrow> db handler" where
  "session_handler commit_fault h t d =
     (let s = open_session d; (out, w) = h t (s_work s); s = s\<lparr>s_work := w\<rparr> in
      case out of
        Returned \<Rightarrow>
          (case commit_fault of
             None \<Rightarrow> (Returned, close_session (commit s))
           | Some e \<Rightarrow> (Raised e, close_session (rollback s)))
      | Raised e \<Rightarrow> (Raised e, close_session (rollback s))
      | Was_cancelled \<Rightarrow> (Was_cancelled, close_session s))"

definition worker_process_task :: "bool \<Rightarrow> exn option \<Rightarrow> db handler \<Rightarrow> db handler" where
  "worker_process_task attached commit_fault h =
     (if attached then h else session_handler commit_fault h)"

text \<open>
  The handler of production: run the pipeline, then close the HTTP client, however the run ends. What the
  pipeline returns is dropped; what it or the closing raises goes to the loop.
\<close>

definition phase9_task_handler ::
  "'r redis \<Rightarrow> ('r \<Rightarrow> 'r) \<Rightarrow> (task \<Rightarrow> proc_env) \<Rightarrow> (task \<Rightarrow> exn option) \<Rightarrow> ('r \<times> db) handler" where
  "phase9_task_handler rd meanwhile env closing t s =
     (let ((res, d, urls), r) = process_task rd meanwhile (env t) t s in
      case closing t of
        Some e \<Rightarrow> (Raised e, (r, d))
      | None \<Rightarrow> (case res of Inl e \<Rightarrow> (Raised e, (r, d)) | Inr _ \<Rightarrow> (Returned, (r, d))))"

subsection \<open>What a worker does with the queue\<close>

lemma get_ok:
  assumes "queue_ok q" and "bq_items q = t # ts" and "length (bq_items q) \<le> bq_unfinished q"
  obtains q1 q2 where "get q = Some (t, q1)" and "task_done q1 = Inr q2" and "queue_ok q2"
    and "bq_items q2 = ts" and "length (bq_items q2) \<le> bq_unfinished q2"
    and "bq_unfinished q = Suc (bq_unfinished q2)"
proof -
  let ?q1 = "dequeue ts q"
  let ?q2 = "?q1\<lparr>bq_unfinished := bq_unfinished q - 1\<rparr>"
  have ok: "queue_ok ?q1" by (rule queue_ok_dequeue [OF assms(1,2)])
  have "queue_ok ?q2" using ok by (simp add: queue_ok_def Let_def)
  moreover have "task_done ?q1 = Inr ?q2"
    using assms(2,3) by (simp add: task_done_def dequeue_def Let_def)
  ultimately show thesis
    using that [of ?q1 ?q2] assms(2,3) by (simp add: get_def dequeue_def Let_def)
qed

lemma worker_loop_serves:
  assumes "\<And>t s. fst (h t s) \<noteq> Was_cancelled"
    and "queue_ok q" and "length (bq_items q) \<le> bq_unfinished q"
    and "worker_loop h (replicate n (\<lambda>st. st)) (q, s) = (ts, ended, q', s')"
  shows "ended = Stopped \<and> ts = take n (bq_items q) \<and> bq_items q' = drop n (bq_items q) \<and>
    queue_ok q' \<and> bq_unfinished q = bq_unfinished q' + length ts"
  using assms(2-)
proof (induction n arbitrary: q s ts)
  case 0
  then show ?case by simp
next
  case (Suc n)
  show ?case
  proof (cases "bq_items q")
    case Nil
    then have "worker_pass h (q, s) = (True, [], q, s)"
      by (simp add: worker_pass_def get_def)
    with Suc.prems(3) have "worker_loop h (replicate n (\<lambda>st. st)) (q, s) = (ts, ended, q', s')"
      by (auto simp: Let_def split: prod.splits)
    from Suc.IH [OF Suc.prems(1,2) this] Nil show ?thesis by simp
  next
    case (Cons t rest)
    from get_ok [OF Suc.prems(1) Cons Suc.prems(2)] obtain q1 q2 where
      q: "get q = Some (t, q1)" "task_done q1 = Inr q2" "queue_ok q2" "bq_items q2 = rest"
      "length (bq_items q2) \<le> bq_unfinished q2" "bq_unfinished q = Suc (bq_unfinished q2)" by blast
    have pass: "worker_pass h (q, s) = (True, [t], q2, snd (h t s))"
      using assms(1) [of t s] by (cases "h t s") (simp add: worker_pass_def q)
    obtain ts' where run: "worker_loop h (replicate n (\<lambda>st. st)) (q2, snd (h t s)) = (ts', ended, q', s')"
      and ts: "ts = t # ts'"
      using Suc.prems(3) by (auto simp: pass Let_def split: prod.splits)
    from Suc.IH [OF q(3,5) run] show ?thesis
      by (simp add: ts q(4,6) Cons)
  qed
qed

text \<open>
  A worker serves the queue in order and survives its handler: as long as it is not cancelled,
  \<open>n\<close> passes take the first \<open>n\<close> tasks (or all there are), each once, whatever exceptions the handler
  raises; the queue keeps its invariant and each task taken is reported done exactly once.
\<close>

theorem worker_serves_queue:
  assumes "\<And>t s. fst (h t s) \<noteq> Was_cancelled"
    and "queue_ok q" and "length (bq_items q) \<le> bq_unfinished q"
    and "worker_loop h (replicate n (\<lambda>st. st)) (q, s) = (ts, ended, q', s')"
  shows "ended = Stopped \<and> ts = take n (bq_items q) \<and> bq_items q' = drop n (bq_items q) \<and>
    queue_ok q' \<and> bq_unfinished q = bq_unfinished q' + length ts"
  using assms by (rule worker_loop_serves)

definition two_task_queue :: "task bounded_queue" where
  "two_task_queue =
     \<lparr>bq_capacity = 2, bq_items = [demo_claimed, demo_claimed], bq_unfinished = 2,
      bq_stats = \<lparr>qs_capacity = 2, qs_size = 2, qs_max_size_reached = 2, qs_total_enqueued = 2,
                  qs_total_dequeued = 0\<rparr>\<rparr>"

theorem worker_serves_queue_witness:
  "fst (worker_loop (\<lambda>t n. (Raised integrity_error, Suc n)) (replicate 3 (\<lambda>st. st)) (two_task_queue, 0)) =
     [demo_claimed, demo_claimed]"
proof -
  obtain ts ended q' s' where run: "worker_loop (\<lambda>t n. (Raised integrity_error, Suc n))
      (replicate 3 (\<lambda>st. st)) (two_task_queue, 0) = (ts, ended, q', s')"
    by (metis prod.exhaust)
  have "queue_ok two_task_queue" "length (bq_items two_task_queue) \<le> bq_unfinished two_task_queue"
    by (simp_all add: two_task_queue_def queue_ok_def Let_def)
  from worker_serves_queue [OF _ this run] have "ts = [demo_claimed, demo_claimed]"
    by (simp add: two_task_queue_def)
  then show ?thesis unfolding run by simp
qed

subsection \<open>Starting and stopping\<close>

text \<open>The asyncio task of a loop.\<close>

datatype loop_state = No_loop | Live | Ended loop_end

record worker =
  wk_id :: string
  wk_running :: bool
  wk_loop :: loop_state

definition new_worker :: "string \<Rightarrow> worker" where
  "new_worker i = \<lparr>wk_id = i, wk_running = False, wk_loop = No_loop\<rparr>"

definition worker_start :: "worker \<Rightarrow> worker" where
  "worker_start w = (if wk_running w then w else w\<lparr>wk_running := True, wk_loop := Live\<rparr>)"

text \<open>
  \<open>stop\<close> at time \<open>now\<close>. \<open>ends i now\<close> is when the loop of worker \<open>i\<close> ends if it reads \<open>_running\<close> as false
  from \<open>now\<close> on, \<open>None\<close> if the handler never returns. A pending deadline is that of a \<open>wait_for\<close> around the
  call: when it passes while the loop is awaited, asyncio cancels the awaited loop, \<open>stop\<close> swallows the
  \<open>CancelledError\<close>, and the deadline is spent. The result is the worker, the deadline still pending, and
  the time, or \<open>None\<close> if \<open>stop\<close> never returns.
\<close>

definition worker_stop ::
  "(string \<Rightarrow> timestamp \<Rightarrow> timestamp option) \<Rightarrow> bool \<Rightarrow> worker \<Rightarrow> timestamp option \<Rightarrow> timestamp
     \<Rightarrow> (worker \<times> timestamp option \<times> timestamp) option" where
  "worker_stop ends graceful w deadline now =
     (if \<not> wk_running w then Some (w, deadline, now)
      else
        (let w = w\<lparr>wk_running := False\<rparr> in
         if wk_loop w \<noteq> Live then Some (w, deadline, now)
         else if \<not> graceful then Some (w\<lparr>wk_loop := Ended Cancelled\<rparr>, deadline, now)
         else
           (case (ends (wk_id w) now, deadline) of
              (None, None) \<Rightarrow> None
            | (Some e, None) \<Rightarrow> Some (w\<lparr>wk_loop := Ended Stopped\<rparr>, None, max now e)
            | (None, Some dl) \<Rightarrow> Some (w\<lparr>wk_loop := Ended Cancelled\<rparr>, None, max now dl)
            | (Some e, Some dl) \<Rightarrow>
                if e \<le> dl then Some (w\<lparr>wk_loop := Ended Stopped\<rparr>, Some dl, max now e)
                else Some (w\<lparr>wk_loop := Ended Cancelled\<rparr>, None, max now dl))))"

fun stop_workers ::
  "(string \<Rightarrow> timestamp \<Rightarrow> timestamp option) \<Rightarrow> bool \<Rightarrow> worker list \<Rightarrow> timestamp option \<Rightarrow> timestamp
     \<Rightarrow> (worker list \<times> timestamp option \<times> timestamp) option" where
  "stop_workers ends graceful [] deadline now = Some ([], deadline, now)"
| "stop_workers ends graceful (w # ws) deadline now =
     (case worker_stop ends graceful w deadline now of
        None \<Rightarrow> None
      | Some (w', deadline', now') \<Rightarrow>
          (case stop_workers ends graceful ws deadline' now' of
             None \<Rightarrow> None
           | Some (ws', deadline'', now'') \<Rightarrow> Some (w' # ws', deadline'', now'')))"

record worker_pool =
  wp_queue :: "task bounded_queue"
  wp_workers :: "worker list"
  wp_running :: bool

definition new_pool :: "int \<Rightarrow> string list \<Rightarrow> exn + worker_pool" where
  "new_pool capacity names =
     (case new_queue capacity of
        Inl e \<Rightarrow> Inl e
      | Inr q \<Rightarrow> Inr \<lparr>wp_queue = q, wp_workers = map new_worker names, wp_running = False\<rparr>)"

definition pool_start :: "worker_pool \<Rightarrow> worker_pool" where
  "pool_start p =
     (if wp_running p then p
      else p\<lparr>wp_running := True, wp_workers := map worker_start (wp_workers p)\<rparr>)"

definition pool_stop ::
  "(string \<Rightarrow> timestamp \<Rightarrow> timestamp option) \<Rightarrow> bool \<Rightarrow> worker_pool \<Rightarrow> timestamp option \<Rightarrow> timestamp
     \<Rightarrow> (worker_pool \<times> timestamp option \<times> timestamp) option" where
  "pool_stop ends graceful p deadline now =
     (if \<not> wp_running p then Some (p, deadline, now)
      else
        (case stop_workers ends graceful (wp_workers p) deadline now of
           None \<Rightarrow> None
         | Some (ws, deadline', now') \<Rightarrow>
             Some (p\<lparr>wp_running := False, wp_workers := ws\<rparr>, deadline', now')))"

subsection \<open>Stopping all workers\<close>

definition worker_ok :: "worker \<Rightarrow> bool" where
  "worker_ok w \<longleftrightarrow> (wk_loop w = Live \<longrightarrow> wk_running w)"

definition worker_down :: "worker \<Rightarrow> bool" where
  "worker_down w \<longleftrightarrow> \<not> wk_running w \<and> wk_loop w \<noteq> Live"

lemma worker_start_up: "wk_running (worker_start w)"
  by (simp add: worker_start_def)

lemma worker_stop_down:
  "worker_ok w \<Longrightarrow> worker_stop ends g w dl now = Some (w', dl', now') \<Longrightarrow>
   worker_down w' \<and> wk_id w' = wk_id w \<and> now \<le> now'"
  by (auto simp: worker_stop_def worker_ok_def worker_down_def Let_def split: if_splits option.splits)

lemma stop_workers_down:
  "list_all worker_ok ws \<Longrightarrow> stop_workers ends g ws dl now = Some (ws', dl', now') \<Longrightarrow>
   list_all worker_down ws' \<and> map wk_id ws' = map wk_id ws \<and> now \<le> now'"
  by (induction ws arbitrary: dl now ws')
    (fastforce dest: worker_stop_down split: option.splits prod.splits)+

lemma stop_workers_returns:
  assumes "\<forall>i t. ends i t \<noteq> None"
  shows "\<exists>r. stop_workers ends g ws dl now = Some r"
proof (induction ws arbitrary: dl now)
  case Nil
  then show ?case by simp
next
  case (Cons w ws)
  have "\<exists>w' dl' now'. worker_stop ends g w dl now = Some (w', dl', now')"
  proof -
    obtain e where "ends (wk_id w) now = Some e" using assms by blast
    then show ?thesis by (cases dl) (simp_all add: worker_stop_def Let_def)
  qed
  then obtain w' dl' now' where "worker_stop ends g w dl now = Some (w', dl', now')" by blast
  with Cons.IH [of dl' now'] show ?case by (auto split: option.split)
qed

text \<open>When every loop ends by itself before the deadline, none is cancelled and the deadline is kept.\<close>

definition none_cancelled :: "worker list \<Rightarrow> bool" where
  "none_cancelled ws \<longleftrightarrow> list_all (\<lambda>w. wk_loop w \<noteq> Ended Cancelled) ws"

lemma worker_stop_in_time:
  assumes "ends (wk_id w) now = Some e" and "e \<le> dl" and "now \<le> dl"
  shows "\<exists>w' now'. worker_stop ends True w (Some dl) now = Some (w', Some dl, now') \<and> now' \<le> dl \<and>
    (wk_loop w \<noteq> Ended Cancelled \<longrightarrow> wk_loop w' \<noteq> Ended Cancelled)"
  using assms by (simp add: worker_stop_def Let_def)

lemma stop_workers_in_time:
  assumes "\<forall>i t. t \<le> dl \<longrightarrow> (\<exists>e. ends i t = Some e \<and> e \<le> dl)"
  shows "now \<le> dl \<Longrightarrow> \<exists>ws' now'. stop_workers ends True ws (Some dl) now = Some (ws', Some dl, now') \<and>
      now' \<le> dl \<and> (none_cancelled ws \<longrightarrow> none_cancelled ws')"
proof (induction ws arbitrary: now)
  case Nil
  then show ?case by simp
next
  case (Cons w ws)
  obtain e where "ends (wk_id w) now = Some e" "e \<le> dl" using assms Cons.prems by blast
  then obtain w' now' where
    w': "worker_stop ends True w (Some dl) now = Some (w', Some dl, now')" "now' \<le> dl"
      "wk_loop w \<noteq> Ended Cancelled \<longrightarrow> wk_loop w' \<noteq> Ended Cancelled"
    using worker_stop_in_time [OF _ _ Cons.prems] by blast
  from Cons.IH [OF w'(2)] w' show ?case by (auto simp: none_cancelled_def)
qed

end
