(* ===== verification/Loops.thy ===== *)
theory Loops
  imports Worker_Pool Manager Scheduler
begin

section \<open>The polling loops (manager.py, scheduler.py)\<close>

text \<open>
  The three background loops have one shape: while the component is running, do one cycle; an exception
  of the cycle is logged and the loop goes on after a pause, cancellation ends it. A loop is given one
  environment for each time it finds its component running: what other transactions commit before the
  cycle, the clock, the locked rows, the queue as the cycle finds it, and how the cycle is cut short, if
  it is, before its commit.
\<close>

record loop_env =
  le_others :: "db \<Rightarrow> db"
  le_locked :: "uuid \<Rightarrow> bool"
  le_now :: timestamp
  le_now' :: timestamp
  le_clk :: "uuid \<Rightarrow> timestamp"
  le_jitter :: "uuid \<Rightarrow> int"
  le_ids :: "nat \<Rightarrow> uuid"
  le_pool :: "task bounded_queue option"
  le_cut :: "handler_outcome option"

fun poll_loop :: "('e \<Rightarrow> db \<Rightarrow> handler_outcome \<times> db) \<Rightarrow> 'e list \<Rightarrow> db \<Rightarrow> loop_end \<times> db" where
  "poll_loop cycle [] d = (Stopped, d)"
| "poll_loop cycle (e # es) d =
     (let (out, d1) = cycle e d in
      if out = Was_cancelled then (Cancelled, d1) else poll_loop cycle es d1)"

text \<open>One cycle after what others have done; cut short, its session is never committed.\<close>

definition cut_or :: "loop_env \<Rightarrow> (db \<Rightarrow> handler_outcome \<times> db) \<Rightarrow> db \<Rightarrow> handler_outcome \<times> db" where
  "cut_or e cycle d =
     (let d = le_others e d in
      case le_cut e of Some out \<Rightarrow> (out, d) | None \<Rightarrow> cycle d)"

definition claim_round :: "manager_settings \<Rightarrow> loop_env \<Rightarrow> db \<Rightarrow> handler_outcome \<times> db" where
  "claim_round ms e d =
     (let (waiting, pool, d') = claim_cycle ms (le_locked e) (le_now e) (le_now' e) (le_pool e) d
      in (Returned, d'))"

definition recovery_round :: "manager_settings \<Rightarrow> loop_env \<Rightarrow> db \<Rightarrow> handler_outcome \<times> db" where
  "recovery_round ms e d =
     (let (waiting, pool, d') =
            recovery_cycle ms (le_locked e) (le_now e) (le_now' e) (le_clk e) (le_jitter e) (le_pool e) d
      in (Returned, d'))"

definition tick_round :: "int \<Rightarrow> loop_env \<Rightarrow> db \<Rightarrow> handler_outcome \<times> db" where
  "tick_round workers e d =
     (case tick workers (le_pool e) (le_now e) (le_ids e) d of
        (Inl ex, d') \<Rightarrow> (Raised ex, d')
      | (Inr created, d') \<Rightarrow> (Returned, d'))"

definition manager_run_loop :: "manager_settings \<Rightarrow> loop_env list \<Rightarrow> db \<Rightarrow> loop_end \<times> db" where
  "manager_run_loop ms = poll_loop (\<lambda>e. cut_or e (claim_round ms e))"

definition manager_recovery_loop :: "manager_settings \<Rightarrow> loop_env list \<Rightarrow> db \<Rightarrow> loop_end \<times> db" where
  "manager_recovery_loop ms = poll_loop (\<lambda>e. cut_or e (recovery_round ms e))"

definition scheduler_run_loop :: "int \<Rightarrow> loop_env list \<Rightarrow> db \<Rightarrow> loop_end \<times> db" where
  "scheduler_run_loop workers = poll_loop (\<lambda>e. cut_or e (tick_round workers e))"

subsection \<open>What every cycle keeps, the loop keeps\<close>

lemma poll_loop_keeps:
  assumes "\<And>e d. e \<in> set es \<Longrightarrow> P d \<Longrightarrow> P (snd (cycle e d))" and "P d"
  shows "P (snd (poll_loop cycle es d))"
  using assms
proof (induction es arbitrary: d)
  case Nil
  then show ?case by simp
next
  case (Cons e es)
  from Cons.prems have "P (snd (cycle e d))" by simp
  moreover from this have "P (snd (poll_loop cycle es (snd (cycle e d))))"
    using Cons by simp
  ultimately show ?case by (cases "cycle e d") simp
qed

lemma cut_or_keeps:
  "(\<And>d. P d \<Longrightarrow> P (le_others e d)) \<Longrightarrow> (\<And>d. P d \<Longrightarrow> P (snd (cycle d))) \<Longrightarrow> P d \<Longrightarrow>
   P (snd (cut_or e cycle d))"
  by (simp add: cut_or_def Let_def split: option.split)

text \<open>An exception never ends a loop: it ends for being stopped, or by a cancellation.\<close>

lemma poll_loop_survives:
  assumes "\<And>e d. e \<in> set es \<Longrightarrow> fst (cycle e d) \<noteq> Was_cancelled"
  shows "fst (poll_loop cycle es d) = Stopped"
  using assms
proof (induction es arbitrary: d)
  case Nil
  then show ?case by simp
next
  case (Cons e es)
  then have "fst (cycle e d) \<noteq> Was_cancelled" by simp
  with Cons show ?case by (cases "cycle e d") simp
qed

lemma cut_or_outcome:
  "le_cut e \<noteq> Some Was_cancelled \<Longrightarrow> (\<And>d. fst (cycle d) \<noteq> Was_cancelled) \<Longrightarrow>
   fst (cut_or e cycle d) \<noteq> Was_cancelled"
  by (auto simp: cut_or_def Let_def split: option.split)

end
