(* ===== verification/Database.thy ===== *)
theory Database
  imports Prelude
begin

section \<open>The database object (database.py)\<close>

text \<open>
  \<open>SqlAlchemyDatabase\<close> holds an engine and a session maker from its construction until \<open>close\<close>, which drops
  both for good. What \<open>SELECT 1\<close> on a connection of the engine raises, if anything, is an argument of the
  operations that send it.
\<close>

record database =
  dl_engine :: bool
  dl_session_maker :: bool

definition new_database :: database where
  "new_database = \<lparr>dl_engine = True, dl_session_maker = True\<rparr>"

definition engine_of :: "database \<Rightarrow> exn + unit" where
  "engine_of db =
     (if dl_engine db then Inr () else Inl (Exn RuntimeError ''database engine has not been initialized''))"

definition session_maker_of :: "database \<Rightarrow> exn + unit" where
  "session_maker_of db =
     (if dl_session_maker db then Inr () else Inl (Exn RuntimeError ''session maker has not been initialized''))"

definition ping :: "exn option \<Rightarrow> database \<Rightarrow> exn + unit" where
  "ping fault db =
     (case engine_of db of
        Inl e \<Rightarrow> Inl e
      | Inr u \<Rightarrow> (case fault of None \<Rightarrow> Inr () | Some e \<Rightarrow> Inl e))"

definition database_connect :: "exn option \<Rightarrow> database \<Rightarrow> exn + unit" where
  "database_connect fault db = ping fault db"

definition database_close :: "database \<Rightarrow> database" where
  "database_close db = (if dl_engine db then db\<lparr>dl_engine := False, dl_session_maker := False\<rparr> else db)"

lemma engine_after_close: "\<not> dl_engine (database_close db)"
  by (simp add: database_close_def)

definition is_ready :: "exn option \<Rightarrow> database \<Rightarrow> bool" where
  "is_ready fault db = (dl_engine db \<and> (case ping fault db of Inl e \<Rightarrow> False | Inr u \<Rightarrow> True))"

text \<open>\<open>database_lifespan\<close> around a body: the database is closed however the body ends.\<close>

definition database_lifespan :: "exn option \<Rightarrow> (database \<Rightarrow> exn option) \<Rightarrow> database \<Rightarrow> exn option \<times> database" where
  "database_lifespan fault body db =
     (case database_connect fault db of
        Inl e \<Rightarrow> (Some e, db)
      | Inr u \<Rightarrow> (body db, database_close db))"

definition database_ok :: "database \<Rightarrow> bool" where
  "database_ok db \<longleftrightarrow> dl_engine db = dl_session_maker db"

lemma database_ok_ops: "database_ok new_database" "database_ok db \<Longrightarrow> database_ok (database_close db)"
  by (simp_all add: database_ok_def new_database_def database_close_def)

lemma closed_for_good:
  assumes "database_ok db"
  shows "\<not> is_ready fault (database_close db)"
    and "\<exists>msg. database_connect fault (database_close db) = Inl (Exn RuntimeError msg)"
    and "\<exists>msg. session_maker_of (database_close db) = Inl (Exn RuntimeError msg)"
    and "database_close (database_close db) = database_close db"
  using assms
  by (auto simp: is_ready_def database_connect_def session_maker_of_def database_close_def database_ok_def
      ping_def engine_of_def)

end
