(* ===== verification/Shutdown.thy ===== *)
theory Shutdown
  imports Worker_Pool Routes Database
begin

section \<open>Starting and shutting down (app.py, shutdown.py, manager.py, scheduler.py)\<close>

text \<open>
  The life cycle of the process: the lifespan of the application starts the worker pool, the task manager
  and the scheduler; the shutdown coordinator stops them in the other order, gives the workers a grace
  period, and closes the database. The log of \<open>ShutdownState\<close> is kept as in the code.
\<close>

subsection \<open>Task manager and scheduler\<close>

record manager_state =
  mg_running :: bool
  mg_task :: loop_state
  mg_recovery_task :: loop_state

definition cancel_loop :: "loop_state \<Rightarrow> loop_state" where
  "cancel_loop l = (if l = Live then Ended Cancelled else l)"

definition manager_start :: "manager_state \<Rightarrow> manager_state" where
  "manager_start m =
     (if mg_running m then m else \<lparr>mg_running = True, mg_task = Live, mg_recovery_task = Live\<rparr>)"

definition manager_stop :: "manager_state \<Rightarrow> manager_state" where
  "manager_stop m =
     (if \<not> mg_running m then m
      else \<lparr>mg_running = False, mg_task = cancel_loop (mg_task m),
            mg_recovery_task = cancel_loop (mg_recovery_task m)\<rparr>)"

record scheduler_state =
  sc_running :: bool
  sc_task :: loop_state

definition scheduler_start :: "scheduler_state \<Rightarrow> scheduler_state" where
  "scheduler_start s = (if sc_running s then s else \<lparr>sc_running = True, sc_task = Live\<rparr>)"

definition scheduler_stop :: "scheduler_state \<Rightarrow> scheduler_state" where
  "scheduler_stop s =
     (if \<not> sc_running s then s else \<lparr>sc_running = False, sc_task = cancel_loop (sc_task s)\<rparr>)"

subsection \<open>The coordinator\<close>

record shutdown_state =
  ss_initiated :: bool
  ss_signal :: "int option"
  ss_api_closed :: bool
  ss_task_manager_stopped :: bool
  ss_scheduler_stopped :: bool
  ss_worker_pool_draining :: bool
  ss_worker_pool_stopped :: bool
  ss_database_closed :: bool
  ss_completed :: bool

record app =
  ap_shutdown :: shutdown_state
  ap_manager :: "manager_state option"
  ap_scheduler :: "scheduler_state option"
  ap_pool :: "worker_pool option"
  ap_database :: database

definition initial_shutdown_state :: shutdown_state where
  "initial_shutdown_state =
     \<lparr>ss_initiated = False, ss_signal = None, ss_api_closed = False, ss_task_manager_stopped = False,
      ss_scheduler_stopped = False, ss_worker_pool_draining = False, ss_worker_pool_stopped = False,
      ss_database_closed = False, ss_completed = False\<rparr>"

definition is_shutting_down :: "shutdown_state \<Rightarrow> bool" where
  "is_shutting_down s = ss_initiated s"

definition is_shutdown_complete :: "shutdown_state \<Rightarrow> bool" where
  "is_shutdown_complete s = ss_completed s"

text \<open>A signal. The second and later ones are ignored.\<close>

definition on_signal :: "int \<Rightarrow> shutdown_state \<Rightarrow> shutdown_state" where
  "on_signal sig s =
     (if ss_initiated s then s else s\<lparr>ss_initiated := True, ss_signal := Some sig\<rparr>)"

text \<open>
  Start-up, in the order of the lifespan: without the database nothing starts. A failure to connect to Redis
  is logged and ignored; the signal handlers are installed last.
\<close>

definition startup :: "exn option \<Rightarrow> app \<Rightarrow> exn + app" where
  "startup fault a =
     (case database_connect fault (ap_database a) of
        Inl e \<Rightarrow> Inl e
      | Inr u \<Rightarrow>
          Inr (a\<lparr>ap_pool := map_option pool_start (ap_pool a),
                 ap_manager := map_option manager_start (ap_manager a),
                 ap_scheduler := map_option scheduler_start (ap_scheduler a)\<rparr>))"

text \<open>
  The drain: \<open>asyncio.wait_for(pool.stop(graceful=True), timeout=grace)\<close>, for a grace period that is positive,
  as the settings require. The deadline can only pass inside a \<open>stop\<close> of a worker, which swallows the
  \<open>CancelledError\<close>, so \<open>wait_for\<close> does not raise \<open>TimeoutError\<close> but returns when the call does; the branch that
  reports a time-out is not reached.
\<close>

definition drain ::
  "(string \<Rightarrow> timestamp \<Rightarrow> timestamp option) \<Rightarrow> int \<Rightarrow> timestamp \<Rightarrow> worker_pool
     \<Rightarrow> (worker_pool \<times> timestamp) option" where
  "drain ends grace now p =
     map_option (\<lambda>(p', dl, now'). (p', now')) (pool_stop ends True p (Some (now + seconds grace)) now)"

definition shutdown ::
  "(string \<Rightarrow> timestamp \<Rightarrow> timestamp option) \<Rightarrow> int \<Rightarrow> bool \<Rightarrow> timestamp \<Rightarrow> app \<Rightarrow> (app \<times> timestamp) option"
where
  "shutdown ends grace close_database now a =
     (let st = ap_shutdown a;
          st = (if ss_initiated st then st else st\<lparr>ss_initiated := True\<rparr>);
          st = st\<lparr>ss_api_closed := True\<rparr>;
          mg = map_option manager_stop (ap_manager a);
          st = (if mg \<noteq> None then st\<lparr>ss_task_manager_stopped := True\<rparr> else st);
          sc = map_option scheduler_stop (ap_scheduler a);
          st = (if sc \<noteq> None then st\<lparr>ss_scheduler_stopped := True\<rparr> else st);
          a = a\<lparr>ap_manager := mg, ap_scheduler := sc\<rparr>
      in case (case ap_pool a of
                 None \<Rightarrow> Some (None, st, now)
               | Some p \<Rightarrow>
                   (case drain ends grace now p of
                      None \<Rightarrow> None
                    | Some (p', now') \<Rightarrow>
                        Some (Some p', st\<lparr>ss_worker_pool_draining := True, ss_worker_pool_stopped := True\<rparr>,
                              now'))) of
           None \<Rightarrow> None
         | Some (pool, st, now') \<Rightarrow>
             (let st = (if close_database then st\<lparr>ss_database_closed := True\<rparr> else st) in
              Some (a\<lparr>ap_pool := pool, ap_shutdown := st\<lparr>ss_completed := True\<rparr>,
                      ap_database := (if close_database then database_close (ap_database a) else ap_database a)\<rparr>, now')))"

subsection \<open>What shutting down achieves\<close>

definition manager_ok :: "manager_state \<Rightarrow> bool" where
  "manager_ok m \<longleftrightarrow> (mg_task m = Live \<or> mg_recovery_task m = Live \<longrightarrow> mg_running m)"

definition scheduler_ok :: "scheduler_state \<Rightarrow> bool" where
  "scheduler_ok s \<longleftrightarrow> (sc_task s = Live \<longrightarrow> sc_running s)"

definition pool_ok :: "worker_pool \<Rightarrow> bool" where
  "pool_ok p \<longleftrightarrow> queue_ok (wp_queue p) \<and> list_all worker_ok (wp_workers p) \<and>
     (\<not> wp_running p \<longrightarrow> list_all worker_down (wp_workers p))"

text \<open>No loop runs without its component being marked as running, so that a stop reaches it.\<close>

definition app_ok :: "app \<Rightarrow> bool" where
  "app_ok a \<longleftrightarrow> pred_option manager_ok (ap_manager a) \<and> pred_option scheduler_ok (ap_scheduler a) \<and>
     pred_option pool_ok (ap_pool a)"

definition all_down :: "app \<Rightarrow> bool" where
  "all_down a \<longleftrightarrow>
     pred_option (\<lambda>m. \<not> mg_running m \<and> mg_task m \<noteq> Live \<and> mg_recovery_task m \<noteq> Live) (ap_manager a) \<and>
     pred_option (\<lambda>s. \<not> sc_running s \<and> sc_task s \<noteq> Live) (ap_scheduler a) \<and>
     pred_option (\<lambda>p. \<not> wp_running p \<and> list_all worker_down (wp_workers p)) (ap_pool a)"

lemma manager_stop_down:
  "manager_ok m \<Longrightarrow> \<not> mg_running (manager_stop m) \<and> mg_task (manager_stop m) \<noteq> Live \<and>
     mg_recovery_task (manager_stop m) \<noteq> Live"
  by (auto simp: manager_ok_def manager_stop_def cancel_loop_def)

lemma scheduler_stop_down:
  "scheduler_ok s \<Longrightarrow> \<not> sc_running (scheduler_stop s) \<and> sc_task (scheduler_stop s) \<noteq> Live"
  by (auto simp: scheduler_ok_def scheduler_stop_def cancel_loop_def)

lemma pool_stop_down:
  "pool_ok p \<Longrightarrow> pool_stop ends g p dl now = Some (p', dl', now') \<Longrightarrow>
   \<not> wp_running p' \<and> list_all worker_down (wp_workers p') \<and> wp_queue p' = wp_queue p \<and> now \<le> now'"
  by (auto simp: pool_ok_def pool_stop_def dest: stop_workers_down split: if_splits option.splits prod.splits)

lemma drain_down:
  "pool_ok p \<Longrightarrow> drain ends grace now p = Some (p', now') \<Longrightarrow>
   \<not> wp_running p' \<and> list_all worker_down (wp_workers p') \<and> wp_queue p' = wp_queue p \<and> now \<le> now'"
  by (auto simp: drain_def dest: pool_stop_down split: if_splits)

lemma pool_stop_returns:
  assumes "\<forall>i t. ends i t \<noteq> None"
  shows "\<exists>p' dl' now'. pool_stop ends g p dl now = Some (p', dl', now')"
proof (cases "wp_running p")
  case False
  then show ?thesis by (simp add: pool_stop_def)
next
  case True
  obtain ws dl' now' where "stop_workers ends g (wp_workers p) dl now = Some (ws, dl', now')"
    using stop_workers_returns [OF assms] by (metis prod.exhaust)
  with True show ?thesis by (simp add: pool_stop_def)
qed

lemma drain_returns:
  assumes "\<forall>i t. ends i t \<noteq> None"
  shows "\<exists>p' now'. drain ends grace now p = Some (p', now')"
proof -
  obtain p' dl' now' where "pool_stop ends True p (Some (now + seconds grace)) now = Some (p', dl', now')"
    using pool_stop_returns [OF assms] by blast
  then show ?thesis by (simp add: drain_def)
qed

lemma shutdown_cases:
  assumes "shutdown ends grace db now a = Some (a', now')"
  obtains "ap_manager a' = map_option manager_stop (ap_manager a)"
    and "ap_scheduler a' = map_option scheduler_stop (ap_scheduler a)"
    and "(case ap_pool a of None \<Rightarrow> ap_pool a' = None \<and> now' = now
          | Some p \<Rightarrow> \<exists>p'. drain ends grace now p = Some (p', now') \<and> ap_pool a' = Some p')"
    and "ss_initiated (ap_shutdown a')" and "ss_completed (ap_shutdown a')"
    and "db \<longrightarrow> \<not> dl_engine (ap_database a')"
  using assms
  by (auto simp: shutdown_def Let_def engine_after_close split: option.splits prod.splits if_splits)

lemma app_ok_startup:
  assumes "app_ok a" and "startup fault a = Inr a'"
  shows "app_ok a'"
proof -
  have "worker_ok (worker_start w)" for w
    by (simp add: worker_ok_def worker_start_def)
  then have "pool_ok p \<Longrightarrow> pool_ok (pool_start p)" for p
    by (auto simp: pool_ok_def pool_start_def list_all_iff)
  moreover have "manager_ok m \<Longrightarrow> manager_ok (manager_start m)" for m
    by (simp add: manager_ok_def manager_start_def)
  moreover have "scheduler_ok s \<Longrightarrow> scheduler_ok (scheduler_start s)" for s
    by (simp add: scheduler_ok_def scheduler_start_def)
  ultimately show ?thesis
    using assms
    by (auto simp: app_ok_def startup_def option.pred_map pred_option_def option.set_map split: sum.splits)
qed


lemma shutdown_None:
  assumes "shutdown ends grace db now a = None"
  shows "\<exists>i t. ends i t = None"
proof (rule ccontr)
  assume "\<not> ?thesis"
  then have total: "\<forall>i t. ends i t \<noteq> None" by simp
  show False
  proof (cases "ap_pool a")
    case None
    with assms show False by (simp add: shutdown_def Let_def)
  next
    case (Some p)
    from drain_returns [OF total, of grace now p] obtain p' now' where
      "drain ends grace now p = Some (p', now')" by blast
    with Some assms show False by (simp add: shutdown_def Let_def)
  qed
qed

lemma drain_in_time:
  assumes "0 < grace" and "drain ends grace now p = Some (p', now')"
    and "\<forall>i t. t \<le> now + seconds grace \<longrightarrow> (\<exists>e. ends i t = Some e \<and> e \<le> now + seconds grace)"
  shows "now' \<le> now + seconds grace \<and> (none_cancelled (wp_workers p) \<longrightarrow> none_cancelled (wp_workers p'))"
proof -
  have "now \<le> now + seconds grace" using assms(1) by (simp add: seconds_def)
  from stop_workers_in_time [OF assms(3) this, of "wp_workers p"] this show ?thesis
    using assms(1,2) by (auto simp: drain_def pool_stop_def split: if_splits)
qed

lemma shutdown_down:
  assumes "app_ok a" and "shutdown ends grace db now a = Some (a', now')"
  shows "all_down a'" "now \<le> now'" "ss_initiated (ap_shutdown a')" "ss_completed (ap_shutdown a')"
    "db \<Longrightarrow> \<not> dl_engine (ap_database a')"
    "case ap_pool a of None \<Rightarrow> ap_pool a' = None \<and> now' = now
     | Some p \<Rightarrow> \<exists>p'. drain ends grace now p = Some (p', now') \<and> ap_pool a' = Some p'"
proof -
  from shutdown_cases [OF assms(2)] have a':
    "ap_manager a' = map_option manager_stop (ap_manager a)"
    "ap_scheduler a' = map_option scheduler_stop (ap_scheduler a)"
    "case ap_pool a of None \<Rightarrow> ap_pool a' = None \<and> now' = now
     | Some p \<Rightarrow> \<exists>p'. drain ends grace now p = Some (p', now') \<and> ap_pool a' = Some p'"
    "ss_initiated (ap_shutdown a')" "ss_completed (ap_shutdown a')" "db \<Longrightarrow> \<not> dl_engine (ap_database a')"
    by auto
  have pool: "pred_option (\<lambda>p. \<not> wp_running p \<and> list_all worker_down (wp_workers p)) (ap_pool a') \<and> now \<le> now'"
  proof (cases "ap_pool a")
    case None
    with a'(3) show ?thesis by simp
  next
    case (Some p)
    with a'(3) obtain p' where p': "drain ends grace now p = Some (p', now')" "ap_pool a' = Some p'" by auto
    have "pool_ok p" using assms(1) Some by (simp add: app_ok_def)
    from drain_down [OF this p'(1)] p'(2) show ?thesis by simp
  qed
  have "pred_option (\<lambda>m. \<not> mg_running m \<and> mg_task m \<noteq> Live \<and> mg_recovery_task m \<noteq> Live) (ap_manager a')"
    using assms(1) manager_stop_down by (cases "ap_manager a") (simp_all add: a'(1) app_ok_def)
  moreover have "pred_option (\<lambda>s. \<not> sc_running s \<and> sc_task s \<noteq> Live) (ap_scheduler a')"
    using assms(1) scheduler_stop_down by (cases "ap_scheduler a") (simp_all add: a'(2) app_ok_def)
  ultimately show "all_down a'" using pool by (simp add: all_down_def)
  show "now \<le> now'" using pool by simp
  show "ss_initiated (ap_shutdown a')" "ss_completed (ap_shutdown a')" "db \<Longrightarrow> \<not> dl_engine (ap_database a')"
    "case ap_pool a of None \<Rightarrow> ap_pool a' = None \<and> now' = now
     | Some p \<Rightarrow> \<exists>p'. drain ends grace now p = Some (p', now') \<and> ap_pool a' = Some p'"
    by (fact a'(4), fact a'(5), fact a'(6), fact a'(3))
qed

text \<open>
  C32. Shutting down is complete: when the shutdown of an application in order returns, every loop of the
  manager, the scheduler and the workers has ended, the database is closed, the coordinator is marked
  as complete, and no further request creates anything. It does return if every handler does; if all
  loops end by themselves within the grace period, it takes no longer and cancels no worker.
\<close>

theorem shutdown_complete:
  assumes "app_ok a" and "0 < grace"
  shows "(case shutdown ends grace True now a of
      None \<Rightarrow> \<exists>i t. ends i t = None
    | Some (a', now') \<Rightarrow>
        all_down a' \<and> \<not> dl_engine (ap_database a') \<and> is_shutdown_complete (ap_shutdown a') \<and> now \<le> now' \<and>
        (\<forall>env req d. ae_shutting_down env = is_shutting_down (ap_shutdown a') \<longrightarrow>
           create_job env req d = (Inl (HTTP 503 ''Service is shutting down''), d)) \<and>
        ((\<forall>i t. t \<le> now + seconds grace \<longrightarrow> (\<exists>e. ends i t = Some e \<and> e \<le> now + seconds grace)) \<longrightarrow>
           now' \<le> now + seconds grace \<and>
           (pred_option (\<lambda>p. none_cancelled (wp_workers p)) (ap_pool a) \<longrightarrow>
              pred_option (\<lambda>p. none_cancelled (wp_workers p)) (ap_pool a'))))"
proof (cases "shutdown ends grace True now a")
  case None
  with shutdown_None [OF None] show ?thesis by simp
next
  case (Some r)
  obtain a' now' where r: "r = (a', now')" by (cases r)
  note down = shutdown_down [OF assms(1) Some [unfolded r]]
  have "now' \<le> now + seconds grace \<and>
      (pred_option (\<lambda>p. none_cancelled (wp_workers p)) (ap_pool a) \<longrightarrow>
         pred_option (\<lambda>p. none_cancelled (wp_workers p)) (ap_pool a'))"
    if "\<forall>i t. t \<le> now + seconds grace \<longrightarrow> (\<exists>e. ends i t = Some e \<and> e \<le> now + seconds grace)"
  proof (cases "ap_pool a")
    case None
    with down(6) assms(2) show ?thesis by (simp add: seconds_def)
  next
    case (Some p)
    with down(6) obtain p' where p': "drain ends grace now p = Some (p', now')" "ap_pool a' = Some p'" by auto
    from drain_in_time [OF assms(2) p'(1) that] Some p'(2) show ?thesis by simp
  qed
  with down(1-5) show ?thesis
    by (simp add: Some r is_shutdown_complete_def is_shutting_down_def create_job_def refusal_def)
qed

text \<open>
  C40. The grace period does not bound the shutdown: when the deadline passes, only the worker that is
  being waited for is cancelled. With two workers whose handlers do not return, the shutdown never does,
  whatever the grace period.
\<close>

theorem shutdown_can_hang:
  assumes "0 < grace" and "ap_pool a = Some p" and "wp_running p" and "wp_workers p = [v, w]"
    and "wk_running v" and "wk_loop v = Live" and "wk_running w" and "wk_loop w = Live"
    and "ends (wk_id v) now = None" and "\<forall>t. ends (wk_id w) t = None"
  shows "shutdown ends grace db now a = None"
  using assms
  by (simp add: shutdown_def drain_def pool_stop_def worker_stop_def Let_def)

definition demo_pool :: worker_pool where
  "demo_pool =
     \<lparr>wp_queue = two_task_queue,
      wp_workers = [worker_start (new_worker ''worker-1''), worker_start (new_worker ''worker-2'')],
      wp_running = True\<rparr>"

definition demo_app :: app where
  "demo_app =
     \<lparr>ap_shutdown = initial_shutdown_state,
      ap_manager = Some (manager_start \<lparr>mg_running = False, mg_task = No_loop, mg_recovery_task = No_loop\<rparr>),
      ap_scheduler = None, ap_pool = Some demo_pool, ap_database = new_database\<rparr>"

lemmas demo_app_defs = demo_app_def demo_pool_def two_task_queue_def worker_start_def new_worker_def
  manager_start_def

theorem shutdown_complete_witness:
  "\<exists>a' now'. shutdown (\<lambda>i t. Some (max t 5)) 30 True 0 demo_app = Some (a', now') \<and> all_down a' \<and>
     now' \<le> seconds 30"
proof -
  have "app_ok demo_app"
    by (simp add: app_ok_def manager_ok_def pool_ok_def worker_ok_def queue_ok_def Let_def demo_app_defs)
  note done' = shutdown_complete [OF this, of 30 "\<lambda>i t. Some (max t 5)" 0]
  then show ?thesis
    by (cases "shutdown (\<lambda>i t. Some (max t 5)) 30 True 0 demo_app") (auto simp: seconds_def)
qed

theorem shutdown_can_hang_witness: "shutdown (\<lambda>i t. None) 30 True 0 demo_app = None"
proof -
  have "ap_pool demo_app = Some demo_pool" "wp_running demo_pool"
    "wp_workers demo_pool = [worker_start (new_worker ''worker-1''), worker_start (new_worker ''worker-2'')]"
    by (simp_all add: demo_app_def demo_pool_def)
  from shutdown_can_hang [OF _ this] show ?thesis
    by (simp add: worker_start_def new_worker_def)
qed

end
