(* ===== verification/Service.thy ===== *)
theory Service
  imports Progress Loops Shutdown
begin

section \<open>The running service: every background loop on one database\<close>

text \<open>
  The loops of the manager, of the scheduler and of the workers run side by side and share the database.
  Each of them, with what the others commit in between, is a sequence of the steps of the system, so what
  holds of every reachable database holds while they run and after they end, whatever is raised inside them.
\<close>

subsection \<open>One cycle\<close>

lemma cut_or_steps:
  assumes "\<forall>x. db_steps m x (le_others e x)" and "\<And>x. db_steps m x (snd (cycle x))"
  shows "db_steps m d (snd (cut_or e cycle d))"
proof -
  have "db_steps m d (le_others e d)" using assms(1) by blast
  then show ?thesis
    using assms(2) [of "le_others e d"] by (auto simp: cut_or_def Let_def split: option.split intro: rtranclp_trans)
qed

lemma poll_loop_refines:
  assumes "\<forall>e \<in> set es. \<forall>x. db_steps m x (le_others e x)"
    and "\<And>e x. db_steps m x (snd (cycle e x))" and "\<And>e x. fst (cycle e x) \<noteq> Was_cancelled"
  shows "db_steps m d (snd (poll_loop (\<lambda>e. cut_or e (cycle e)) es d))"
    and "\<forall>e \<in> set es. le_cut e \<noteq> Some Was_cancelled \<Longrightarrow>
      fst (poll_loop (\<lambda>e. cut_or e (cycle e)) es d) = Stopped"
proof -
  show "db_steps m d (snd (poll_loop (\<lambda>e. cut_or e (cycle e)) es d))"
  proof (rule poll_loop_keeps [where P = "db_steps m d"])
    fix e x assume "e \<in> set es" and x: "db_steps m d x"
    with assms(1) have "db_steps m x (snd (cut_or e (cycle e) x))"
      by (intro cut_or_steps assms(2)) blast
    with x show "db_steps m d (snd (cut_or e (cycle e) x))" by (rule rtranclp_trans)
  qed simp
  show "fst (poll_loop (\<lambda>e. cut_or e (cycle e)) es d) = Stopped"
    if "\<forall>e \<in> set es. le_cut e \<noteq> Some Was_cancelled"
  proof (rule poll_loop_survives)
    fix e x assume "e \<in> set es"
    with that show "fst (cut_or e (cycle e) x) \<noteq> Was_cancelled" by (intro cut_or_outcome assms(3)) blast
  qed
qed

lemma round_steps:
  "db_steps (ms_max_attempts ms) d (snd (claim_round ms e d))"
  "db_steps (ms_max_attempts ms) d (snd (recovery_round ms e d))"
  "db_steps m d (snd (tick_round workers e d))"
  by (auto simp: claim_round_def recovery_round_def tick_round_def split: prod.split sum.split
      intro: step_claim step_recover step_tick)

lemma round_outcome:
  "fst (claim_round ms e d) \<noteq> Was_cancelled" "fst (recovery_round ms e d) \<noteq> Was_cancelled"
  "fst (tick_round workers e d) \<noteq> Was_cancelled"
  by (simp_all add: claim_round_def recovery_round_def tick_round_def split: prod.split sum.split)

subsection \<open>The loop of a worker\<close>


lemma worker_loop_steps:
  assumes "\<forall>t r d. db_steps m d (snd (snd (h t (r, d))))"
    and "\<forall>f \<in> set others. \<forall>q r d. db_steps m d (snd (snd (f (q, (r, d)))))"
    and "worker_loop h others (q, (r, d)) = (ts, ended, q', (r', d'))"
  shows "db_steps m d d'"
  using assms(2,3)
proof (induction others arbitrary: q r d ts)
  case Nil
  then show ?case by simp
next
  case (Cons f fs)
  obtain q1 r1 d1 where f: "f (q, (r, d)) = (q1, (r1, d1))" by (metis prod.exhaust)
  have d1: "db_steps m d d1"
  proof -
    have "db_steps m d (snd (snd (f (q, (r, d)))))" using Cons.prems(1) by simp
    then show ?thesis by (simp add: f)
  qed
  obtain c us q2 r2 d2 where pass: "worker_pass h (q1, (r1, d1)) = (c, us, q2, (r2, d2))" by (metis prod.exhaust)
  have hd: "db_steps m x (snd (snd (h t (y, x))))" for t x y using assms(1) by blast
  have d2: "db_steps m d1 d2"
  proof (cases "get q1")
    case None
    with pass show ?thesis by (simp add: worker_pass_def)
  next
    case (Some tq)
    have "db_steps m d1 (snd (snd (h (fst tq) (r1, d1))))" by (rule hd)
    with pass Some show ?thesis
      by (cases tq; cases "h (fst tq) (r1, d1)"; cases "task_done (snd tq)")
        (auto simp: worker_pass_def split: if_splits)
  qed
  show ?case
  proof (cases c)
    case False
    with Cons.prems(2) f pass have "d' = d2" by simp
    with d1 d2 show ?thesis by (metis rtranclp_trans)
  next
    case True
    obtain ts' where "worker_loop h fs (q2, (r2, d2)) = (ts', ended, q', (r', d'))"
      using Cons.prems(2) f pass True by (auto simp: Let_def split: prod.splits)
    with Cons.IH Cons.prems(1) have "db_steps m d2 d'" by simp
    with d1 d2 show ?thesis by (metis rtranclp_trans)
  qed
qed


lemma phase9_steps:
  assumes "pe_max_attempts (env t) = m \<and>
      (\<forall>f \<in> {pe_o1 (env t), pe_o2 (env t), pe_o3 (env t)} \<union> range (pe_others (env t)). \<forall>x. db_steps m x (f x))"
  shows "db_steps m d (snd (snd (phase9_task_handler rd meanwhile env closing t (r, d))))"
proof -
  obtain res d' urls r' where run: "process_task rd meanwhile (env t) t (r, d) = ((res, d', urls), r')"
    by (metis prod.exhaust)
  have "db_steps (pe_max_attempts (env t)) d d'"
    by (rule process_task_steps [OF _ run]) (use assms in simp)
  with assms run show ?thesis
    by (cases res; cases "closing t") (simp_all add: phase9_task_handler_def Let_def)
qed

subsection \<open>The loops refine the system\<close>

definition demo_round :: loop_env where
  "demo_round = \<lparr>le_others = (\<lambda>d. d), le_locked = (\<lambda>_. False), le_now = 200, le_now' = 201, le_clk = (\<lambda>_. 202),
     le_jitter = (\<lambda>_. 30), le_ids = (\<lambda>n. 100 + n), le_pool = Some empty_queue, le_cut = None\<rparr>"

text \<open>
  C19. Each background loop of the service, run for any number of rounds with other transactions in between
  and with rounds that raise or are cancelled, takes the database through a sequence of the steps of the
  system; and an exception never ends a loop, only being stopped or cancelled does.
\<close>

theorem loops_refine:
  assumes "\<forall>e \<in> set es. \<forall>x. db_steps (ms_max_attempts ms) x (le_others e x)"
  shows "db_steps (ms_max_attempts ms) d (snd (manager_run_loop ms es d)) \<and>
    db_steps (ms_max_attempts ms) d (snd (manager_recovery_loop ms es d)) \<and>
    db_steps (ms_max_attempts ms) d (snd (scheduler_run_loop workers es d)) \<and>
    ((\<forall>e \<in> set es. le_cut e \<noteq> Some Was_cancelled) \<longrightarrow>
       fst (manager_run_loop ms es d) = Stopped \<and> fst (manager_recovery_loop ms es d) = Stopped \<and>
       fst (scheduler_run_loop workers es d) = Stopped)"
  unfolding manager_run_loop_def manager_recovery_loop_def scheduler_run_loop_def
  using poll_loop_refines [where cycle = "claim_round ms", OF assms round_steps(1) round_outcome(1)]
    poll_loop_refines [where cycle = "recovery_round ms", OF assms round_steps(2) round_outcome(2)]
    poll_loop_refines [where cycle = "tick_round workers", OF assms round_steps(3) round_outcome(3)] by blast

theorem loops_refine_witness:
  "db_steps 3 demo_db (snd (scheduler_run_loop 5 [demo_round, demo_round\<lparr>le_cut := Some (Raised integrity_error)\<rparr>] demo_db)) \<and>
   fst (manager_run_loop demo_settings [demo_round, demo_round\<lparr>le_cut := Some (Raised integrity_error)\<rparr>] demo_db) = Stopped"
proof -
  let ?es = "[demo_round, demo_round\<lparr>le_cut := Some (Raised integrity_error)\<rparr>]"
  have m: "ms_max_attempts demo_settings = 3" by (simp add: demo_settings_def)
  have "\<forall>e \<in> set ?es. \<forall>x. db_steps (ms_max_attempts demo_settings) x (le_others e x)"
    and "\<forall>e \<in> set ?es. le_cut e \<noteq> Some Was_cancelled"
    by (simp_all add: demo_round_def)
  then show ?thesis
    using loops_refine [of ?es demo_settings demo_db 5] by (simp only: m)
qed

text \<open>
  C20. A worker with the handler of production, taking task after task while others put tasks into its queue
  and commit transactions, also takes the database through steps of the system only.
\<close>

theorem worker_refines:
  assumes "\<forall>t. pe_max_attempts (env t) = m \<and>
      (\<forall>f \<in> {pe_o1 (env t), pe_o2 (env t), pe_o3 (env t)} \<union> range (pe_others (env t)). \<forall>x. db_steps m x (f x))"
    and "\<forall>f \<in> set others. \<forall>q r d. db_steps m d (snd (snd (f (q, (r, d)))))"
    and "worker_loop (phase9_task_handler rd meanwhile env closing) others (q, (r, d)) = (ts, ended, q', (r', d'))"
  shows "db_steps m d d'"
proof (rule worker_loop_steps [OF _ assms(2,3)], intro allI)
  fix t r and x :: db
  show "db_steps m x (snd (snd (phase9_task_handler rd meanwhile env closing t (r, x))))"
    by (rule phase9_steps [OF spec [OF assms(1)]])
qed

theorem worker_refines_witness:
  "\<exists>ts ended q' r' d'. worker_loop (phase9_task_handler map_redis (\<lambda>r. r) (\<lambda>_. demo_env (respond 200)) (\<lambda>_. None))
     [\<lambda>st. st] (two_task_queue, (Map.empty, demo_db)) = (ts, ended, q', (r', d')) \<and> db_steps 3 demo_db d'"
proof -
  obtain ts ended q' r' d' where run: "worker_loop (phase9_task_handler map_redis (\<lambda>r. r) (\<lambda>_. demo_env (respond 200)) (\<lambda>_. None))
     [\<lambda>st. st] (two_task_queue, (Map.empty, demo_db)) = (ts, ended, q', (r', d'))"
    by (metis prod.exhaust)
  have "db_steps 3 demo_db d'"
    by (rule worker_refines [OF _ _ run]) (auto simp: demo_env_def)
  with run show ?thesis by blast
qed

end
