(* ===== verification/Jobs_Done.thy ===== *)
theory Jobs_Done
  imports Progress
begin

section \<open>Every job is completed\<close>

text \<open>
  The status of a job is not computed from its tasks when it is read: it is written by the session that ends a
  task. This theory shows that it follows the tasks nevertheless. The exception is recovery, which fails a task
  whose attempts are used up without a look at its job; \<open>careful_step\<close> is a step of the system in which
  recovery finds no such task. A job all of whose domains were refused has no task that anybody claims, and is
  not covered.
\<close>

subsection \<open>Jobs that follow their tasks\<close>

definition worked :: "uuid \<Rightarrow> db \<Rightarrow> bool" where
  "worked j d \<longleftrightarrow> list_ex (\<lambda>t. t_job_id t = Some j \<and> 0 < t_attempts t) (db_tasks d)"

definition jobs_settled :: "db \<Rightarrow> bool" where
  "jobs_settled d \<longleftrightarrow>
     list_all (\<lambda>jb. worked (j_id jb) d \<and> count_non_terminal (j_id jb) d = 0 \<longrightarrow> j_status jb = COMPLETED) (db_jobs d)"

text \<open>Recovery finds no task whose attempts are used up.\<close>

definition spares :: "nat \<Rightarrow> (uuid \<Rightarrow> bool) \<Rightarrow> timestamp \<Rightarrow> db \<Rightarrow> bool" where
  "spares m locked now d \<longleftrightarrow> list_all (\<lambda>t. expired locked now t \<longrightarrow> t_attempts t < m) (db_tasks d)"

inductive careful_step :: "nat \<Rightarrow> db \<Rightarrow> db \<Rightarrow> bool" for m :: nat where
  careful_create: "create_job env req d = (out, d') \<Longrightarrow> careful_step m d d'"
| careful_claim: "claim_cycle ms locked now now' pool d = (waiting, pool', d') \<Longrightarrow> careful_step m d d'"
| careful_recover:
    "ms_max_attempts ms = m \<Longrightarrow> spares m locked now d \<Longrightarrow>
     recovery_cycle ms locked now now' clk jitter pool d = (waiting, pool', d') \<Longrightarrow> careful_step m d d'"
| careful_tick: "tick workers (pool :: task bounded_queue option) now ids d = (res, d') \<Longrightarrow> careful_step m d d'"
| careful_complete: "careful_step m d (complete_task clk i COMPLETED d)"
| careful_fail: "careful_step m d (fail_task clk i e ''permanent'' d)"
| careful_fail_deact:
    "c \<noteq> ''retryable'' \<Longrightarrow> careful_step m d (write_fail_task_with_deactivation clk i k e c x d)"
| careful_reschedule: "careful_step m d (reschedule_task m clk jit i e d)"
| careful_persist: "upsert_with_occ dd v d = Inr (u, d') \<Longrightarrow> careful_step m d d'"

lemma careful_step_db_step: "careful_step m d d' \<Longrightarrow> db_step m d d'"
  by (induction rule: careful_step.induct) (auto intro: db_step.intros)

subsection \<open>Counting the open tasks of a job\<close>

definition open_in :: "uuid \<Rightarrow> task \<Rightarrow> bool" where
  "open_in j t \<longleftrightarrow> t_job_id t = Some j \<and> non_terminal (t_status t)"

lemma count_zero_open: "count_non_terminal j d = 0 \<longleftrightarrow> (\<forall>t \<in> set (db_tasks d). \<not> open_in j t)"
  by (auto simp: count_non_terminal_def filter_empty_conv open_in_def)

lemma jobs_settledI:
  assumes "\<And>jb. jb \<in> set (db_jobs d) \<Longrightarrow> worked (j_id jb) d \<Longrightarrow>
    \<forall>t \<in> set (db_tasks d). \<not> open_in (j_id jb) t \<Longrightarrow> j_status jb = COMPLETED"
  shows "jobs_settled d"
  using assms by (simp add: jobs_settled_def list_all_iff count_zero_open)

lemma jobs_settledD:
  assumes "jobs_settled d" and "jb \<in> set (db_jobs d)" and "worked (j_id jb) d"
    and "\<forall>t \<in> set (db_tasks d). \<not> open_in (j_id jb) t"
  shows "j_status jb = COMPLETED"
  using assms by (simp add: jobs_settled_def list_all_iff count_zero_open)

lemma jobs_settled_cong:
  assumes "db_tasks d' = db_tasks d" and "db_jobs d' = db_jobs d" shows "jobs_settled d' = jobs_settled d"
  by (simp add: jobs_settled_def worked_def count_non_terminal_def assms)

text \<open>Tasks that are reopened, or claimed, keep the jobs settled, since their jobs have an open task.\<close>

lemma jobs_settled_reopen:
  assumes "jobs_settled d" and "db_jobs d' = db_jobs d"
    and tasks: "db_tasks d' = map (\<lambda>t. if t \<in> S then f t else t) (db_tasks d)"
    and f: "\<And>t. t \<in> S \<Longrightarrow> t \<in> set (db_tasks d) \<Longrightarrow> t_job_id (f t) = t_job_id t \<and> non_terminal (t_status (f t))"
  shows "jobs_settled d'"
proof (rule jobs_settledI)
  let ?g = "\<lambda>t. if t \<in> S then f t else t"
  fix jb assume jb: "jb \<in> set (db_jobs d')" and worked: "worked (j_id jb) d'"
    and none: "\<forall>t \<in> set (db_tasks d'). \<not> open_in (j_id jb) t"
  have out: "t \<notin> S" if "t \<in> set (db_tasks d)" "t_job_id (?g t) = Some (j_id jb)" for t
  proof
    assume "t \<in> S"
    with f [OF this that(1)] that(2) have "open_in (j_id jb) (?g t)" by (simp add: open_in_def)
    with none that(1) show False by (simp add: tasks)
  qed
  have "worked (j_id jb) d" using worked out by (fastforce simp: worked_def list_ex_iff tasks)
  moreover have "\<not> open_in (j_id jb) t" if t: "t \<in> set (db_tasks d)" for t
  proof
    assume o: "open_in (j_id jb) t"
    then have "t_job_id (?g t) = Some (j_id jb)" using f [OF _ t] by (simp add: open_in_def)
    with out [OF t this] o none t show False by (auto simp: tasks)
  qed
  ultimately show "j_status jb = COMPLETED" using jobs_settledD [OF assms(1)] jb assms(2) by simp
qed

text \<open>New tasks that nobody has claimed change nothing for the jobs that were there.\<close>

lemma jobs_settled_append:
  assumes "jobs_settled d" and "db_tasks d' = db_tasks d @ ts" and "db_jobs d' = db_jobs d @ js"
    and "\<forall>t \<in> set ts. t_attempts t = 0"
    and "\<And>jb. jb \<in> set js \<Longrightarrow> \<not> worked (j_id jb) d"
  shows "jobs_settled d'"
proof (rule jobs_settledI)
  fix jb assume "jb \<in> set (db_jobs d')" and worked: "worked (j_id jb) d'"
    and none: "\<forall>t \<in> set (db_tasks d'). \<not> open_in (j_id jb) t"
  then have w: "worked (j_id jb) d" using assms(2,4) by (auto simp: worked_def list_ex_iff)
  with assms(3,5) \<open>jb \<in> set (db_jobs d')\<close> have "jb \<in> set (db_jobs d)" by auto
  from jobs_settledD [OF assms(1) this w] none assms(2) show "j_status jb = COMPLETED" by simp
qed

text \<open>The session that ends a task looks at its job.\<close>

lemma jobs_settled_end:
  assumes "jobs_settled d" and "keys_ok d" and "get_task i d = Some t" and "t_id t' = i"
    and "t_job_id t' = t_job_id t" and "t_attempts t' = t_attempts t"
  shows "jobs_settled (check_and_update_job_status now (t_job_id t) (put_task t' d))"
proof (rule jobs_settledI)
  let ?d1 = "put_task t' d" and ?d' = "check_and_update_job_status now (t_job_id t) (put_task t' d)"
  have tasks: "db_tasks ?d' = map (\<lambda>x. if x = t then t' else x) (db_tasks d)"
    by (simp add: put_task_map [OF assms(2-4)])
  have tin: "t \<in> set (db_tasks d)" using assms(3) by (auto dest: get_task_SomeD)
  fix jb assume jb: "jb \<in> set (db_jobs ?d')" and worked: "worked (j_id jb) ?d'"
    and none: "\<forall>t \<in> set (db_tasks ?d'). \<not> open_in (j_id jb) t"
  show "j_status jb = COMPLETED"
  proof (cases "t_job_id t = Some (j_id jb)")
    case True
    have "distinct (map j_id (db_jobs ?d'))"
      using assms(2) True by (auto simp: keys_ok_def check_and_update_job_status_def put_job_def put_task_def split: option.split)
    then have get: "get_job (j_id jb) ?d' = Some jb" using jb by (simp add: get_job_def find_by_member)
    have "count_non_terminal (j_id jb) ?d1 = 0" using none by (simp add: count_zero_open)
    with get True show ?thesis
      by (auto simp: check_job_get next_job_status_def split: option.splits if_splits)
  next
    case False
    have "jb \<in> set (db_jobs d)"
      using jb False by (auto simp: check_and_update_job_status_def put_job_def frame_simps
          split: option.splits if_splits dest!: set_write_row get_job_SomeD)
    moreover have "worked (j_id jb) d"
      using worked False assms(5) unfolding worked_def list_ex_iff tasks by (auto split: if_splits)
    moreover have "\<forall>x \<in> set (db_tasks d). \<not> open_in (j_id jb) x"
      using none False unfolding tasks by (auto simp: open_in_def split: if_splits)
    ultimately show ?thesis by (rule jobs_settledD [OF assms(1)])
  qed
qed

subsection \<open>Careful steps keep the jobs settled\<close>

lemma jobs_settled_create:
  assumes "schema_ok d" and "jobs_settled d" and "create_job env req d = (out, d')"
  shows "jobs_settled d'"
  using create_job_cases [OF assms(3)]
proof
  assume "d' = d"
  with assms(2) show ?thesis by simp
next
  assume "\<exists>j. out = Inr (Created j) \<and> try_create env req d = Inr (Created j, d')"
  then obtain j where run: "try_create env req d = Inr (Created j, d')" by blast
  from try_create_Created [OF assms(1) run] obtain w1 where w1: "db_jobs w1 = db_jobs d @ [new_job j (ae_now env)]"
    "schema_ok w1" "create_domains_and_tasks env j (accepted env req) (refused env req) w1 = Inr d'" by metis
  from create_domains_and_tasks_effect [OF w1(2,3)] have jobs: "db_jobs d' = db_jobs d @ [new_job j (ae_now env)]"
    using w1(1) by simp
  from create_job_rows [OF assms(1,3)] obtain ts where ts: "db_tasks d' = db_tasks d @ ts" "\<forall>t \<in> set ts. t_attempts t = 0"
    by blast
  have "j \<notin> j_id ` set (db_jobs d)"
    using w1(1,2) by (auto simp: schema_ok_def keys_ok_def new_job_def)
  then have "t_job_id t \<noteq> Some j" if "t \<in> set (db_tasks d)" for t
    using assms(1) that by (fastforce simp: schema_ok_def refs_ok_def task_refs_ok_def list_all_iff)
  then have "\<not> worked j d" by (auto simp: worked_def list_ex_iff)
  then show ?thesis
    by (intro jobs_settled_append [OF assms(2) ts(1) jobs ts(2)]) (simp add: new_job_def)
qed

lemma jobs_settled_claim:
  assumes "keys_ok d" and "jobs_settled d" and "claim_tasks locked limit lease types now d = (ts, d')"
  shows "jobs_settled d'"
proof -
  let ?ty = "case types of None \<Rightarrow> [USER_REQUEST, REFRESH] | Some tys \<Rightarrow> tys"
  let ?sel = "claim_select locked limit ?ty d"
  have "t_id (claim_mark lease now t) = t_id t" for t by (simp add: claim_mark_def)
  note tasks = put_tasks_map [OF assms(1) this claim_select_subset distinct_ids_claim_select [OF assms(1)]]
  have "jobs_settled (put_tasks (map (claim_mark lease now) (claim_select locked limit ty d)) d)" for ty
    by (rule jobs_settled_reopen [OF assms(2) _ tasks]) (simp_all add: frame_simps claim_mark_def non_terminal_def)
  with assms(2,3) show ?thesis by (auto simp: claim_tasks_def Let_def split: if_splits)
qed

lemma jobs_settled_recover:
  assumes "keys_ok d" and "jobs_settled d" and "spares m locked now d"
    and "recover_expired_tasks m msg locked limit now now' clk jitter d = (ts, d')"
  shows "jobs_settled d'"
proof -
  let ?sel = "recover_select locked limit now d" and ?f = "recover_mark m msg now' clk jitter"
  have id: "t_id (?f t) = t_id t" for t by (simp add: recover_mark_def Let_def)
  note tasks = put_tasks_map [OF assms(1) id recover_select_subset distinct_ids_recover_select [OF assms(1)]]
  have "t_job_id (?f t) = t_job_id t \<and> non_terminal (t_status (?f t))" if "t \<in> set ?sel" for t
  proof -
    from recover_selectD(1) [OF that] recover_select_expired [OF that] assms(3) have "t_attempts t < m"
      by (simp add: spares_def list_all_iff)
    then show ?thesis by (simp add: recover_mark_def Let_def non_terminal_def)
  qed
  then have "jobs_settled (put_tasks (map ?f ?sel) d)"
    by (intro jobs_settled_reopen [OF assms(2) _ tasks]) (simp_all add: frame_simps)
  with assms(2,4) show ?thesis by (auto simp: recover_expired_tasks_def Let_def split: if_splits)
qed

lemma jobs_settled_refresh:
  "create_refresh_tasks dms now ids n d = Inr (ts, d') \<Longrightarrow> jobs_settled d \<Longrightarrow> jobs_settled d'"
proof (induction dms arbitrary: d n ts d')
  case (Cons dm dms)
  have "jobs_settled d1" if "create_task (new_refresh_task i dm now) d = Inr d1" for i d1
    using create_task_InrD(1) [OF that]
    by (intro jobs_settled_append [OF Cons.prems(2), where ts = "[new_refresh_task i dm now]" and js = "[]"])
      (simp_all add: new_refresh_task_def)
  with Cons show ?case
    by (auto simp: Let_def split: sum.splits option.splits prod.splits if_splits)
qed simp

lemma jobs_settled_outcomes:
  assumes "keys_ok d" and "jobs_settled d"
  shows "jobs_settled (complete_task clk i st d)"
    and "jobs_settled (fail_task clk i e c d)"
    and "jobs_settled (write_fail_task_with_deactivation clk i k e c x d)"
    and "jobs_settled (reschedule_task m clk jit i e d)"
proof -
  have deact: "jobs_settled (deactivate_if_active now k d1) = jobs_settled d1" for now k d1
    by (rule jobs_settled_cong) simp_all
  have ended: "jobs_settled (check_and_update_job_status now (t_job_id t) (put_task t' d))"
    if "get_task i d = Some t" "t_id t' = t_id t" "t_job_id t' = t_job_id t" "t_attempts t' = t_attempts t" for t t' now
    using jobs_settled_end [OF assms(2,1) that(1) _ that(3,4)] that(1,2) by (auto dest: get_task_SomeD)
  show "jobs_settled (complete_task clk i st d)"
    using assms(2) ended by (auto simp: complete_task_def split: option.split)
  show fail: "jobs_settled (fail_task clk i e c d)"
    using assms(2) ended by (auto simp: fail_task_def split: option.split)
  then show "jobs_settled (write_fail_task_with_deactivation clk i k e c x d)"
    by (simp add: write_fail_task_with_deactivation_def Let_def deact)
  show "jobs_settled (reschedule_task m clk jit i e d)"
  proof (cases "get_task i d")
    case None
    with assms(2) show ?thesis by (simp add: reschedule_task_def)
  next
    case (Some t)
    have i: "t_id t = i" using Some by (auto dest: get_task_SomeD)
    have "jobs_settled (put_task u d)" if "t_id u = i" "t_job_id u = t_job_id t" "t_status u = PENDING" for u
    proof (rule jobs_settled_reopen [OF assms(2), where S = "{t}" and f = "\<lambda>_. u"])
      show "db_tasks (put_task u d) = map (\<lambda>x. if x \<in> {t} then u else x) (db_tasks d)"
        using put_task_map [OF assms(1) Some that(1)] by simp
    qed (use that in \<open>simp_all add: frame_simps non_terminal_def\<close>)
    with Some i ended [OF Some] show ?thesis by (simp add: reschedule_task_def Let_def deact)
  qed
qed

lemma jobs_settled_step: "careful_step m d d' \<Longrightarrow> schema_ok d \<Longrightarrow> jobs_settled d \<Longrightarrow> jobs_settled d'"
proof (induction rule: careful_step.induct)
  case (careful_create env req d out d')
  then show ?case by (blast intro: jobs_settled_create)
next
  case (careful_claim ms locked now now' pool d waiting pool' d')
  then have "keys_ok d" by (simp add: schema_ok_def)
  with careful_claim show ?case by (blast dest: claim_cycle_db intro: jobs_settled_claim)
next
  case (careful_recover ms locked now d now' clk jitter pool waiting pool' d')
  then have "keys_ok d" by (simp add: schema_ok_def)
  with careful_recover show ?case by (blast dest: recovery_cycle_db intro: jobs_settled_recover)
next
  case (careful_tick workers pool now ids d res d')
  then show ?case by (blast dest: tick_cases intro: jobs_settled_refresh)
next
  case (careful_persist dd v d u d')
  then show ?case using jobs_settled_cong [OF upsert_with_occ_tables(1,2) [OF careful_persist(1)]] by simp
qed (simp_all add: schema_ok_def jobs_settled_outcomes)

subsection \<open>Runs\<close>

text \<open>A task that was open once has been claimed when it is decided.\<close>

definition touched :: "task \<Rightarrow> bool" where
  "touched t \<longleftrightarrow> 0 < t_attempts t \<or> non_terminal (t_status t)"

lemma touched_map:
  assumes "keys_ok d" and "db_tasks d' = map (\<lambda>x. if x \<in> S then f x else x) (db_tasks d)"
    and "\<And>x. t_id (f x) = t_id x" and "get_task i d = Some t" and "touched t" and "t \<in> S \<Longrightarrow> touched (f t)"
  shows "\<exists>t'. get_task i d' = Some t' \<and> touched t'"
proof -
  let ?g = "\<lambda>x. if x \<in> S then f x else x"
  have t: "t \<in> set (db_tasks d)" "t_id t = i" using get_task_SomeD [OF assms(4)] by simp_all
  have id: "t_id (?g x) = t_id x" for x using assms(3) by simp
  then have "map t_id (db_tasks d') = map t_id (db_tasks d)" by (simp add: assms(2) comp_def del: if_image_distrib)
  then have "distinct (map t_id (db_tasks d'))" using assms(1) by (simp add: keys_ok_def)
  moreover have "?g t \<in> set (db_tasks d')" using t(1) by (simp add: assms(2))
  ultimately have "get_task (t_id (?g t)) d' = Some (?g t)" by (simp only: get_task_def find_by_member)
  with id t(2) assms(5,6) show ?thesis by auto
qed

lemma touched_step:
  assumes "work_step m d d'" and "keys_ok d" and "tasks_ok m d" and "get_task i d = Some t" and "touched t"
  shows "\<exists>t'. get_task i d' = Some t' \<and> touched t'"
proof -
  have outcome: "\<exists>t'. get_task i d' = Some t' \<and> touched t'"
    if tasks: "db_tasks d' = db_tasks (put_task u d)" and k: "get_task k d = Some v" "t_status v = PROCESSING"
      and u: "t_id u = t_id v" "t_attempts u = t_attempts v" for k u v
  proof -
    have "t_id v = k" using k(1) by (auto dest: get_task_SomeD)
    then have "get_task k (put_task u d) = Some u" using k(1) u(1) by (simp add: get_task_put_task)
    moreover have "1 \<le> t_attempts v" using tasks_ok_get [OF assms(3) k(1)] k(2) by (simp add: task_ok_def)
    ultimately show ?thesis
      using assms(4,5) u \<open>t_id v = k\<close> get_task_put_task [of i u d]
      by (auto simp: get_task_def tasks touched_def split: if_splits)
  qed
  show ?thesis
    using assms(1)
  proof cases
    case (work_claim ms locked now now' pool waiting pool')
    from claim_cycle_db [OF this] show ?thesis
    proof
      assume "d' = d" with assms(4,5) show ?thesis by simp
    next
      assume "\<exists>limit lease ts. claim_tasks locked limit lease None now' d = (ts, d')"
      then obtain limit lease where d': "d' = d \<or>
          d' = put_tasks (map (claim_mark lease now') (claim_select locked limit [USER_REQUEST, REFRESH] d)) d"
        by (auto simp: claim_tasks_def Let_def split: if_splits)
      have id: "t_id (claim_mark lease now' x) = t_id x" for x by (simp add: claim_mark_def)
      note tasks = put_tasks_map [OF assms(2) id claim_select_subset distinct_ids_claim_select [OF assms(2)]]
      have "touched (claim_mark lease now' x)" for x by (simp add: touched_def claim_mark_def)
      with d' touched_map [OF assms(2) tasks id assms(4,5)] assms(4,5) show ?thesis by auto
    qed
  next
    case (work_recover ms locked now now' clk jitter pool waiting pool')
    from recovery_cycle_db [OF this(2)] show ?thesis
    proof
      assume "d' = d" with assms(4,5) show ?thesis by simp
    next
      assume "\<exists>limit ts. recover_expired_tasks (ms_max_attempts ms) (recovery_message (ms_max_attempts ms)) locked
        limit now now' clk jitter d = (ts, d')"
      then obtain limit msg where d': "d' = d \<or>
          d' = put_tasks (map (recover_mark m msg now' clk jitter) (recover_select locked limit now d)) d"
        using work_recover(1) by (auto simp: recover_expired_tasks_def Let_def split: if_splits)
      have id: "t_id (recover_mark m msg now' clk jitter x) = t_id x" for x by (simp add: recover_mark_def Let_def)
      note tasks = put_tasks_map [OF assms(2) id recover_select_subset distinct_ids_recover_select [OF assms(2)]]
      have "touched (recover_mark m msg now' clk jitter t)" if "t \<in> set (recover_select locked limit now d)"
      proof -
        have "1 \<le> t_attempts t"
          using recover_selectD(2) [OF that] tasks_ok_get [OF assms(3,4)] by (simp add: task_ok_def)
        then show ?thesis by (simp add: touched_def recover_mark_def Let_def)
      qed
      with d' touched_map [OF assms(2) tasks id assms(4,5)] assms(4,5) show ?thesis by auto
    qed
  next
    case (work_complete k v clk)
    then have "db_tasks d' = db_tasks (put_task (v\<lparr>t_status := COMPLETED, t_updated_at := clk 0\<rparr>) d)"
      by (simp add: complete_task_def)
    from outcome [OF this work_complete(2,3)] show ?thesis by simp
  next
    case (work_fail k v c clk j e x)
    then have "db_tasks d' = db_tasks (put_task (v\<lparr>t_status := FAILED, t_updated_at := clk 0,
        t_error_payload := Some (category_payload e c)\<rparr>) d)"
      by (simp add: write_fail_task_with_deactivation_def fail_task_def Let_def)
    from outcome [OF this work_fail(2,3)] show ?thesis by simp
  next
    case (work_reschedule k v clk jit e)
    then obtain u where "db_tasks d' = db_tasks (put_task u d)" "t_id u = t_id v" "t_attempts u = t_attempts v"
      by (cases "m \<le> t_attempts v") (fastforce simp: reschedule_task_def Let_def)+
    from outcome [OF this(1) work_reschedule(2,3) this(2,3)] show ?thesis .
  next
    case (work_persist dd v u)
    with assms(4,5) show ?thesis by (simp add: get_task_def upsert_with_occ_tables(1))
  next
    case work_idle
    with assms(4,5) show ?thesis by simp
  qed
qed


text \<open>A run in which one task is claimed and completed; after that the two cycles have nothing to do.\<close>

definition one_job_db :: db where
  "one_job_db =
     demo_db\<lparr>db_tasks := [demo_task 11 USER_REQUEST PENDING 0 None]\<rparr>"

fun quiet_run :: "nat \<Rightarrow> db" where
  "quiet_run 0 = one_job_db"
| "quiet_run (Suc n) =
     (let d = quiet_run n in
      if n = 1 then complete_task (\<lambda>_. 5) 11 COMPLETED d
      else if even n then snd (snd (claim_cycle demo_settings (\<lambda>_. False) 0 0 (Some empty_queue) d))
      else snd (snd (recovery_cycle demo_settings (\<lambda>_. False) (after_leases (db_tasks d)) 0 (\<lambda>_. 0) (\<lambda>_. 30)
        (Some empty_queue) d)))"

lemma quiet_run_starts:
  "map_option t_status (get_task 11 (quiet_run 1)) = Some PROCESSING" "work_left 3 (quiet_run 2) = 0"
  by code_simp+

lemma one_job_db_ok: "schema_ok one_job_db" "tasks_ok 3 one_job_db" "jobs_settled one_job_db"
  by (simp_all add: one_job_db_def schema_ok_def keys_ok_def refs_ok_def task_refs_ok_def tasks_ok_def task_ok_def
      retry_payload_def jobs_settled_def worked_def demo_defs)

lemma quiet_run_turns:
  "even n \<Longrightarrow> claim_turn (quiet_run n) (quiet_run (Suc n))"
  "odd n \<Longrightarrow> n \<noteq> 1 \<Longrightarrow> recovery_turn 3 (quiet_run n) (quiet_run (Suc n))"
proof -
  have room: "0 < available_capacity empty_queue" "0 < ms_worker_concurrency demo_settings"
      "ms_max_attempts demo_settings = 3"
    by (simp_all add: available_capacity_def queue_size_def empty_queue_def demo_settings_def)
  show "claim_turn (quiet_run n) (quiet_run (Suc n))" if "even n"
    using that by (auto simp: Let_def intro!: claim_turn.intros [OF room(1,2)] prod_eqI)
  show "recovery_turn 3 (quiet_run n) (quiet_run (Suc n))" if "odd n" "n \<noteq> 1"
    using that after_leases
    by (auto simp: Let_def intro!: recovery_turn.intros [OF room(3,1,2)] prod_eqI)
qed

lemma quiet_run_works: "work_step 3 (quiet_run n) (quiet_run (Suc n))"
proof (cases "n = 1")
  case True
  from quiet_run_starts(1) obtain t where "get_task 11 (quiet_run 1) = Some t" "t_status t = PROCESSING" by auto
  from work_complete [OF this] True show ?thesis by (simp add: Let_def)
next
  case False
  then show ?thesis using quiet_run_turns [of n] claim_turn_step recovery_turn_step by blast
qed

lemma quiet_run_quiet:
  assumes "2 \<le> n" shows "\<forall>t \<in> set (db_tasks (quiet_run n)). t_status t \<noteq> PROCESSING"
proof -
  have ok: "keys_ok (quiet_run k)" "tasks_ok 3 (quiet_run k)" for k
    using run_invariants [of 3 quiet_run k] quiet_run_works one_job_db_ok by (simp_all add: schema_ok_def)
  have "work_left 3 (quiet_run n) = 0"
    using assms
  proof (induction rule: dec_induct)
    case base
    show ?case by (rule quiet_run_starts(2))
  next
    case (step k)
    from work_step_work [OF quiet_run_works ok, of k] step.IH show ?case by (metis not_less_zero work_left_def)
  qed
  then have "rank 3 t = 0" if "t \<in> set (db_tasks (quiet_run n))" for t
    using that by (simp add: work_left_def sum_list_eq_0_iff del: rank.simps)
  then show ?thesis by fastforce
qed

lemma quiet_run_careful: "careful_step 3 (quiet_run n) (quiet_run (Suc n))"
proof -
  have "n = 1 \<or> even n \<or> odd n \<and> 3 \<le> n" by presburger
  then consider "n = 1" | "even n" | "odd n" "3 \<le> n" by blast
  then show ?thesis
  proof cases
    case 1
    then show ?thesis using careful_complete by (simp add: Let_def)
  next
    case 2
    then show ?thesis using quiet_run_turns(1) by (blast elim: claim_turnE intro: careful_claim)
  next
    case 3
    then have spares: "spares 3 locked now (quiet_run n)" for locked now
      using quiet_run_quiet [of n] by (auto simp: spares_def expired_def list_all_iff)
    from 3 have "n \<noteq> 1" by simp
    from quiet_run_turns(2) [OF 3(1) this] show ?thesis
      by (rule recovery_turnE) (erule careful_recover [OF _ spares])
  qed
qed


end
