(* ===== verification/Completion.thy ===== *)
theory Completion
  imports Jobs_Done
begin

section \<open>Completing the tasks of a job at the same time (domain\_processor.py)\<close>

text \<open>
  In the other theories a session that ends a task is one step. Here it is taken apart into its statements, so
  that the sessions of several workers interleave between them, under READ COMMITTED: a statement sees what is
  committed when it runs, and what its own session has written. A session
  \<^item> updates the row of its task (the autoflush before the next query), and keeps the lock of the row,
  \<^item> locks the row of the job (\<open>SELECT ... FOR UPDATE\<close>), which waits while another session has it,
  \<^item> counts the open tasks of the job,
  \<^item> sets the status of the job accordingly, and commits, which gives the locks back.
  A session may also be cut off at any point, and then leaves nothing behind. The read of the task and its update are one
  statement here, and the row of the domain, which no statement above reads, is written with the commit.
\<close>

subsection \<open>The sessions\<close>

datatype outcome_write =
    Complete
  | Fail string string
  | Fail_deactivating uuid string string string

record write_session =
  ws_task :: uuid
  ws_clock :: "nat \<Rightarrow> timestamp"
  ws_outcome :: outcome_write

text \<open>The new row of the task.\<close>

definition new_row :: "write_session \<Rightarrow> task \<Rightarrow> task" where
  "new_row s t =
     (case ws_outcome s of
        Complete \<Rightarrow> t\<lparr>t_status := COMPLETED, t_updated_at := ws_clock s 0\<rparr>
      | Fail e c \<Rightarrow> t\<lparr>t_status := FAILED, t_updated_at := ws_clock s 0,
                      t_error_payload := Some (category_payload e c)\<rparr>
      | Fail_deactivating k e c x \<Rightarrow>
          t\<lparr>t_status := FAILED, t_updated_at := ws_clock s 0,
            t_error_payload := Some (category_payload e c)\<rparr>)"

text \<open>What the session does to the domain.\<close>

definition domain_part :: "write_session \<Rightarrow> db \<Rightarrow> db" where
  "domain_part s d =
     (case ws_outcome s of
        Fail_deactivating k e c x \<Rightarrow>
          if should_soft_deactivate c x then deactivate_if_active (ws_clock s 2) k d else d
      | _ \<Rightarrow> d)"

text \<open>The session as one step.\<close>

definition whole_session :: "write_session \<Rightarrow> db \<Rightarrow> db" where
  "whole_session s d =
     (case ws_outcome s of
        Complete \<Rightarrow> write_complete_task (ws_clock s) (ws_task s) COMPLETED d
      | Fail e c \<Rightarrow> write_fail_task (ws_clock s) (ws_task s) e c d
      | Fail_deactivating k e c x \<Rightarrow>
          write_fail_task_with_deactivation (ws_clock s) (ws_task s) k e c x d)"

subsection \<open>Statements\<close>

datatype phase = Fresh | Written | Holding job | Counted job nat | Closed

record progress =
  sp_db :: db
  sp_phase :: "nat \<Rightarrow> phase"

text \<open>The lock on the row of the task is held from the update to the end, that of the job from the query.\<close>

fun holds_task :: "phase \<Rightarrow> bool" where
  "holds_task Fresh = False"
| "holds_task Closed = False"
| "holds_task _ = True"

fun holds_job :: "phase \<Rightarrow> job option" where
  "holds_job (Holding jb) = Some jb"
| "holds_job (Counted jb n) = Some jb"
| "holds_job _ = None"

definition job_locked :: "(nat \<Rightarrow> phase) \<Rightarrow> uuid \<Rightarrow> bool" where
  "job_locked ph j \<longleftrightarrow> (\<exists>s jb. holds_job (ph s) = Some jb \<and> j_id jb = j)"

text \<open>What a session sees that has updated its task.\<close>

definition own_view :: "write_session \<Rightarrow> db \<Rightarrow> db" where
  "own_view s d = (case get_task (ws_task s) d of None \<Rightarrow> d | Some t \<Rightarrow> put_task (new_row s t) d)"

definition set_job_status :: "timestamp \<Rightarrow> job \<Rightarrow> nat \<Rightarrow> db \<Rightarrow> db" where
  "set_job_status now jb n d =
     (if n = 0 then
        (if j_status jb \<noteq> COMPLETED then put_job (jb\<lparr>j_status := COMPLETED, j_updated_at := now\<rparr>) d else d)
      else
        (if j_status jb = PENDING then put_job (jb\<lparr>j_status := PROCESSING, j_updated_at := now\<rparr>) d else d))"

text \<open>
  The steps of all sessions, \<open>prog\<close>, together with those of other transactions, \<open>others\<close>. Row locks keep another
  transaction from the rows that a session has locked; and none of them ends or reopens a task of a job whose
  open tasks have just been counted (which only recovery and a late reschedule could).
\<close>

inductive statement ::
  "(nat \<Rightarrow> write_session) \<Rightarrow> (db \<Rightarrow> db \<Rightarrow> bool) \<Rightarrow> progress \<Rightarrow> progress \<Rightarrow> bool"
  for prog :: "nat \<Rightarrow> write_session" and others :: "db \<Rightarrow> db \<Rightarrow> bool" where
  no_task:
    "sp_phase c s = Fresh \<Longrightarrow> get_task (ws_task (prog s)) (sp_db c) = None \<Longrightarrow>
     statement prog others c
       \<lparr>sp_db = domain_part (prog s) (sp_db c), sp_phase = (sp_phase c)(s := Closed)\<rparr>"
| update_task:
    "sp_phase c s = Fresh \<Longrightarrow> get_task (ws_task (prog s)) (sp_db c) = Some t \<Longrightarrow>
     \<forall>s'. holds_task (sp_phase c s') \<longrightarrow> ws_task (prog s') \<noteq> ws_task (prog s) \<Longrightarrow>
     statement prog others c \<lparr>sp_db = sp_db c, sp_phase = (sp_phase c)(s := Written)\<rparr>"
| lock_job:
    "sp_phase c s = Written \<Longrightarrow> get_task (ws_task (prog s)) (sp_db c) = Some t \<Longrightarrow> t_job_id t = Some j \<Longrightarrow>
     get_job j (sp_db c) = Some jb \<Longrightarrow> \<not> job_locked (sp_phase c) j \<Longrightarrow>
     statement prog others c \<lparr>sp_db = sp_db c, sp_phase = (sp_phase c)(s := Holding jb)\<rparr>"
| no_job:
    "sp_phase c s = Written \<Longrightarrow> get_task (ws_task (prog s)) (sp_db c) = Some t \<Longrightarrow>
     Option.bind (t_job_id t) (\<lambda>j. get_job j (sp_db c)) = None \<Longrightarrow>
     statement prog others c
       \<lparr>sp_db = domain_part (prog s) (own_view (prog s) (sp_db c)), sp_phase = (sp_phase c)(s := Closed)\<rparr>"
| count_open:
    "sp_phase c s = Holding jb \<Longrightarrow>
     statement prog others c
       \<lparr>sp_db = sp_db c,
        sp_phase = (sp_phase c)(s := Counted jb (count_non_terminal (j_id jb) (own_view (prog s) (sp_db c))))\<rparr>"
| commit_all:
    "sp_phase c s = Counted jb n \<Longrightarrow>
     statement prog others c
       \<lparr>sp_db = domain_part (prog s)
          (set_job_status (ws_clock (prog s) 1) jb n (own_view (prog s) (sp_db c))),
        sp_phase = (sp_phase c)(s := Closed)\<rparr>"
| cut_off:
    "statement prog others c \<lparr>sp_db = sp_db c, sp_phase = (sp_phase c)(s := Closed)\<rparr>"
| other_commit:
    "others (sp_db c) d \<Longrightarrow>
     \<forall>s. holds_task (sp_phase c s) \<longrightarrow> get_task (ws_task (prog s)) d = get_task (ws_task (prog s)) (sp_db c) \<Longrightarrow>
     \<forall>s jb. holds_job (sp_phase c s) = Some jb \<longrightarrow> get_job (j_id jb) d = get_job (j_id jb) (sp_db c) \<Longrightarrow>
     \<forall>s jb n. sp_phase c s = Counted jb n \<longrightarrow>
       count_non_terminal (j_id jb) d = count_non_terminal (j_id jb) (sp_db c) \<Longrightarrow>
     statement prog others c \<lparr>sp_db = d, sp_phase = sp_phase c\<rparr>"

definition all_fresh :: "db \<Rightarrow> progress" where
  "all_fresh d = \<lparr>sp_db = d, sp_phase = (\<lambda>_. Fresh)\<rparr>"

subsection \<open>Frames\<close>

lemma new_row_keeps [simp]:
  "t_id (new_row s t) = t_id t" "t_job_id (new_row s t) = t_job_id t" "t_domain_id (new_row s t) = t_domain_id t"
  by (simp_all add: new_row_def split: outcome_write.split)

lemma domain_part_frame [simp]:
  "db_tasks (domain_part s d) = db_tasks d" "db_jobs (domain_part s d) = db_jobs d"
  "get_task i (domain_part s d) = get_task i d" "get_job j (domain_part s d) = get_job j d"
  by (cases "ws_outcome s"; simp add: domain_part_def get_job_def)+

lemma set_job_status_frame [simp]:
  "db_tasks (set_job_status now jb n d) = db_tasks d" "get_task i (set_job_status now jb n d) = get_task i d"
  by (simp_all add: set_job_status_def get_task_def)

lemma get_job_set_job_status [simp]:
  "j \<noteq> j_id jb \<Longrightarrow> get_job j (set_job_status now jb n d) = get_job j d"
  by (simp add: set_job_status_def job_rows.get_put)

lemma count_by_tasks: "db_tasks d' = db_tasks d \<Longrightarrow> count_non_terminal j d' = count_non_terminal j d"
  by (simp add: count_non_terminal_def)

lemma count_frames [simp]:
  "count_non_terminal j (domain_part s d) = count_non_terminal j d"
  "count_non_terminal j (set_job_status now jb n d) = count_non_terminal j d"
  by (rule count_by_tasks, simp)+

lemma length_filter_replace:
  "distinct xs \<Longrightarrow> x \<in> set xs \<Longrightarrow>
   length (filter P (map (\<lambda>z. if z = x then y else z) xs)) + of_bool (P x) = length (filter P xs) + of_bool (P y)"
proof (induction xs)
  case (Cons z zs)
  show ?case
  proof (cases "z = x")
    case True
    with Cons.prems have "map (\<lambda>z. if z = x then y else z) zs = zs" by (intro map_idI) auto
    with True show ?thesis by simp
  next
    case False
    with Cons show ?thesis by simp
  qed
qed simp

lemma count_put_task:
  assumes "keys_ok d" and "get_task (t_id t') d = Some t"
  shows "count_non_terminal j (put_task t' d) + of_bool (open_in j t) = count_non_terminal j d + of_bool (open_in j t')"
proof -
  have "distinct (db_tasks d)" using assms(1) by (auto simp: keys_ok_def distinct_map)
  from length_filter_replace [OF this, of t "open_in j" t'] get_task_SomeD [OF assms(2)]
  show ?thesis
    unfolding count_non_terminal_def put_task_map [OF assms refl] by (simp add: open_in_def [abs_def])
qed

lemma count_put_elsewhere:
  assumes "keys_ok d" and "get_task (t_id t') d = Some t" and "t_job_id t \<noteq> Some j" and "t_job_id t' = t_job_id t"
  shows "count_non_terminal j (put_task t' d) = count_non_terminal j d"
  using count_put_task [OF assms(1,2), of j] assms(3,4) by (simp add: open_in_def)

lemma own_view_row:
  assumes "get_task (ws_task s) d = Some t"
  shows "own_view s d = put_task (new_row s t) d" "t_id t = ws_task s"
    "get_job j (own_view s d) = get_job j d"
    "get_task i (own_view s d) = (if i = ws_task s then Some (new_row s t) else get_task i d)"
  using assms get_task_SomeD [OF assms] by (simp_all add: own_view_def get_task_put_task)

lemma own_view_other_task [simp]: "i \<noteq> ws_task s \<Longrightarrow> get_task i (own_view s d) = get_task i d"
  by (auto simp: own_view_def get_task_put_task dest: get_task_SomeD split: option.split)

lemma get_job_own_view [simp]: "get_job j (own_view s d) = get_job j d"
  by (simp add: own_view_def split: option.split)

text \<open>What a session sees of the open tasks depends on its row and on the count of the others.\<close>

lemma count_own_view:
  assumes "keys_ok d" and "keys_ok d'" and "get_task (ws_task s) d = Some t" and "get_task (ws_task s) d' = Some t"
    and "count_non_terminal j d' = count_non_terminal j d"
  shows "count_non_terminal j (own_view s d') = count_non_terminal j (own_view s d)"
proof -
  have i: "get_task (t_id (new_row s t)) d = Some t" "get_task (t_id (new_row s t)) d' = Some t"
    using assms(3,4) own_view_row(2) [OF assms(3)] by simp_all
  show ?thesis
    using count_put_task [OF assms(1) i(1), of j] count_put_task [OF assms(2) i(2), of j] assms(5)
    unfolding own_view_row(1) [OF assms(3)] own_view_row(1) [OF assms(4)] by linarith
qed

subsection \<open>A session as a whole\<close>

lemma whole_session_eq:
  "whole_session s d =
     (case get_task (ws_task s) d of
        None \<Rightarrow> domain_part s d
      | Some t \<Rightarrow> domain_part s (check_and_update_job_status (ws_clock s 1) (t_job_id t) (own_view s d)))"
  by (simp add: whole_session_def write_complete_task_def write_fail_task_def write_fail_task_with_deactivation_def
      complete_task_def fail_task_def domain_part_def new_row_def own_view_def Let_def
      split: outcome_write.split option.split)

lemma schema_ok_whole_session: "schema_ok d \<Longrightarrow> schema_ok (whole_session s d)"
  by (simp add: whole_session_def write_complete_task_def write_fail_task_def
      schema_ok_complete_task schema_ok_fail_task schema_ok_write_fail_deact split: outcome_write.split)

lemma commit_is_whole_session:
  assumes "get_task (ws_task s) d = Some t" and "t_job_id t = Some (j_id jb)" and "get_job (j_id jb) d = Some jb"
    and "n = count_non_terminal (j_id jb) (own_view s d)"
  shows "domain_part s (set_job_status (ws_clock s 1) jb n (own_view s d)) = whole_session s d"
  using assms by (simp add: whole_session_eq check_and_update_job_status_def set_job_status_def)

lemma no_job_is_whole_session:
  assumes "get_task (ws_task s) d = Some t" and "Option.bind (t_job_id t) (\<lambda>j. get_job j d) = None"
  shows "domain_part s (own_view s d) = whole_session s d"
  using assms by (cases "t_job_id t") (simp_all add: whole_session_eq check_and_update_job_status_def)

lemma get_job_check_other:
  "k \<noteq> Some j \<Longrightarrow> get_job j (check_and_update_job_status now k d) = get_job j d"
proof (cases k)
  case (Some i)
  then show "k \<noteq> Some j \<Longrightarrow> ?thesis" by (simp add: check_job_get split: option.split)
qed (simp add: check_and_update_job_status_def)

text \<open>It touches nothing that another session has locked.\<close>

lemma whole_session_frame:
  assumes "keys_ok d" and "get_task (ws_task s) d = Some t"
  shows "i \<noteq> ws_task s \<Longrightarrow> get_task i (whole_session s d) = get_task i d"
    and "t_job_id t \<noteq> Some j \<Longrightarrow> get_job j (whole_session s d) = get_job j d"
    and "t_job_id t \<noteq> Some j \<Longrightarrow> count_non_terminal j (whole_session s d) = count_non_terminal j d"
proof -
  show "i \<noteq> ws_task s \<Longrightarrow> get_task i (whole_session s d) = get_task i d"
    using assms(2) by (simp add: whole_session_eq)
  show "t_job_id t \<noteq> Some j \<Longrightarrow> get_job j (whole_session s d) = get_job j d"
    using assms(2) by (cases "t_job_id t") (simp_all add: whole_session_eq get_job_check_other)
  show "t_job_id t \<noteq> Some j \<Longrightarrow> count_non_terminal j (whole_session s d) = count_non_terminal j d"
    using assms own_view_row(1,2) [OF assms(2)] count_put_elsewhere [OF assms(1), of "new_row s t" t j]
    by (simp add: whole_session_eq count_by_tasks [OF check_job_frame(1)])
qed

subsection \<open>The locks keep the sessions apart\<close>

text \<open>
  What each session relies on between its statements: its row is there, nobody else has its locks, the job is
  as it has read it, and the count is still right.
\<close>

definition apart :: "(nat \<Rightarrow> write_session) \<Rightarrow> progress \<Rightarrow> bool" where
  "apart prog c \<longleftrightarrow> keys_ok (sp_db c) \<and>
     (\<forall>s. holds_task (sp_phase c s) \<longrightarrow> get_task (ws_task (prog s)) (sp_db c) \<noteq> None) \<and>
     (\<forall>s s'. holds_task (sp_phase c s) \<longrightarrow> holds_task (sp_phase c s') \<longrightarrow>
        ws_task (prog s) = ws_task (prog s') \<longrightarrow> s = s') \<and>
     (\<forall>s jb. holds_job (sp_phase c s) = Some jb \<longrightarrow> get_job (j_id jb) (sp_db c) = Some jb \<and>
        (\<exists>t. get_task (ws_task (prog s)) (sp_db c) = Some t \<and> t_job_id t = Some (j_id jb))) \<and>
     (\<forall>s s' jb jb'. holds_job (sp_phase c s) = Some jb \<longrightarrow> holds_job (sp_phase c s') = Some jb' \<longrightarrow>
        j_id jb = j_id jb' \<longrightarrow> s = s') \<and>
     (\<forall>s jb n. sp_phase c s = Counted jb n \<longrightarrow>
        n = count_non_terminal (j_id jb) (own_view (prog s) (sp_db c)))"

lemma apartD:
  assumes "apart prog c"
  shows "keys_ok (sp_db c)"
    and "holds_task (sp_phase c s) \<Longrightarrow> \<exists>t. get_task (ws_task (prog s)) (sp_db c) = Some t"
    and "holds_task (sp_phase c s) \<Longrightarrow> holds_task (sp_phase c s') \<Longrightarrow> ws_task (prog s) = ws_task (prog s') \<Longrightarrow> s = s'"
    and "holds_job (sp_phase c s) = Some jb \<Longrightarrow> get_job (j_id jb) (sp_db c) = Some jb"
    and "holds_job (sp_phase c s) = Some jb \<Longrightarrow>
      \<exists>t. get_task (ws_task (prog s)) (sp_db c) = Some t \<and> t_job_id t = Some (j_id jb)"
    and "holds_job (sp_phase c s) = Some jb \<Longrightarrow> holds_job (sp_phase c s') = Some jb' \<Longrightarrow> j_id jb = j_id jb' \<Longrightarrow> s = s'"
    and "sp_phase c s = Counted jb n \<Longrightarrow> n = count_non_terminal (j_id jb) (own_view (prog s) (sp_db c))"
  using assms unfolding apart_def by blast+

lemma holds_job_task: "holds_job p = Some jb \<Longrightarrow> holds_task p"
  by (cases p) auto

text \<open>Another database in which the locked rows and the counts in use are the same.\<close>

lemma apart_db:
  assumes "apart prog c" and "keys_ok d"
    and "\<And>s. holds_task (ph s) \<Longrightarrow> sp_phase c s = ph s \<and>
      get_task (ws_task (prog s)) d = get_task (ws_task (prog s)) (sp_db c)"
    and "\<And>s jb. holds_job (ph s) = Some jb \<Longrightarrow> get_job (j_id jb) d = get_job (j_id jb) (sp_db c)"
    and "\<And>s jb n. ph s = Counted jb n \<Longrightarrow>
      count_non_terminal (j_id jb) d = count_non_terminal (j_id jb) (sp_db c)"
  shows "apart prog \<lparr>sp_db = d, sp_phase = ph\<rparr>"
proof -
  note c = apartD [OF assms(1)]
  have ph: "sp_phase c s = ph s" if "holds_task (ph s)" for s using assms(3) that by blast
  have row: "get_task (ws_task (prog s)) d = get_task (ws_task (prog s)) (sp_db c)" if "holds_task (ph s)" for s
    using assms(3) that by blast
  have "n = count_non_terminal (j_id jb) (own_view (prog s) d)" if n: "ph s = Counted jb n" for s jb n
  proof -
    from n have h: "holds_task (ph s)" "sp_phase c s = Counted jb n" using ph [of s] by simp_all
    with c(2) obtain t where t: "get_task (ws_task (prog s)) (sp_db c) = Some t" by fastforce
    with count_own_view [OF c(1) assms(2) t _ assms(5) [OF n]] row [OF h(1)] c(7) [OF h(2)] show ?thesis by simp
  qed
  moreover have "s = s'" if "holds_job (ph s) = Some jb" "holds_job (ph s') = Some jb'" "j_id jb = j_id jb'"
    for s s' jb jb'
    using c(6) [of s jb s' jb'] that ph holds_job_task by metis
  moreover have "s = s'" if "holds_task (ph s)" "holds_task (ph s')" "ws_task (prog s) = ws_task (prog s')" for s s'
    using c(3) [of s s'] that ph by simp
  moreover have "\<exists>t. get_task (ws_task (prog s)) d = Some t" if "holds_task (ph s)" for s
    using c(2) [of s] that ph row by simp
  moreover have "get_job (j_id jb) d = Some jb \<and>
      (\<exists>t. get_task (ws_task (prog s)) d = Some t \<and> t_job_id t = Some (j_id jb))"
    if h: "holds_job (ph s) = Some jb" for s jb
    using c(4,5) [of s jb] h ph [OF holds_job_task [OF h]] row [OF holds_job_task [OF h]] assms(4) [OF h] by simp
  ultimately show ?thesis
    unfolding apart_def progress.simps using assms(2) by blast
qed

text \<open>The end of a session leaves what the others rely on.\<close>

lemma apart_whole_session:
  assumes "apart prog c" and "schema_ok (sp_db c)" and "get_task (ws_task (prog s)) (sp_db c) = Some t"
    and "holds_task (sp_phase c s)"
    and "\<And>s' jb. s' \<noteq> s \<Longrightarrow> holds_job (sp_phase c s') = Some jb \<Longrightarrow> t_job_id t \<noteq> Some (j_id jb)"
  shows "apart prog \<lparr>sp_db = whole_session (prog s) (sp_db c), sp_phase = (sp_phase c)(s := Closed)\<rparr>"
proof (rule apart_db [OF assms(1)])
  note c = apartD [OF assms(1)]
  note frame = whole_session_frame [OF c(1) assms(3)]
  show "keys_ok (whole_session (prog s) (sp_db c))"
    using schema_ok_whole_session [OF assms(2)] by (simp add: schema_ok_def)
  fix s' assume "holds_task (((sp_phase c)(s := Closed)) s')"
  then have s': "s' \<noteq> s" "holds_task (sp_phase c s')" by (auto split: if_splits)
  with c(3) assms(4) have "ws_task (prog s') \<noteq> ws_task (prog s)" by blast
  with frame(1) s' show "sp_phase c s' = ((sp_phase c)(s := Closed)) s' \<and>
      get_task (ws_task (prog s')) (whole_session (prog s) (sp_db c)) = get_task (ws_task (prog s')) (sp_db c)"
    by simp
next
  note frame = whole_session_frame [OF apartD(1) [OF assms(1)] assms(3)]
  fix s' jb assume "holds_job (((sp_phase c)(s := Closed)) s') = Some jb"
  then have "s' \<noteq> s" "holds_job (sp_phase c s') = Some jb" by (auto split: if_splits)
  from assms(5) [OF this] show "get_job (j_id jb) (whole_session (prog s) (sp_db c)) = get_job (j_id jb) (sp_db c)"
    by (rule frame(2))
next
  note frame = whole_session_frame [OF apartD(1) [OF assms(1)] assms(3)]
  fix s' jb n assume "((sp_phase c)(s := Closed)) s' = Counted jb n"
  then have "s' \<noteq> s" "holds_job (sp_phase c s') = Some jb" by (auto split: if_splits)
  from assms(5) [OF this]
  show "count_non_terminal (j_id jb) (whole_session (prog s) (sp_db c)) = count_non_terminal (j_id jb) (sp_db c)"
    by (rule frame(3))
qed

lemma apart_no_task:
  assumes "apart prog c" and "schema_ok (sp_db c)"
  shows "apart prog \<lparr>sp_db = domain_part (prog s) (sp_db c), sp_phase = (sp_phase c)(s := Closed)\<rparr>"
proof (rule apart_db [OF assms(1)])
  have "schema_ok (domain_part (prog s) (sp_db c))"
    using assms(2) by (simp add: domain_part_def schema_ok_deactivate split: outcome_write.split)
  then show "keys_ok (domain_part (prog s) (sp_db c))" by (simp add: schema_ok_def)
qed (auto split: if_splits)

lemma apart_advance:
  assumes "apart prog c" and "get_task (ws_task (prog s)) (sp_db c) = Some t"
    and "\<And>s'. s' \<noteq> s \<Longrightarrow> holds_task (sp_phase c s') \<Longrightarrow> ws_task (prog s') \<noteq> ws_task (prog s)"
    and "\<And>jb. holds_job p = Some jb \<Longrightarrow> get_job (j_id jb) (sp_db c) = Some jb \<and> t_job_id t = Some (j_id jb)"
    and "\<And>jb s' jb'. holds_job p = Some jb \<Longrightarrow> s' \<noteq> s \<Longrightarrow> holds_job (sp_phase c s') = Some jb' \<Longrightarrow> j_id jb' \<noteq> j_id jb"
    and "\<And>jb n. p = Counted jb n \<Longrightarrow> n = count_non_terminal (j_id jb) (own_view (prog s) (sp_db c))"
  shows "apart prog \<lparr>sp_db = sp_db c, sp_phase = (sp_phase c)(s := p)\<rparr>"
proof -
  note c = apartD [OF assms(1)]
  let ?ph = "(sp_phase c)(s := p)"
  have "s1 = s2" if "holds_task (?ph s1)" "holds_task (?ph s2)" "ws_task (prog s1) = ws_task (prog s2)" for s1 s2
    using that c(3) [of s1 s2] assms(3) [of s1] assms(3) [of s2] by (auto split: if_splits)
  moreover have "\<exists>t. get_task (ws_task (prog s')) (sp_db c) = Some t" if "holds_task (?ph s')" for s'
    using that c(2) [of s'] assms(2) by (auto split: if_splits)
  moreover have "s1 = s2" if "holds_job (?ph s1) = Some jb" "holds_job (?ph s2) = Some jb'" "j_id jb = j_id jb'"
    for s1 s2 jb jb'
    using that c(6) [of s1 jb s2 jb'] assms(5) [of jb s2 jb'] assms(5) [of jb' s1 jb] by (auto split: if_splits)
  moreover have "get_job (j_id jb) (sp_db c) = Some jb \<and>
      (\<exists>t. get_task (ws_task (prog s')) (sp_db c) = Some t \<and> t_job_id t = Some (j_id jb))"
    if "holds_job (?ph s') = Some jb" for s' jb
    using that c(4,5) [of s' jb] assms(2) assms(4) [of jb] by (auto split: if_splits)
  moreover have "n = count_non_terminal (j_id jb) (own_view (prog s') (sp_db c))" if "?ph s' = Counted jb n" for s' jb n
    using that c(7) [of s' jb n] assms(6) [of jb n] by (auto split: if_splits)
  ultimately show ?thesis unfolding apart_def progress.simps using c(1) by blast
qed

lemma statement_step:
  assumes "statement prog others c c'" and "apart prog c" and "schema_ok (sp_db c)"
    and "\<forall>d d'. others d d' \<longrightarrow> schema_ok d \<longrightarrow> schema_ok d'"
  shows "apart prog c' \<and> schema_ok (sp_db c') \<and>
    (sp_db c' = sp_db c \<or> others (sp_db c) (sp_db c') \<or> (\<exists>s. sp_db c' = whole_session (prog s) (sp_db c)))"
  using assms(1)
proof cases
  case (no_task s)
  then have "sp_db c' = whole_session (prog s) (sp_db c)" by (simp add: whole_session_eq)
  moreover have "apart prog c'" unfolding no_task(1) by (rule apart_no_task [OF assms(2,3)])
  ultimately show ?thesis using schema_ok_whole_session [OF assms(3)] by auto
next
  case (update_task s t)
  have "apart prog c'" unfolding update_task(1) using update_task(2-4) by (intro apart_advance [OF assms(2)]) auto
  with update_task(1) assms(3) show ?thesis by simp
next
  case (lock_job s t j jb)
  then have j: "j_id jb = j" by (auto dest: get_job_SomeD)
  have "apart prog c'" unfolding lock_job(1)
    using lock_job(2-6) apartD(3) [OF assms(2), of s] j
    by (intro apart_advance [OF assms(2)]) (fastforce simp: job_locked_def)+
  with lock_job(1) assms(3) show ?thesis by simp
next
  case (no_job s t)
  have eq: "sp_db c' = whole_session (prog s) (sp_db c)"
    using no_job_is_whole_session [OF no_job(3,4)] no_job(1) by simp
  have "t_job_id t \<noteq> Some (j_id jb)" if "holds_job (sp_phase c s') = Some jb" for s' jb
    using no_job(4) apartD(4) [OF assms(2) that] by (cases "t_job_id t") auto
  with no_job have "apart prog c'"
    using apart_whole_session [OF assms(2,3) no_job(3)] eq by simp
  with eq schema_ok_whole_session [OF assms(3)] show ?thesis by auto
next
  case (count_open s jb)
  then have h: "holds_job (sp_phase c s) = Some jb" "holds_task (sp_phase c s)" by simp_all
  from apartD(5) [OF assms(2) h(1)] obtain t where t: "get_task (ws_task (prog s)) (sp_db c) = Some t"
      "t_job_id t = Some (j_id jb)" by blast
  have "apart prog c'" unfolding count_open(1)
  proof (rule apart_advance [OF assms(2) t(1)])
    show "ws_task (prog s') \<noteq> ws_task (prog s)" if "s' \<noteq> s" "holds_task (sp_phase c s')" for s'
      using apartD(3) [OF assms(2) that(2) h(2)] that(1) by blast
    show "j_id jb2 \<noteq> j_id jb1" if "holds_job (Counted jb (count_non_terminal (j_id jb) (own_view (prog s) (sp_db c)))) = Some jb1"
      "s' \<noteq> s" "holds_job (sp_phase c s') = Some jb2" for s' jb1 jb2
      using apartD(6) [OF assms(2) h(1) that(3)] that(1,2) by auto
  qed (use t apartD(4) [OF assms(2) h(1)] in auto)
  with count_open(1) assms(3) show ?thesis by simp
next
  case (commit_all s jb n)
  then have h: "holds_job (sp_phase c s) = Some jb" "holds_task (sp_phase c s)" by simp_all
  from apartD(5) [OF assms(2) h(1)] obtain t where t: "get_task (ws_task (prog s)) (sp_db c) = Some t"
      "t_job_id t = Some (j_id jb)" by blast
  have eq: "sp_db c' = whole_session (prog s) (sp_db c)"
    using commit_is_whole_session [OF t apartD(4) [OF assms(2) h(1)] apartD(7) [OF assms(2) commit_all(2)]] commit_all(1)
    by simp
  have "t_job_id t \<noteq> Some (j_id jb')" if "s' \<noteq> s" "holds_job (sp_phase c s') = Some jb'" for s' jb'
    using t(2) apartD(6) [OF assms(2) h(1) that(2)] that(1) by auto
  with commit_all(1) have "apart prog c'"
    using apart_whole_session [OF assms(2,3) t(1) h(2)] eq by simp
  with eq schema_ok_whole_session [OF assms(3)] show ?thesis by auto
next
  case (cut_off s)
  have "apart prog c'" unfolding cut_off(1)
    using apartD(1) [OF assms(2)] by (intro apart_db [OF assms(2)]) (auto split: if_splits)
  with cut_off assms(3) show ?thesis by simp
next
  case (other_commit d)
  from assms(3,4) other_commit(2) have d: "schema_ok d" by blast
  have "apart prog c'" unfolding other_commit(1)
  proof (rule apart_db [OF assms(2)])
    show "keys_ok d" using d by (simp add: schema_ok_def)
    show "count_non_terminal (j_id jb) d = count_non_terminal (j_id jb) (sp_db c)" if "sp_phase c s = Counted jb n" for s jb n
      using other_commit(5) that by blast
  qed (use other_commit(3,4) in simp_all)
  with other_commit(1,2) d show ?thesis by simp
qed

lemma apart_all_fresh: "schema_ok d \<Longrightarrow> apart prog (all_fresh d)"
  by (simp add: apart_def all_fresh_def schema_ok_def)

abbreviation statements ::
  "(nat \<Rightarrow> write_session) \<Rightarrow> (db \<Rightarrow> db \<Rightarrow> bool) \<Rightarrow> progress \<Rightarrow> progress \<Rightarrow> bool" where
  "statements prog others \<equiv> (statement prog others)\<^sup>*\<^sup>*"

lemma statements_apart:
  assumes "statements prog others (all_fresh d) c" and "schema_ok d"
    and "\<forall>d d'. others d d' \<longrightarrow> schema_ok d \<longrightarrow> schema_ok d'"
  shows "apart prog c \<and> schema_ok (sp_db c)"
  using assms(1)
proof (induction rule: rtranclp_induct)
  case base
  then show ?case using assms(2) by (simp add: apart_all_fresh) (simp add: all_fresh_def)
next
  case (step c c')
  then have "apart prog c" "schema_ok (sp_db c)" by simp_all
  from statement_step [OF step(2) this assms(3)] show ?case by simp
qed


text \<open>The session that can go on: one that has counted, else one that has the job, else one that has its task.\<close>

lemma next_session [consumes 1, case_names counted holding written fresh]:
  assumes "sp_phase c s \<noteq> Closed"
  obtains (counted) s' jb n where "sp_phase c s' = Counted jb n"
    | (holding) s' jb where "sp_phase c s' = Holding jb"
    | (written) s' where "sp_phase c s' = Written" and "\<forall>s jb. holds_job (sp_phase c s) \<noteq> Some jb"
    | (fresh) "sp_phase c s = Fresh" and "\<forall>s. \<not> holds_task (sp_phase c s)"
proof -
  have p: "p = Fresh \<or> p = Closed \<or> p = Written \<or> (\<exists>jb. p = Holding jb) \<or> (\<exists>jb n. p = Counted jb n)" for p
    by (cases p) simp_all
  have "holds_job (sp_phase c s1) \<noteq> Some jb" if "\<forall>s jb. sp_phase c s \<noteq> Holding jb \<and> (\<forall>n. sp_phase c s \<noteq> Counted jb n)"
    for s1 jb
    using that p [of "sp_phase c s1"] by auto
  moreover have "\<not> holds_task (sp_phase c s1)"
    if "\<forall>s jb. sp_phase c s \<noteq> Holding jb \<and> (\<forall>n. sp_phase c s \<noteq> Counted jb n)" "\<forall>s. sp_phase c s \<noteq> Written" for s1
    using that p [of "sp_phase c s1"] by auto
  moreover have "sp_phase c s = Fresh" if "\<not> holds_task (sp_phase c s)"
    using that assms by (cases "sp_phase c s") simp_all
  ultimately show thesis using counted holding written fresh by meson
qed


text \<open>A claim, which the workers' sessions meet most, leaves every count as it is.\<close>

lemma claim_keeps_count:
  assumes "keys_ok d" and "claim_tasks locked limit lease types now d = (ts, d')"
  shows "count_non_terminal j d' = count_non_terminal j d"
proof -
  have id: "t_id (claim_mark lease now x) = t_id x" for x by (simp add: claim_mark_def)
  note tasks = put_tasks_map [OF assms(1) id claim_select_subset distinct_ids_claim_select [OF assms(1)]]
  have "count_non_terminal j (put_tasks (map (claim_mark lease now) (claim_select locked limit ty d)) d) =
      count_non_terminal j d" for ty
    unfolding count_non_terminal_def tasks
    by (auto simp: filter_map comp_def claim_mark_def non_terminal_def dest: claim_selectD(2)
        intro!: arg_cong [where f = length] filter_cong)
  with assms(2) show ?thesis by (auto simp: claim_tasks_def Let_def split: if_splits)
qed

subsection \<open>No completion is lost\<close>

lemma jobs_settled_whole_session:
  assumes "schema_ok d" and "jobs_settled d" shows "jobs_settled (whole_session s d)"
  using assms jobs_settled_outcomes [of d]
  by (simp add: whole_session_def write_complete_task_def write_fail_task_def schema_ok_def split: outcome_write.split)

text \<open>
  C4. However the sessions of the workers interleave, the completion of a job is not lost: when all tasks of a
  job that have been worked on are ended, the job is COMPLETED, although each session saw only a part of the
  others' work. (Two sessions that end the last two tasks at the same time cannot both count the other's task as
  open, since the second counts after the first has committed.)
\<close>

theorem no_completion_lost:
  assumes "schema_ok d" and "jobs_settled d" and "\<forall>d d'. others d d' \<longrightarrow> careful_step m d d'"
    and "statements prog others (all_fresh d) c"
    and "get_job j (sp_db c) = Some jb" and "get_task i (sp_db c) = Some t" and "t_job_id t = Some j"
    and "0 < t_attempts t"
    and "\<forall>k u. get_task k (sp_db c) = Some u \<longrightarrow> t_job_id u = Some j \<longrightarrow> t_status u = COMPLETED \<or> t_status u = FAILED"
  shows "j_status jb = COMPLETED"
proof -
  have others: "\<forall>d d'. others d d' \<longrightarrow> schema_ok d \<longrightarrow> schema_ok d'"
    using assms(3) careful_step_db_step schema_ok_step by blast
  have "jobs_settled (sp_db c)"
    using assms(4)
  proof (induction rule: rtranclp_induct)
    case base
    then show ?case using assms(2) by (simp add: all_fresh_def)
  next
    case (step c c')
    from statements_apart [OF step(1) assms(1) others] have c: "apart prog c" "schema_ok (sp_db c)" by simp_all
    from statement_step [OF step(2) c others] show ?case
      using step(3) assms(3) jobs_settled_step [OF _ c(2)] jobs_settled_whole_session [OF c(2)] by metis
  qed
  moreover have jb: "jb \<in> set (db_jobs (sp_db c))" "j_id jb = j" using assms(5) by (auto dest: get_job_SomeD)
  moreover have "worked j (sp_db c)"
    using assms(6-8) by (auto simp: worked_def list_ex_iff dest: get_task_SomeD)
  moreover have "\<not> open_in j u" if "u \<in> set (db_tasks (sp_db c))" for u
  proof -
    have "get_task (t_id u) (sp_db c) = Some u"
      using that statements_apart [OF assms(4,1) others] by (simp add: get_task_def schema_ok_def keys_ok_def find_by_member)
    with assms(9) have "t_job_id u = Some j \<longrightarrow> t_status u = COMPLETED \<or> t_status u = FAILED" by blast
    then show ?thesis by (auto simp: open_in_def non_terminal_def)
  qed
  ultimately show ?thesis using jobs_settledD by blast
qed

subsection \<open>Running the statements\<close>

text \<open>
  The next statement of session \<open>s\<close>, of \<open>n\<close> sessions; \<open>None\<close> if it has to wait for a lock, or has ended.
\<close>

definition try_statement :: "nat \<Rightarrow> (nat \<Rightarrow> write_session) \<Rightarrow> nat \<Rightarrow> progress \<Rightarrow> progress option" where
  "try_statement n prog s c =
     (let d = sp_db c; ph = sp_phase c; p = prog s;
          close = (\<lambda>d'. Some \<lparr>sp_db = d', sp_phase = ph(s := Closed)\<rparr>);
          goto = (\<lambda>q. Some \<lparr>sp_db = d, sp_phase = ph(s := q)\<rparr>)
      in case ph s of
           Fresh \<Rightarrow>
             (case get_task (ws_task p) d of
                None \<Rightarrow> close (domain_part p d)
              | Some t \<Rightarrow>
                  if list_ex (\<lambda>s'. holds_task (ph s') \<and> ws_task (prog s') = ws_task p) [0..<n] then None
                  else goto Written)
         | Written \<Rightarrow>
             (case get_task (ws_task p) d of
                None \<Rightarrow> None
              | Some t \<Rightarrow>
                  (case Option.bind (t_job_id t) (\<lambda>j. get_job j d) of
                     None \<Rightarrow> close (domain_part p (own_view p d))
                   | Some jb \<Rightarrow>
                       if list_ex (\<lambda>s'. map_option j_id (holds_job (ph s')) = t_job_id t) [0..<n] then None
                       else goto (Holding jb)))
         | Holding jb \<Rightarrow> goto (Counted jb (count_non_terminal (j_id jb) (own_view p d)))
         | Counted jb k \<Rightarrow> close (domain_part p (set_job_status (ws_clock p 1) jb k (own_view p d)))
         | Closed \<Rightarrow> None)"

fun schedule :: "nat \<Rightarrow> (nat \<Rightarrow> write_session) \<Rightarrow> nat list \<Rightarrow> progress \<Rightarrow> progress option" where
  "schedule n prog [] c = Some c"
| "schedule n prog (s # ss) c = Option.bind (try_statement n prog s c) (schedule n prog ss)"

lemma try_statement_sound:
  assumes "try_statement n prog s c = Some c'" and "\<forall>s' \<ge> n. sp_phase c s' = Fresh" and "s < n"
  shows "statement prog others c c' \<and> (\<forall>s' \<ge> n. sp_phase c' s' = Fresh)"
proof -
  have free: "holds_task (sp_phase c s') \<Longrightarrow> s' < n" "holds_job (sp_phase c s') = Some jb \<Longrightarrow> s' < n" for s' jb
    using assms(2) by (metis holds_task.simps(1) not_le_imp_less, metis holds_job.simps(3) not_le_imp_less option.distinct(1))
  have fresh: "\<forall>s' \<ge> n. ((sp_phase c)(s := q)) s' = Fresh" for q using assms(2,3) by simp
  show ?thesis
  proof (cases "sp_phase c s")
    case Fresh
    then show ?thesis
      using assms(1) fresh no_task [OF Fresh, of prog others] update_task [OF Fresh, of prog _ others] free(1)
      by (auto simp: try_statement_def Let_def list_ex_iff split: option.splits if_splits)
  next
    case Written
    then obtain t where t: "get_task (ws_task (prog s)) (sp_db c) = Some t"
      using assms(1) by (auto simp: try_statement_def Let_def split: option.splits)
    show ?thesis
    proof (cases "Option.bind (t_job_id t) (\<lambda>j. get_job j (sp_db c))")
      case None
      with assms(1) Written t fresh no_job [where prog = prog and others = others, OF Written t None] show ?thesis by (auto simp: try_statement_def Let_def)
    next
      case (Some jb)
      then obtain j where j: "t_job_id t = Some j" "get_job j (sp_db c) = Some jb" by (cases "t_job_id t") auto
      with assms(1) Written t Some have run: "c' = \<lparr>sp_db = sp_db c, sp_phase = (sp_phase c)(s := Holding jb)\<rparr>"
        and "\<not> list_ex (\<lambda>s'. map_option j_id (holds_job (sp_phase c s')) = Some j) [0..<n]"
        by (auto simp: try_statement_def Let_def split: if_splits)
      then have "\<not> job_locked (sp_phase c) j" using free(2) by (fastforce simp: job_locked_def list_ex_iff)
      from lock_job [where prog = prog and others = others, OF Written t j this] run fresh show ?thesis by simp
    qed
  next
    case (Holding jb)
    with assms(1) fresh count_open [where prog = prog and others = others, OF Holding] show ?thesis by (auto simp: try_statement_def Let_def)
  next
    case (Counted jb k)
    with assms(1) fresh commit_all [where prog = prog and others = others, OF Counted] show ?thesis by (auto simp: try_statement_def Let_def)
  next
    case Closed
    with assms(1) show ?thesis by (simp add: try_statement_def Let_def)
  qed
qed

lemma schedule_sound:
  "schedule n prog ss c = Some c' \<Longrightarrow> \<forall>s' \<ge> n. sp_phase c s' = Fresh \<Longrightarrow> set ss \<subseteq> {..<n} \<Longrightarrow>
   statements prog others c c'"
proof (induction ss arbitrary: c)
  case (Cons s ss)
  then obtain c1 where c1: "try_statement n prog s c = Some c1" "schedule n prog ss c1 = Some c'"
    by (cases "try_statement n prog s c") auto
  from try_statement_sound [OF c1(1) Cons.prems(2)] Cons.prems(3)
  have "statement prog others c c1" "\<forall>s' \<ge> n. sp_phase c1 s' = Fresh" by simp_all
  with Cons.IH [OF c1(2)] Cons.prems(3) show ?case by (auto intro: converse_rtranclp_into_rtranclp)
qed simp

subsection \<open>Two workers end the last two tasks\<close>

definition two_open_db :: db where
  "two_open_db =
     demo_db\<lparr>db_tasks := [demo_task 11 USER_REQUEST PROCESSING 1 (Some 100), demo_task 12 USER_REQUEST PROCESSING 1 (Some 100)]\<rparr>"

definition two_sessions :: "nat \<Rightarrow> write_session" where
  "two_sessions s =
     \<lparr>ws_task = (if s = 0 then 11 else 12), ws_clock = (\<lambda>_. 5),
      ws_outcome = (if s = 0 then Complete else Fail ''NXDOMAIN'' ''permanent'')\<rparr>"

lemma two_open_db_ok: "schema_ok two_open_db" "jobs_settled two_open_db"
  by (simp_all add: two_open_db_def schema_ok_def keys_ok_def refs_ok_def task_refs_ok_def jobs_settled_def
      count_non_terminal_def non_terminal_def demo_defs)

text \<open>Both update their task before either looks at the job; the second one then has to wait for the first.\<close>

lemma two_sessions_run:
  "map_option (\<lambda>c. (sp_phase c 0, sp_phase c 1,
       map_option j_status (get_job 1 (sp_db c)),
       map_option t_job_id (get_task 11 (sp_db c)), map_option t_attempts (get_task 11 (sp_db c)),
       map t_status (db_tasks (sp_db c)), map t_id (db_tasks (sp_db c))))
     (schedule 2 two_sessions [0, 1, 0, 0, 0, 1, 1, 1] (all_fresh two_open_db)) =
   Some (Closed, Closed, Some COMPLETED, Some (Some 1), Some 1, [COMPLETED, FAILED], [11, 12])"
  "schedule 2 two_sessions [0, 1, 0, 1] (all_fresh two_open_db) = None"
  by code_simp+

lemma two_sessions_end:
  obtains c jb t where "statements two_sessions (\<lambda>_ _. False) (all_fresh two_open_db) c"
    and "get_job 1 (sp_db c) = Some jb" and "get_task 11 (sp_db c) = Some t" and "t_job_id t = Some 1"
    and "t_attempts t = 1" and "map t_status (db_tasks (sp_db c)) = [COMPLETED, FAILED]"
    and "map t_id (db_tasks (sp_db c)) = [11, 12]"
proof -
  from two_sessions_run(1) obtain c where c: "schedule 2 two_sessions [0, 1, 0, 0, 0, 1, 1, 1] (all_fresh two_open_db) = Some c"
    and final: "map_option j_status (get_job 1 (sp_db c)) = Some COMPLETED"
      "map_option t_job_id (get_task 11 (sp_db c)) = Some (Some 1)" "map_option t_attempts (get_task 11 (sp_db c)) = Some 1"
      "map t_status (db_tasks (sp_db c)) = [COMPLETED, FAILED]" "map t_id (db_tasks (sp_db c)) = [11, 12]"
    by auto
  have "statements two_sessions (\<lambda>_ _. False) (all_fresh two_open_db) c"
    by (rule schedule_sound [OF c]) (simp_all add: all_fresh_def)
  moreover from final(1) obtain jb where "get_job 1 (sp_db c) = Some jb" by auto
  moreover from final(2) obtain t where "get_task 11 (sp_db c) = Some t" "t_job_id t = Some 1" by auto
  ultimately show thesis using that final by auto
qed



theorem no_completion_lost_witness:
  "\<exists>(c :: progress) jb. map t_status (db_tasks (sp_db c)) = [COMPLETED, FAILED] \<and> get_job 1 (sp_db c) = Some jb \<and>
     j_status jb = COMPLETED"
proof (rule two_sessions_end)
  fix c jb t
  assume run: "statements two_sessions (\<lambda>_ _. False) (all_fresh two_open_db) c"
    and jb: "get_job 1 (sp_db c) = Some jb" and t: "get_task 11 (sp_db c) = Some t" "t_job_id t = Some 1" "t_attempts t = 1"
    and st: "map t_status (db_tasks (sp_db c)) = [COMPLETED, FAILED]"
  have "t_status u = COMPLETED \<or> t_status u = FAILED" if "get_task k (sp_db c) = Some u" for k u
  proof -
    have "t_status u \<in> set (map t_status (db_tasks (sp_db c)))" using get_task_SomeD [OF that] by simp
    then show ?thesis unfolding st by simp
  qed
  then have "j_status jb = COMPLETED"
    by (intro no_completion_lost [OF two_open_db_ok _ run jb t(1,2), of 3]) (simp_all add: t(3))
  with st jb show ?thesis by (intro exI [of _ c] exI [of _ jb] conjI)
qed

end
