(* ===== verification/Async_Queue.thy ===== *)
theory Async_Queue
  imports Bounded_Queue
begin

section \<open>Waiting for the queue (worker/worker.py, BoundedQueue over asyncio.Queue)\<close>

text \<open>
  Bounded\_Queue says what \<open>put\<close> and \<open>get\<close> do when they need not wait. Here they wait: the state has the
  coroutines that are suspended in them. A coroutine that finds the queue full (empty) puts a future at the end of a list and
  suspends; an item taken (put) wakes the first of the list, which tries again when the event loop resumes it,
  since another coroutine may have been faster. A waiting coroutine can be cancelled, and in this program it is,
  twice a second: the workers wait with \<open>wait_for(queue.get(), timeout=0.5)\<close>. If it has been woken already, it
  wakes the next one instead.

  A step is what runs from one suspension to the next. \<open>aq_in\<close> and \<open>aq_out\<close> record what went in and out, with the
  coroutine that got it, and \<open>aq_done\<close> counts the calls of \<open>task_done\<close>.
\<close>

record 'a async_queue =
  aq_queue :: "'a bounded_queue"
  aq_getters :: "nat list"
  aq_putters :: "(nat \<times> 'a) list"
  aq_woken_getters :: "nat list"
  aq_woken_putters :: "(nat \<times> 'a) list"
  aq_joiners :: "nat list"
  aq_joined :: "nat list"
  aq_in :: "'a list"
  aq_out :: "(nat \<times> 'a) list"
  aq_done :: nat

abbreviation aq_items :: "'a async_queue \<Rightarrow> 'a list" where
  "aq_items a \<equiv> bq_items (aq_queue a)"

definition new_async_queue :: "'a bounded_queue \<Rightarrow> 'a async_queue" where
  "new_async_queue q =
     \<lparr>aq_queue = q, aq_getters = [], aq_putters = [], aq_woken_getters = [], aq_woken_putters = [],
      aq_joiners = [], aq_joined = [], aq_in = [], aq_out = [], aq_done = 0\<rparr>"

subsection \<open>Waking\<close>

text \<open>\<open>_wakeup_next\<close>: the first future of the list that is not done. A cancelled one has left the list.\<close>

definition wake_getter :: "'a async_queue \<Rightarrow> 'a async_queue" where
  "wake_getter a =
     (case aq_getters a of
        [] \<Rightarrow> a
      | g # gs \<Rightarrow> a\<lparr>aq_getters := gs, aq_woken_getters := aq_woken_getters a @ [g]\<rparr>)"

definition wake_putter :: "'a async_queue \<Rightarrow> 'a async_queue" where
  "wake_putter a =
     (case aq_putters a of
        [] \<Rightarrow> a
      | p # ps \<Rightarrow> a\<lparr>aq_putters := ps, aq_woken_putters := aq_woken_putters a @ [p]\<rparr>)"

subsection \<open>Operations\<close>

text \<open>\<open>put_nowait\<close> and \<open>get_nowait\<close>.\<close>

definition aq_put_nowait :: "'a \<Rightarrow> 'a async_queue \<Rightarrow> exn + 'a async_queue" where
  "aq_put_nowait x a =
     (case put_nowait x (aq_queue a) of
        Inl e \<Rightarrow> Inl e
      | Inr q \<Rightarrow> Inr (wake_getter (a\<lparr>aq_queue := q, aq_in := aq_in a @ [x]\<rparr>)))"

definition aq_get_nowait :: "nat \<Rightarrow> 'a async_queue \<Rightarrow> exn + 'a \<times> 'a async_queue" where
  "aq_get_nowait g a =
     (case get_nowait (aq_queue a) of
        Inl e \<Rightarrow> Inl e
      | Inr (x, q) \<Rightarrow> Inr (x, wake_putter (a\<lparr>aq_queue := q, aq_out := aq_out a @ [(g, x)]\<rparr>)))"

text \<open>One pass of the \<open>while\<close> loop of \<open>put\<close> and \<open>get\<close>: suspend, or do it.\<close>

definition aq_put :: "nat \<Rightarrow> 'a \<Rightarrow> 'a async_queue \<Rightarrow> 'a async_queue" where
  "aq_put p x a =
     (case aq_put_nowait x a of
        Inl e \<Rightarrow> a\<lparr>aq_putters := aq_putters a @ [(p, x)]\<rparr>
      | Inr a' \<Rightarrow> a')"

definition aq_get :: "nat \<Rightarrow> 'a async_queue \<Rightarrow> 'a async_queue" where
  "aq_get g a =
     (case aq_get_nowait g a of
        Inl e \<Rightarrow> a\<lparr>aq_getters := aq_getters a @ [g]\<rparr>
      | Inr (x, a') \<Rightarrow> a')"

text \<open>
  Cancellation. A future that is still waiting just leaves its list; a coroutine that was woken passes the
  wake-up on if there still is something to wake up for.
\<close>

definition cancel_waiting_put :: "nat \<times> 'a \<Rightarrow> 'a async_queue \<Rightarrow> 'a async_queue" where
  "cancel_waiting_put p a = a\<lparr>aq_putters := remove1 p (aq_putters a)\<rparr>"

definition cancel_waiting_get :: "nat \<Rightarrow> 'a async_queue \<Rightarrow> 'a async_queue" where
  "cancel_waiting_get g a = a\<lparr>aq_getters := remove1 g (aq_getters a)\<rparr>"

definition cancel_woken_put :: "nat \<times> 'a \<Rightarrow> 'a async_queue \<Rightarrow> 'a async_queue" where
  "cancel_woken_put p a =
     (let a = a\<lparr>aq_woken_putters := remove1 p (aq_woken_putters a)\<rparr> in
      if \<not> is_full (aq_queue a) then wake_putter a else a)"

definition cancel_woken_get :: "nat \<Rightarrow> 'a async_queue \<Rightarrow> 'a async_queue" where
  "cancel_woken_get g a =
     (let a = a\<lparr>aq_woken_getters := remove1 g (aq_woken_getters a)\<rparr> in
      if \<not> is_empty (aq_queue a) then wake_getter a else a)"

text \<open>The event behind \<open>join\<close> is set when the count of unfinished tasks falls to zero.\<close>

definition aq_task_done :: "'a async_queue \<Rightarrow> exn + 'a async_queue" where
  "aq_task_done a =
     (case task_done (aq_queue a) of
        Inl e \<Rightarrow> Inl e
      | Inr q \<Rightarrow>
          Inr (if bq_unfinished q = 0
               then a\<lparr>aq_queue := q, aq_done := aq_done a + 1, aq_joined := aq_joined a @ aq_joiners a, aq_joiners := []\<rparr>
               else a\<lparr>aq_queue := q, aq_done := aq_done a + 1\<rparr>))"

definition aq_join :: "nat \<Rightarrow> 'a async_queue \<Rightarrow> 'a async_queue" where
  "aq_join j a =
     (if 0 < bq_unfinished (aq_queue a) then a\<lparr>aq_joiners := aq_joiners a @ [j]\<rparr>
      else a\<lparr>aq_joined := aq_joined a @ [j]\<rparr>)"

subsection \<open>Steps\<close>

inductive queue_step :: "'a async_queue \<Rightarrow> 'a async_queue \<Rightarrow> bool" where
  call_put: "queue_step a (aq_put p x a)"
| call_get: "queue_step a (aq_get g a)"
| call_put_nowait: "aq_put_nowait x a = Inr a' \<Longrightarrow> queue_step a a'"
| call_get_nowait: "aq_get_nowait g a = Inr (x, a') \<Longrightarrow> queue_step a a'"
| resume_put:
    "(p, x) \<in> set (aq_woken_putters a) \<Longrightarrow>
     queue_step a (aq_put p x (a\<lparr>aq_woken_putters := remove1 (p, x) (aq_woken_putters a)\<rparr>))"
| resume_get:
    "g \<in> set (aq_woken_getters a) \<Longrightarrow>
     queue_step a (aq_get g (a\<lparr>aq_woken_getters := remove1 g (aq_woken_getters a)\<rparr>))"
| cancel_put: "px \<in> set (aq_putters a) \<Longrightarrow> queue_step a (cancel_waiting_put px a)"
| cancel_get: "g \<in> set (aq_getters a) \<Longrightarrow> queue_step a (cancel_waiting_get g a)"
| cancel_resumed_put: "px \<in> set (aq_woken_putters a) \<Longrightarrow> queue_step a (cancel_woken_put px a)"
| cancel_resumed_get: "g \<in> set (aq_woken_getters a) \<Longrightarrow> queue_step a (cancel_woken_get g a)"
| call_task_done: "aq_task_done a = Inr a' \<Longrightarrow> queue_step a a'"
| call_join: "queue_step a (aq_join j a)"

abbreviation queue_run :: "'a async_queue \<Rightarrow> 'a async_queue \<Rightarrow> bool" where
  "queue_run \<equiv> queue_step\<^sup>*\<^sup>*"

subsection \<open>The invariant\<close>

text \<open>
  While somebody waits for an item, there are at least as many woken coroutines as items; while somebody waits for
  room, there are at least as many as free places.
\<close>

definition async_ok :: "'a async_queue \<Rightarrow> bool" where
  "async_ok a \<longleftrightarrow> queue_ok (aq_queue a) \<and>
     (aq_getters a \<noteq> [] \<longrightarrow> length (aq_items a) \<le> length (aq_woken_getters a)) \<and>
     (aq_putters a \<noteq> [] \<longrightarrow> available_capacity (aq_queue a) \<le> int (length (aq_woken_putters a))) \<and>
     (aq_joiners a \<noteq> [] \<longrightarrow> 0 < bq_unfinished (aq_queue a)) \<and>
     aq_in a = map snd (aq_out a) @ aq_items a \<and>
     length (aq_in a) = bq_unfinished (aq_queue a) + aq_done a"

lemmas queue_views = available_capacity_def queue_size_def is_full_def is_empty_def

lemma async_ok_new: "queue_ok q \<Longrightarrow> bq_items q = [] \<Longrightarrow> bq_unfinished q = 0 \<Longrightarrow> async_ok (new_async_queue q)"
  by (simp add: async_ok_def new_async_queue_def)

lemma async_ok_put_nowait:
  assumes "aq_put_nowait x a = Inr a'" and "queue_ok (aq_queue a)"
    and "aq_getters a \<noteq> [] \<Longrightarrow> length (aq_items a) \<le> length (aq_woken_getters a)"
    and "aq_putters a \<noteq> [] \<Longrightarrow> available_capacity (aq_queue a) \<le> int (length (aq_woken_putters a)) + 1"
    and "aq_in a = map snd (aq_out a) @ aq_items a" and "length (aq_in a) = bq_unfinished (aq_queue a) + aq_done a"
  shows "async_ok a'"
proof -
  from assms(1) have full: "\<not> is_full (aq_queue a)"
    and a': "a' = wake_getter (a\<lparr>aq_queue := enqueue x (aq_queue a), aq_in := aq_in a @ [x]\<rparr>)"
    by (auto simp: aq_put_nowait_def put_nowait_def split: if_splits)
  have "queue_ok (enqueue x (aq_queue a))" by (rule queue_ok_enqueue [OF assms(2) full])
  then show ?thesis
    using assms(3-) unfolding a'
    by (cases "aq_getters a") (auto simp: async_ok_def wake_getter_def enqueue_def queue_views Let_def)
qed

lemma async_ok_get_nowait:
  assumes "aq_get_nowait g a = Inr (x, a')" and "queue_ok (aq_queue a)"
    and "aq_getters a \<noteq> [] \<Longrightarrow> length (aq_items a) \<le> length (aq_woken_getters a) + 1"
    and "aq_putters a \<noteq> [] \<Longrightarrow> available_capacity (aq_queue a) \<le> int (length (aq_woken_putters a))"
    and "aq_joiners a \<noteq> [] \<Longrightarrow> 0 < bq_unfinished (aq_queue a)"
    and "aq_in a = map snd (aq_out a) @ aq_items a" and "length (aq_in a) = bq_unfinished (aq_queue a) + aq_done a"
  shows "async_ok a'"
proof -
  from assms(1) obtain xs where items: "aq_items a = x # xs"
    and a': "a' = wake_putter (a\<lparr>aq_queue := dequeue xs (aq_queue a), aq_out := aq_out a @ [(g, x)]\<rparr>)"
    by (auto simp: aq_get_nowait_def get_nowait_def split: list.splits)
  have "queue_ok (dequeue xs (aq_queue a))" by (rule queue_ok_dequeue [OF assms(2) items])
  then show ?thesis
    using assms(3-) items unfolding a'
    by (cases "aq_putters a") (auto simp: async_ok_def wake_putter_def dequeue_def queue_views Let_def)
qed

text \<open>A pass of \<open>put\<close>, by a coroutine that calls it or by one that was woken and so leaves one place to others.\<close>

lemma async_ok_put:
  assumes "queue_ok (aq_queue a)"
    and "aq_getters a \<noteq> [] \<Longrightarrow> length (aq_items a) \<le> length (aq_woken_getters a)"
    and "aq_putters a \<noteq> [] \<Longrightarrow> available_capacity (aq_queue a) \<le> int (length (aq_woken_putters a)) + 1"
    and "aq_joiners a \<noteq> [] \<Longrightarrow> 0 < bq_unfinished (aq_queue a)"
    and "aq_in a = map snd (aq_out a) @ aq_items a" and "length (aq_in a) = bq_unfinished (aq_queue a) + aq_done a"
  shows "async_ok (aq_put p x a)"
proof (cases "aq_put_nowait x a")
  case (Inl e)
  then have "available_capacity (aq_queue a) \<le> 0"
    by (auto simp: aq_put_nowait_def put_nowait_def queue_views split: if_splits)
  with Inl assms show ?thesis by (simp add: aq_put_def async_ok_def)
next
  case (Inr a')
  with async_ok_put_nowait [OF this assms(1-3,5,6)] show ?thesis by (simp add: aq_put_def)
qed

lemma async_ok_get:
  assumes "queue_ok (aq_queue a)"
    and "aq_getters a \<noteq> [] \<Longrightarrow> length (aq_items a) \<le> length (aq_woken_getters a) + 1"
    and "aq_putters a \<noteq> [] \<Longrightarrow> available_capacity (aq_queue a) \<le> int (length (aq_woken_putters a))"
    and "aq_joiners a \<noteq> [] \<Longrightarrow> 0 < bq_unfinished (aq_queue a)"
    and "aq_in a = map snd (aq_out a) @ aq_items a" and "length (aq_in a) = bq_unfinished (aq_queue a) + aq_done a"
  shows "async_ok (aq_get g a)"
proof (cases "aq_get_nowait g a")
  case (Inl e)
  then have "aq_items a = []" by (auto simp: aq_get_nowait_def get_nowait_def split: list.splits)
  with Inl assms show ?thesis by (simp add: aq_get_def async_ok_def)
next
  case (Inr r)
  then obtain x a' where r: "aq_get_nowait g a = Inr (x, a')" by (cases r) simp
  from async_ok_get_nowait [OF r assms] show ?thesis by (simp add: aq_get_def r)
qed

lemma Suc_length_remove1: "x \<in> set xs \<Longrightarrow> Suc (length (remove1 x xs)) = length xs"
  by (induction xs) auto

lemma async_ok_step: "queue_step a a' \<Longrightarrow> async_ok a \<Longrightarrow> async_ok a'"
proof (induction rule: queue_step.induct)
  case (call_put a p x)
  then show ?case by (intro async_ok_put) (auto simp: async_ok_def)
next
  case (call_get a g)
  then show ?case by (intro async_ok_get) (auto simp: async_ok_def)
next
  case (call_put_nowait x a a')
  then show ?case by (intro async_ok_put_nowait [OF call_put_nowait(1)]) (auto simp: async_ok_def)
next
  case (call_get_nowait g a x a')
  then show ?case by (intro async_ok_get_nowait [OF call_get_nowait(1)]) (auto simp: async_ok_def)
next
  case (resume_put p x a)
  then have "Suc (length (remove1 (p, x) (aq_woken_putters a))) = length (aq_woken_putters a)"
    by (simp only: Suc_length_remove1)
  with resume_put show ?case by (intro async_ok_put) (auto simp: async_ok_def)
next
  case (resume_get g a)
  then have "Suc (length (remove1 g (aq_woken_getters a))) = length (aq_woken_getters a)"
    by (simp only: Suc_length_remove1)
  with resume_get show ?case by (intro async_ok_get) (auto simp: async_ok_def)
next
  case (cancel_put px a)
  then show ?case by (auto simp: async_ok_def cancel_waiting_put_def)
next
  case (cancel_get g a)
  then show ?case by (auto simp: async_ok_def cancel_waiting_get_def)
next
  case (cancel_resumed_put px a)
  then have "Suc (length (remove1 px (aq_woken_putters a))) = length (aq_woken_putters a)"
    by (simp only: Suc_length_remove1)
  with cancel_resumed_put show ?case
    by (cases "aq_putters a") (auto simp: async_ok_def cancel_woken_put_def wake_putter_def queue_views Let_def)
next
  case (cancel_resumed_get g a)
  then have "Suc (length (remove1 g (aq_woken_getters a))) = length (aq_woken_getters a)"
    by (simp only: Suc_length_remove1)
  with cancel_resumed_get show ?case
    by (cases "aq_getters a") (auto simp: async_ok_def cancel_woken_get_def wake_getter_def queue_views Let_def)
next
  case (call_task_done a a')
  then obtain q where q: "task_done (aq_queue a) = Inr q" by (auto simp: aq_task_done_def split: sum.splits)
  then have eq: "q = (aq_queue a)\<lparr>bq_unfinished := bq_unfinished (aq_queue a) - 1\<rparr>" and pos: "0 < bq_unfinished (aq_queue a)"
    by (auto simp: task_done_def split: if_splits)
  have keep: "queue_ok q = queue_ok (aq_queue a)" "bq_items q = aq_items a" "available_capacity q = available_capacity (aq_queue a)"
    "bq_unfinished (aq_queue a) = Suc (bq_unfinished q)"
    using pos by (simp_all add: eq queue_ok_def queue_views Let_def)
  from call_task_done(1) q have a': "a' = (if bq_unfinished q = 0
      then a\<lparr>aq_queue := q, aq_done := aq_done a + 1, aq_joined := aq_joined a @ aq_joiners a, aq_joiners := []\<rparr>
      else a\<lparr>aq_queue := q, aq_done := aq_done a + 1\<rparr>)"
    by (simp add: aq_task_done_def)
  show ?case using call_task_done(2) by (auto simp add: a' async_ok_def keep)
next
  case (call_join a j)
  then show ?case by (auto simp: async_ok_def aq_join_def)
qed

lemma async_ok_run:
  assumes "new_queue capacity = Inr q" and "queue_run (new_async_queue q) a"
  shows "async_ok a"
  using assms(2)
proof (induction rule: rtranclp_induct)
  case base
  show ?case
    using queue_ok_new [OF assms(1)] assms(1)
    by (intro async_ok_new) (auto simp: new_queue_def split: if_splits)
next
  case (step a a')
  then show ?case by (blast intro: async_ok_step)
qed

lemma capacity_run:
  assumes "queue_run a a'" shows "bq_capacity (aq_queue a') = bq_capacity (aq_queue a)"
  using assms
proof (induction rule: rtranclp_induct)
  case (step b c)
  have nowait: "aq_put_nowait x b = Inr y \<Longrightarrow> bq_capacity (aq_queue y) = bq_capacity (aq_queue b)"
    "aq_get_nowait g b = Inr (x, y) \<Longrightarrow> bq_capacity (aq_queue y) = bq_capacity (aq_queue b)"
    for x y g and b :: "'b async_queue"
    by (auto simp: aq_put_nowait_def aq_get_nowait_def put_nowait_def get_nowait_def enqueue_def dequeue_def
        wake_getter_def wake_putter_def Let_def split: if_splits list.splits)
  have "bq_capacity (aq_queue (aq_put p x b)) = bq_capacity (aq_queue b)"
    "bq_capacity (aq_queue (aq_get p b)) = bq_capacity (aq_queue b)" for p x and b :: "'b async_queue"
    using nowait by (fastforce simp: aq_put_def aq_get_def split: sum.split prod.split)+
  note passes = this
  from step(2) have "bq_capacity (aq_queue c) = bq_capacity (aq_queue b)"
  proof cases
    case (call_task_done)
    then show ?thesis by (auto simp: aq_task_done_def task_done_def split: if_splits)
  qed (auto simp: passes dest: nowait simp: cancel_waiting_put_def cancel_waiting_get_def cancel_woken_put_def cancel_woken_get_def
      wake_getter_def wake_putter_def aq_join_def Let_def split: list.split)
  with step(3) show ?case by simp
qed simp

text \<open>
  C22. Whatever coroutines put, get, wait, time out and are cancelled in any order: every item that went in comes
  out exactly once, in the order in which the items went in, or is still in the queue; there are never more items
  than the capacity; and the count that \<open>join\<close> waits for is the number of items put less the calls of
  \<open>task_done\<close>.
\<close>

theorem queue_delivers_in_order:
  assumes "new_queue capacity = Inr q" and "queue_run (new_async_queue q) a"
  shows "aq_in a = map snd (aq_out a) @ aq_items a \<and> int (length (aq_items a)) \<le> capacity \<and>
    qs_total_enqueued (bq_stats (aq_queue a)) = qs_total_dequeued (bq_stats (aq_queue a)) + length (aq_items a) \<and>
    int (bq_unfinished (aq_queue a)) = int (length (aq_in a)) - int (aq_done a)"
proof -
  note ok = async_ok_run [OF assms]
  have "bq_capacity (aq_queue a) = capacity"
    using capacity_run [OF assms(2)] assms(1) by (auto simp: new_async_queue_def new_queue_def split: if_splits)
  then show ?thesis using ok by (auto simp: async_ok_def queue_ok_def Let_def)
qed


text \<open>Two workers wait; the one that is woken times out just then, and the other one gets the item.\<close>

definition one_place :: "nat bounded_queue" where
  "one_place =
     \<lparr>bq_capacity = 1, bq_items = [], bq_unfinished = 0,
      bq_stats = \<lparr>qs_capacity = 1, qs_size = 0, qs_max_size_reached = 0, qs_total_enqueued = 0,
                  qs_total_dequeued = 0\<rparr>\<rparr>"

definition timed_out :: "nat async_queue" where
  "timed_out = cancel_woken_get 1 (aq_put 9 77 (aq_get 2 (aq_get 1 (new_async_queue one_place))))"

definition delivered :: "nat async_queue" where
  "delivered = aq_get 2 (timed_out\<lparr>aq_woken_getters := remove1 2 (aq_woken_getters timed_out)\<rparr>)"

lemma timed_out_state:
  "1 \<in> set (aq_woken_getters (aq_put 9 77 (aq_get 2 (aq_get 1 (new_async_queue one_place)))))"
  "aq_woken_getters timed_out = [2]" "aq_woken_getters delivered = []" "aq_woken_putters delivered = []"
  "aq_out delivered = [(2, 77)]"
  by code_simp+

lemma one_place_new: "new_queue 1 = Inr one_place"
  by (simp add: new_queue_def one_place_def)

lemma delivered_run: "queue_run (new_async_queue one_place) delivered"
proof -
  have "queue_run (new_async_queue one_place) (aq_put 9 77 (aq_get 2 (aq_get 1 (new_async_queue one_place))))"
    by (rule rtranclp.rtrancl_into_rtrancl, rule rtranclp.rtrancl_into_rtrancl, rule rtranclp.rtrancl_into_rtrancl,
        rule rtranclp.rtrancl_refl) (rule call_get call_put)+
  also have "queue_step \<dots> timed_out" unfolding timed_out_def by (rule cancel_resumed_get [OF timed_out_state(1)])
  also have "queue_step timed_out delivered"
    unfolding delivered_def by (rule resume_get) (simp add: timed_out_state(2))
  finally show ?thesis .
qed

theorem queue_delivers_in_order_witness: "aq_in delivered = [77] @ aq_items delivered"
  using queue_delivers_in_order [OF one_place_new delivered_run] timed_out_state(5) by simp


end
