(* ===== verification/Lock_Lease.thy ===== *)
theory Lock_Lease
  imports Domain_Lock
begin

section \<open>How long a lock lasts (domain\_lock.py)\<close>

text \<open>
  The key of a lock has a time to live of 60 seconds, so a worker that dies does not keep its domain for ever,
  and one that is slow loses it. Time belongs to the Redis server: \<open>lease\<close> reads the value of each key with the
  milliseconds it has left, \<open>advance\<close> lets time pass; both are arguments, with the documented behaviour of
  \<open>SET NX PX\<close>, \<open>EVAL\<close> and expiry as the hypothesis \<open>lease_laws\<close>. A command that fails for the client may or may
  not have been carried out.
\<close>

subsection \<open>Keys with a time to live\<close>

type_synonym leases = "string \<rightharpoonup> string \<times> int"

definition set_if_absent :: "string \<Rightarrow> string \<Rightarrow> int \<Rightarrow> leases \<Rightarrow> leases" where
  "set_if_absent k tok px l = (if l k = None then l(k \<mapsto> (tok, px)) else l)"

definition delete_if_owned :: "string \<Rightarrow> string \<Rightarrow> leases \<Rightarrow> leases" where
  "delete_if_owned k tok l = (if map_option fst (l k) = Some tok then l(k := None) else l)"

definition age :: "int \<Rightarrow> leases \<Rightarrow> leases" where
  "age dt l = (\<lambda>k. case l k of Some (tok, left) \<Rightarrow> if dt < left then Some (tok, left - dt) else None | None \<Rightarrow> None)"

definition lease_laws :: "'r redis \<Rightarrow> ('r \<Rightarrow> leases) \<Rightarrow> (int \<Rightarrow> 'r \<Rightarrow> 'r) \<Rightarrow> bool" where
  "lease_laws rd lease advance \<longleftrightarrow>
     (\<forall>k tok px r res r'. set_nx_px rd k tok px r = (res, r') \<longrightarrow>
        (case res of
           Inr ok \<Rightarrow> ok = (lease r k = None) \<and> lease r' = set_if_absent k tok px (lease r)
         | Inl e \<Rightarrow> lease r' = lease r \<or> lease r' = set_if_absent k tok px (lease r))) \<and>
     (\<forall>k tok r res r'. eval_release rd k tok r = (res, r') \<longrightarrow>
        (case res of
           Inr n \<Rightarrow> (n \<noteq> 0) = (map_option fst (lease r k) = Some tok) \<and> lease r' = delete_if_owned k tok (lease r)
         | Inl e \<Rightarrow> lease r' = lease r \<or> lease r' = delete_if_owned k tok (lease r))) \<and>
     (\<forall>dt r. 0 \<le> dt \<longrightarrow> lease (advance dt r) = age dt (lease r))"

text \<open>Without the times these are the laws of \<open>Domain_Lock\<close>.\<close>

lemma lease_laws_redis: "lease_laws rd lease advance \<Longrightarrow> redis_laws rd (\<lambda>r k. map_option fst (lease r k))"
  unfolding lease_laws_def redis_laws_def
proof (intro conjI allI impI; elim conjE)
  fix k tok px r ok r'
  assume "\<forall>k tok px r res r'. set_nx_px rd k tok px r = (res, r') \<longrightarrow>
        (case res of
           Inr ok \<Rightarrow> ok = (lease r k = None) \<and> lease r' = set_if_absent k tok px (lease r)
         | Inl e \<Rightarrow> lease r' = lease r \<or> lease r' = set_if_absent k tok px (lease r))"
    and "set_nx_px rd k tok px r = (Inr ok, r')"
  then have "ok = (lease r k = None) \<and> lease r' = set_if_absent k tok px (lease r)" by fastforce
  then show "ok = (map_option fst (lease r k) = None)"
    and "(\<lambda>k. map_option fst (lease r' k)) =
      (if ok then (\<lambda>k. map_option fst (lease r k))(k \<mapsto> tok) else (\<lambda>k. map_option fst (lease r k)))"
    by (auto simp: set_if_absent_def fun_eq_iff)
next
  fix k tok r n r'
  assume "\<forall>k tok r res r'. eval_release rd k tok r = (res, r') \<longrightarrow>
        (case res of
           Inr n \<Rightarrow> (n \<noteq> 0) = (map_option fst (lease r k) = Some tok) \<and> lease r' = delete_if_owned k tok (lease r)
         | Inl e \<Rightarrow> lease r' = lease r \<or> lease r' = delete_if_owned k tok (lease r))"
    and "eval_release rd k tok r = (Inr n, r')"
  then have "(n \<noteq> 0) = (map_option fst (lease r k) = Some tok) \<and> lease r' = delete_if_owned k tok (lease r)" by fastforce
  then show "(n \<noteq> 0) = (map_option fst (lease r k) = Some tok)"
    and "(\<lambda>k. map_option fst (lease r' k)) =
      (if n \<noteq> 0 then (\<lambda>k. map_option fst (lease r k))(k := None) else (\<lambda>k. map_option fst (lease r k)))"
    by (auto simp: delete_if_owned_def fun_eq_iff)
qed

subsection \<open>What other processes do\<close>

text \<open>Another process enters a lock, leaves one, or time passes.\<close>

datatype lock_event = Enter string string | Leave string string | Pass int

fun do_event :: "'r redis \<Rightarrow> (int \<Rightarrow> 'r \<Rightarrow> 'r) \<Rightarrow> lock_event \<Rightarrow> 'r \<Rightarrow> 'r" where
  "do_event rd advance (Enter name tok) r = snd (acquire_enter rd name tok r)"
| "do_event rd advance (Leave name tok) r = snd (release rd name tok r)"
| "do_event rd advance (Pass dt) r = advance dt r"

fun elapsed :: "lock_event list \<Rightarrow> int" where
  "elapsed [] = 0"
| "elapsed (Pass dt # evs) = dt + elapsed evs"
| "elapsed (ev # evs) = elapsed evs"

text \<open>Time does not run backwards, and tokens (\<open>uuid4\<close>) are not used twice.\<close>

fun foreign_event :: "string \<Rightarrow> lock_event \<Rightarrow> bool" where
  "foreign_event token (Enter name tok) \<longleftrightarrow> tok \<noteq> token"
| "foreign_event token (Leave name tok) \<longleftrightarrow> tok \<noteq> token"
| "foreign_event token (Pass dt) \<longleftrightarrow> 0 \<le> dt"

lemma elapsed_nonneg: "list_all (foreign_event token) evs \<Longrightarrow> 0 \<le> elapsed evs"
  by (induction evs rule: elapsed.induct) auto

lemma lock_key_inj [simp]: "lock_key a = lock_key b \<longleftrightarrow> a = b"
  by (simp add: lock_key_def)

lemma enter_lease:
  assumes "lease_laws rd lease advance"
  shows "lease (snd (acquire_enter rd name tok r)) = lease r \<or>
    lease (snd (acquire_enter rd name tok r)) =
      set_if_absent (lock_key name) tok (lock_ttl_seconds * 1000) (lease r)"
proof -
  obtain res r' where run: "set_nx_px rd (lock_key name) tok (lock_ttl_seconds * 1000) r = (res, r')" by fastforce
  have "lease r' = lease r \<or> lease r' = set_if_absent (lock_key name) tok (lock_ttl_seconds * 1000) (lease r)"
    using assms run unfolding lease_laws_def by (cases res) fastforce+
  moreover have "snd (acquire_enter rd name tok r) = r'"
    by (auto simp: acquire_enter_def run split: sum.split bool.split)
  ultimately show ?thesis by simp
qed

lemma leave_lease:
  assumes "lease_laws rd lease advance"
  shows "lease (snd (release rd name tok r)) = lease r \<or>
    lease (snd (release rd name tok r)) = delete_if_owned (lock_key name) tok (lease r)"
proof -
  obtain res r' where run: "eval_release rd (lock_key name) tok r = (res, r')" by fastforce
  have "lease r' = lease r \<or> lease r' = delete_if_owned (lock_key name) tok (lease r)"
    using assms run unfolding lease_laws_def by (cases res) fastforce+
  moreover have "snd (release rd name tok r) = r'"
    by (auto simp: release_def run split: sum.split)
  ultimately show ?thesis by simp
qed

text \<open>One event: a lease with time left only gets older; a token that is not there does not come back.\<close>

lemma event_lease:
  assumes "lease_laws rd lease advance" and "foreign_event token ev"
  shows "lease r k = Some (token, left) \<Longrightarrow> elapsed [ev] < left \<Longrightarrow>
      lease (do_event rd advance ev r) k = Some (token, left - elapsed [ev])"
    and "lease r k = Some (token, left) \<Longrightarrow> left \<le> elapsed [ev] \<Longrightarrow> 0 < left \<Longrightarrow>
      map_option fst (lease (do_event rd advance ev r) k) \<noteq> Some token"
    and "map_option fst (lease r k) \<noteq> Some token \<Longrightarrow>
      map_option fst (lease (do_event rd advance ev r) k) \<noteq> Some token"
proof -
  note enter = enter_lease [OF assms(1)] and leave = leave_lease [OF assms(1)]
  have pass: "lease (advance dt r) = age dt (lease r)" if "0 \<le> dt" for dt r
    using assms(1) that by (simp add: lease_laws_def)
  show "lease (do_event rd advance ev r) k = Some (token, left - elapsed [ev])"
    if "lease r k = Some (token, left)" "elapsed [ev] < left"
  proof (cases ev)
    case (Enter name tok)
    have "set_if_absent (lock_key name) tok px (lease r) k = lease r k" for px
      using that(1) by (auto simp: set_if_absent_def)
    with Enter enter [of name tok r] that(1) show ?thesis by auto
  next
    case (Leave name tok)
    have "delete_if_owned (lock_key name) tok (lease r) k = lease r k"
      using that(1) assms(2) Leave by (auto simp: delete_if_owned_def)
    with Leave leave [of name tok r] that(1) show ?thesis by auto
  next
    case (Pass dt)
    with assms(2) that show ?thesis by (simp add: pass age_def)
  qed
  show "map_option fst (lease (do_event rd advance ev r) k) \<noteq> Some token"
    if "lease r k = Some (token, left)" "left \<le> elapsed [ev]" "0 < left"
    using assms(2) that by (cases ev) (simp_all add: pass age_def)
  show "map_option fst (lease r k) \<noteq> Some token \<Longrightarrow>
      map_option fst (lease (do_event rd advance ev r) k) \<noteq> Some token"
  proof (cases ev)
    case (Enter name tok)
    assume "map_option fst (lease r k) \<noteq> Some token"
    with Enter assms(2) enter [of name tok r] show ?thesis
      by (auto simp: set_if_absent_def split: if_splits)
  next
    case (Leave name tok)
    assume "map_option fst (lease r k) \<noteq> Some token"
    with Leave leave [of name tok r] show ?thesis
      by (auto simp: delete_if_owned_def split: if_splits)
  next
    case (Pass dt)
    assume "map_option fst (lease r k) \<noteq> Some token"
    with Pass assms(2) show ?thesis
      by (auto simp: pass age_def split: option.splits if_splits)
  qed
qed

lemma events_lease:
  assumes "lease_laws rd lease advance"
  shows "list_all (foreign_event token) evs \<Longrightarrow> lease r k = Some (token, left) \<Longrightarrow> 0 < left \<Longrightarrow>
    (if elapsed evs < left
     then lease (fold (do_event rd advance) evs r) k = Some (token, left - elapsed evs)
     else map_option fst (lease (fold (do_event rd advance) evs r) k) \<noteq> Some token)"
proof (induction evs arbitrary: r left)
  case Nil
  then show ?case by simp
next
  case (Cons ev evs)
  have gone: "map_option fst (lease (fold (do_event rd advance) evs r) k) \<noteq> Some token"
    if "map_option fst (lease r k) \<noteq> Some token" "list_all (foreign_event token) evs" for evs r
    using that
  proof (induction evs arbitrary: r)
    case Nil
    then show ?case by simp
  next
    case (Cons ev evs)
    then have "map_option fst (lease (do_event rd advance ev r) k) \<noteq> Some token"
      by (intro event_lease(3) [OF assms]) simp_all
    from Cons.IH [OF this] Cons.prems(2) show ?case by simp
  qed
  have total: "elapsed (ev # evs) = elapsed [ev] + elapsed evs" by (cases ev) simp_all
  have nonneg: "0 \<le> elapsed evs" "0 \<le> elapsed [ev]"
    using elapsed_nonneg [of token evs] elapsed_nonneg [of token "[ev]"] Cons.prems(1) by simp_all
  have ev: "foreign_event token ev" using Cons.prems(1) by simp
  show ?case
  proof (cases "elapsed [ev] < left")
    case True
    from event_lease(1) [OF assms ev Cons.prems(2) True]
    have "lease (do_event rd advance ev r) k = Some (token, left - elapsed [ev])" .
    from Cons.IH [OF _ this] True Cons.prems(1) show ?thesis by (auto simp: total algebra_simps split: if_splits)
  next
    case False
    from event_lease(2) [OF assms ev Cons.prems(2) _ Cons.prems(3)] False
    have "map_option fst (lease (do_event rd advance ev r) k) \<noteq> Some token" by simp
    from gone [OF this] Cons.prems(1) False nonneg show ?thesis by (simp add: total)
  qed
qed


text \<open>A server that keeps a map of leases.\<close>

definition lease_redis :: "leases redis" where
  "lease_redis =
     \<lparr>set_nx_px = (\<lambda>k tok px l. (Inr (l k = None), set_if_absent k tok px l)),
      eval_release = (\<lambda>k tok l. (Inr (if map_option fst (l k) = Some tok then 1 else 0), delete_if_owned k tok l))\<rparr>"

lemma lease_redis_laws: "lease_laws lease_redis (\<lambda>l. l) age"
  by (auto simp: lease_laws_def lease_redis_def)


end
