(* ===== verification/Lock_Client.thy ===== *)
theory Lock_Client
  imports Domain_Lock Settings
begin

section \<open>The connection behind the lock (domain\_lock.py)\<close>

text \<open>
  \<open>Domain_Lock\<close> has the two commands of the lock, on a client that exists. Here is the object around them:
  \<open>_client\<close>, which \<open>connect\<close> sets before it has tried it, which \<open>acquire\<close> creates when it is missing, and
  which \<open>close\<close> takes away. The answers of \<open>PING\<close> and of closing the connection are arguments.
\<close>

subsection \<open>The client object\<close>

record redis_config =
  rc_host :: string
  rc_port :: int
  rc_password :: "string option"
  rc_db :: int
  rc_decode_responses :: bool
  rc_timeout_ms :: int

record 'r lock_client =
  lk_client :: "redis_config option"
  lk_server :: 'r

text \<open>The settings have all four attributes, so the \<open>hasattr\<close> tests hold.\<close>

definition redis_config_of :: "app_settings \<Rightarrow> redis_config" where
  "redis_config_of s =
     \<lparr>rc_host = redis_host s, rc_port = redis_port (numbers s), rc_password = redis_password s,
      rc_db = redis_db (numbers s), rc_decode_responses = True, rc_timeout_ms = 5000\<rparr>"

definition new_lock_client :: "'r \<Rightarrow> 'r lock_client" where
  "new_lock_client r = \<lparr>lk_client = None, lk_server = r\<rparr>"

definition lock_connect :: "app_settings \<Rightarrow> exn option \<Rightarrow> 'r lock_client \<Rightarrow> (exn + unit) \<times> 'r lock_client" where
  "lock_connect s ping_fault c =
     (case lk_client c of
        Some _ \<Rightarrow> (Inr (), c)
      | None \<Rightarrow>
          (let c = c\<lparr>lk_client := Some (redis_config_of s)\<rparr>
           in case ping_fault of Some e \<Rightarrow> (Inl e, c) | None \<Rightarrow> (Inr (), c)))"

definition lock_close :: "exn option \<Rightarrow> 'r lock_client \<Rightarrow> (exn + unit) \<times> 'r lock_client" where
  "lock_close close_fault c =
     (case lk_client c of
        None \<Rightarrow> (Inr (), c)
      | Some _ \<Rightarrow>
          (case close_fault of Some e \<Rightarrow> (Inl e, c) | None \<Rightarrow> (Inr (), c\<lparr>lk_client := None\<rparr>)))"

definition client_release :: "'r redis \<Rightarrow> string \<Rightarrow> string \<Rightarrow> 'r lock_client \<Rightarrow> bool \<times> 'r lock_client" where
  "client_release rd name token c =
     (case lk_client c of
        None \<Rightarrow> (False, c)
      | Some _ \<Rightarrow> (let (ok, r) = release rd name token (lk_server c) in (ok, c\<lparr>lk_server := r\<rparr>)))"

text \<open>
  \<open>async with lock.acquire(name) as ctx: body\<close>. An exception of the first connection is raised before the
  \<open>try\<close>; the body may itself use the lock object (\<open>close\<close> at shutdown).
\<close>

definition client_acquire_enter ::
  "'r redis \<Rightarrow> app_settings \<Rightarrow> exn option \<Rightarrow> string \<Rightarrow> string \<Rightarrow> 'r lock_client
     \<Rightarrow> (exn + lock_context) \<times> 'r lock_client" where
  "client_acquire_enter rd s ping_fault name token c =
     (case (if lk_client c = None then lock_connect s ping_fault c else (Inr (), c)) of
        (Inl e, c) \<Rightarrow> (Inl e, c)
      | (Inr u, c) \<Rightarrow>
          (let (ctx, r) = acquire_enter rd name token (lk_server c) in (Inr ctx, c\<lparr>lk_server := r\<rparr>)))"

definition with_client_lock ::
  "'r redis \<Rightarrow> app_settings \<Rightarrow> exn option \<Rightarrow> string \<Rightarrow> string
     \<Rightarrow> (lock_context \<Rightarrow> 'r lock_client \<Rightarrow> (exn + 'a) \<times> 'r lock_client) \<Rightarrow> 'r lock_client
     \<Rightarrow> (exn + 'a) \<times> 'r lock_client" where
  "with_client_lock rd s ping_fault name token body c =
     (case client_acquire_enter rd s ping_fault name token c of
        (Inl e, c1) \<Rightarrow> (Inl e, c1)
      | (Inr ctx, c1) \<Rightarrow>
          (let (result, c2) = body ctx c1
           in (result, if lc_acquired ctx then snd (client_release rd name token c2) else c2)))"

text \<open>A \<open>LockContext\<close> used as a context manager of its own; the synchronous one only raises.\<close>

definition lock_context_aexit :: "'r redis \<Rightarrow> lock_context \<Rightarrow> 'r lock_client \<Rightarrow> 'r lock_client" where
  "lock_context_aexit rd ctx c =
     (if lc_acquired ctx \<and> lc_token ctx \<noteq> None \<and> lc_token ctx \<noteq> Some []
      then snd (client_release rd (lc_domain ctx) (the (lc_token ctx)) c) else c)"

definition lock_context_enter :: "exn + lock_context" where
  "lock_context_enter = Inl (Exn OtherError ''Use async with for DomainLock'')"

text \<open>\<open>DomainLockManager\<close> owns one lock; its \<open>connect\<close> and \<open>close\<close> are those of the lock.\<close>

record 'r lock_manager =
  lm_lock :: "'r lock_client"

definition manager_connect :: "app_settings \<Rightarrow> exn option \<Rightarrow> 'r lock_manager \<Rightarrow> (exn + unit) \<times> 'r lock_manager" where
  "manager_connect s ping_fault m =
     (let (result, c) = lock_connect s ping_fault (lm_lock m) in (result, m\<lparr>lm_lock := c\<rparr>))"

definition manager_close :: "exn option \<Rightarrow> 'r lock_manager \<Rightarrow> (exn + unit) \<times> 'r lock_manager" where
  "manager_close close_fault m =
     (let (result, c) = lock_close close_fault (lm_lock m) in (result, m\<lparr>lm_lock := c\<rparr>))"

text \<open>What the lifespan of the application does with it (app.py): exceptions are logged and dropped.\<close>

definition startup_lock :: "app_settings \<Rightarrow> exn option \<Rightarrow> 'r lock_manager \<Rightarrow> 'r lock_manager" where
  "startup_lock s ping_fault m = snd (manager_connect s ping_fault m)"

definition shutdown_lock :: "exn option \<Rightarrow> 'r lock_manager \<Rightarrow> 'r lock_manager" where
  "shutdown_lock close_fault m = snd (manager_close close_fault m)"

subsection \<open>The connection is transparent\<close>

lemma connect_opens: "lk_client (snd (lock_connect s f c)) \<noteq> None" "lk_server (snd (lock_connect s f c)) = lk_server c"
  by (auto simp: lock_connect_def Let_def split: option.split)

lemma open_acquire:
  "lk_client c \<noteq> None \<Longrightarrow>
   client_acquire_enter rd s f name token c =
     (Inr (fst (acquire_enter rd name token (lk_server c))),
      c\<lparr>lk_server := snd (acquire_enter rd name token (lk_server c))\<rparr>)"
  by (auto simp: client_acquire_enter_def split: prod.split)

text \<open>A body that works on the server only, as the pipeline does.\<close>

definition on_server :: "(lock_context \<Rightarrow> 'r \<Rightarrow> (exn + 'a) \<times> 'r) \<Rightarrow> lock_context \<Rightarrow> 'r lock_client
    \<Rightarrow> (exn + 'a) \<times> 'r lock_client" where
  "on_server body ctx c = (let (result, r) = body ctx (lk_server c) in (result, c\<lparr>lk_server := r\<rparr>))"

lemma open_with_lock:
  assumes "lk_client c \<noteq> None"
  shows "with_client_lock rd s f name token (on_server body) c =
    (fst (with_lock rd name token body (lk_server c)),
     c\<lparr>lk_server := snd (with_lock rd name token body (lk_server c))\<rparr>)"
  using assms
  by (auto simp: with_client_lock_def open_acquire with_lock_def on_server_def client_release_def Let_def
      split: prod.split)

text \<open>
  The lock of the pipeline (\<open>with_lock\<close>, on the bare server) is what the lock object does after any
  start-up of the application, whether the first ping succeeded or not: the connection object is kept, no
  later use of the lock raises, and each use gives the result and the effect on the server of the lock without
  the object, whatever further pings would answer. In particular a Redis that is down at start-up is used as
  soon as it answers.
\<close>

theorem lock_client_transparent:
  "let c = lm_lock (startup_lock s f m) in
   lk_client c \<noteq> None \<and> lk_server c = lk_server (lm_lock m) \<and>
   with_client_lock rd s f' name token (on_server body) c =
     (fst (with_lock rd name token body (lk_server c)),
      c\<lparr>lk_server := snd (with_lock rd name token body (lk_server c))\<rparr>) \<and>
   (\<exists>ctx. fst (client_acquire_enter rd s f' name token c) = Inr ctx)"
  using connect_opens [of s f "lm_lock m"]
  by (simp add: Let_def startup_lock_def manager_connect_def case_prod_beta open_with_lock open_acquire)

text \<open>
  Closing the lock object while a lock is held: the holder does not release it (\<open>release\<close> answers False and the
  key keeps its token until it expires), and the next acquisition opens a new connection. The shutdown ends the
  workers before it closes the lock, so no pipeline gets here.
\<close>

lemma acquired_no_error: "acquire_enter rd name token r = (ctx, r') \<Longrightarrow> is_acquired ctx \<Longrightarrow> lc_error ctx = None"
  by (auto simp: acquire_enter_def is_acquired_def split: prod.splits sum.splits bool.splits)

lemma closed_lock_keeps_key:
  assumes "redis_laws rd holder" and "is_acquired ctx"
    and "client_acquire_enter rd s f name token c = (Inr ctx, c1)"
    and "body ctx c1 = (res, c1\<lparr>lk_client := None\<rparr>)"
  shows "fst (client_release rd name token (snd (body ctx c1))) = False"
    and "snd (with_client_lock rd s f name token body c) = c1\<lparr>lk_client := None\<rparr>"
    and "holder (lk_server c1) (lock_key name) = Some token"
    and "lk_client (snd (client_acquire_enter rd s f' name' token' (c1\<lparr>lk_client := None\<rparr>))) = Some (redis_config_of s)"
proof -
  have "\<exists>r. acquire_enter rd name token r = (ctx, lk_server c1)"
    using assms(3) by (auto simp: client_acquire_enter_def split: prod.splits sum.splits unit.splits)
  then obtain r where r: "acquire_enter rd name token r = (ctx, lk_server c1)" ..
  from acquire_enter_holder(2) [OF assms(1) r acquired_no_error [OF r assms(2)]] assms(2)
  show "holder (lk_server c1) (lock_key name) = Some token" by simp
  show "snd (with_client_lock rd s f name token body c) = c1\<lparr>lk_client := None\<rparr>"
    by (simp add: with_client_lock_def assms(3,4) client_release_def)
  show "lk_client (snd (client_acquire_enter rd s f' name' token' (c1\<lparr>lk_client := None\<rparr>))) = Some (redis_config_of s)"
    by (cases f') (simp_all add: client_acquire_enter_def lock_connect_def Let_def split: prod.split)
qed (simp add: assms(4) client_release_def)

text \<open>Leaving the context twice, as \<open>LockContext\<close> inside \<open>acquire\<close> would, does no harm: the second finds nothing.\<close>

lemma second_release:
  assumes "redis_laws rd holder" and "eval_release rd (lock_key name) token r = (Inr n, r1)"
    and "eval_release rd (lock_key name) token r1 = (Inr n', r2)"
  shows "fst (release rd name token r1) = False" and "holder r2 = holder r1"
proof -
  have "holder r1 (lock_key name) \<noteq> Some token"
    using release_holder(2) [OF assms(1,2)] by auto
  with release_holder [OF assms(1,3)] show "fst (release rd name token r1) = False" "holder r2 = holder r1"
    by simp_all
qed

end
