(* ===== verification/Clients.thy ===== *)
theory Clients
  imports Lock_Client Worker_Pool
begin

section \<open>The clients of one task (domain\_processor.py, http\_client.py, dns.py)\<close>

text \<open>
  The handler of production builds a \<open>DomainProcessor\<close> for each task, with a resolver and an HTTP client of its own,
  on the lock manager of the application; if it was given none it makes one. Here are these objects, their
  configuration, and what is open before, during and after the task.
\<close>

subsection \<open>Configuration\<close>

record http_config =
  hc_follow_redirects :: bool
  hc_connect :: py_float
  hc_read :: py_float
  hc_write :: py_float
  hc_pool :: py_float
  hc_max_connections :: int
  hc_max_keepalive :: int

definition http_config_of :: "app_settings \<Rightarrow> http_config" where
  "http_config_of s =
     \<lparr>hc_follow_redirects = False, hc_connect = connect_timeout_seconds (numbers s),
      hc_read = read_timeout_seconds (numbers s), hc_write = read_timeout_seconds (numbers s),
      hc_pool = connect_timeout_seconds (numbers s), hc_max_connections = worker_concurrency (numbers s),
      hc_max_keepalive = worker_concurrency (numbers s) div 2\<rparr>"

text \<open>No name servers in the settings: the resolver takes those of the system (\<open>None\<close>).\<close>

record resolver_config =
  rs_nameservers :: "string list option"
  rs_timeout :: py_float
  rs_tries :: nat

definition resolver_config_of :: "app_settings \<Rightarrow> resolver_config" where
  "resolver_config_of s =
     \<lparr>rs_nameservers = (if dns_nameservers s \<noteq> [] then Some (dns_nameservers s) else None),
      rs_timeout = dns_timeout_seconds (numbers s), rs_tries = 1\<rparr>"

subsection \<open>The processor and what it owns\<close>

record 'r processor =
  po_http_open :: bool
  po_http_config :: http_config
  po_resolver :: resolver_config
  po_domain_lock :: "'r lock_manager option"
  po_owns_domain_lock :: bool
  po_freshness_seconds :: int
  po_max_attempts :: int

definition new_processor :: "app_settings \<Rightarrow> 'r lock_manager option \<Rightarrow> 'r processor" where
  "new_processor s manager =
     \<lparr>po_http_open = True, po_http_config = http_config_of s, po_resolver = resolver_config_of s,
      po_domain_lock = manager, po_owns_domain_lock = False,
      po_freshness_seconds = domain_detail_freshness_seconds (numbers s),
      po_max_attempts = settings_max_attempts (numbers s)\<rparr>"

text \<open>
  \<open>process_task\<close> before the lock is entered: a processor without a manager makes one and connects it. The new
  manager is stored before the connection is tried.
\<close>

definition ensure_lock_manager ::
  "app_settings \<Rightarrow> exn option \<Rightarrow> 'r \<Rightarrow> 'r processor \<Rightarrow> (exn + unit) \<times> 'r processor" where
  "ensure_lock_manager s ping_fault server p =
     (case po_domain_lock p of
        Some _ \<Rightarrow> (Inr (), p)
      | None \<Rightarrow>
          (let (result, manager) = manager_connect s ping_fault \<lparr>lm_lock = new_lock_client server\<rparr>
           in (result, p\<lparr>po_domain_lock := Some manager, po_owns_domain_lock := True\<rparr>)))"

text \<open>\<open>close\<close>: an exception of the HTTP client leaves the rest undone.\<close>

definition processor_close :: "exn option \<Rightarrow> exn option \<Rightarrow> 'r processor \<Rightarrow> (exn + unit) \<times> 'r processor" where
  "processor_close http_fault lock_fault p =
     (case http_fault of
        Some e \<Rightarrow> (Inl e, p)
      | None \<Rightarrow>
          (let p = p\<lparr>po_http_open := False\<rparr> in
           case po_domain_lock p of
             Some manager \<Rightarrow>
               if po_owns_domain_lock p then
                 (case manager_close lock_fault manager of
                    (Inl e, manager) \<Rightarrow> (Inl e, p\<lparr>po_domain_lock := Some manager\<rparr>)
                  | (Inr u, manager) \<Rightarrow> (Inr (), p\<lparr>po_domain_lock := None\<rparr>))
               else (Inr (), p)
           | None \<Rightarrow> (Inr (), p)))"

text \<open>
  The life of a processor in the handler: made, used (\<open>work\<close> on the lock manager it has then; skipped when the
  connection raises), and closed in the \<open>finally\<close>. The result is what the handler raises, if anything: an
  exception of the closing replaces one of the work.
\<close>

definition processor_life ::
  "app_settings \<Rightarrow> 'r lock_manager option \<Rightarrow> 'r \<Rightarrow> exn option \<Rightarrow> ('r lock_manager \<Rightarrow> (exn + unit) \<times> 'r lock_manager)
     \<Rightarrow> exn option \<Rightarrow> exn option \<Rightarrow> exn option \<times> 'r processor" where
  "processor_life s manager server ping_fault work http_fault lock_fault =
     (case ensure_lock_manager s ping_fault server (new_processor s manager) of
        (ready, p) \<Rightarrow>
          (let (result, p) =
             (case (ready, po_domain_lock p) of
                (Inr u, Some m) \<Rightarrow> (let (r, m) = work m in (r, p\<lparr>po_domain_lock := Some m\<rparr>))
              | (Inl e, _) \<Rightarrow> (Inl e, p)
              | (Inr u, None) \<Rightarrow> (Inr (), p))
           in case processor_close http_fault lock_fault p of
                (Inl e, p) \<Rightarrow> (Some e, p)
              | (Inr u, p) \<Rightarrow> ((case result of Inl e \<Rightarrow> Some e | Inr u \<Rightarrow> None), p)))"

subsection \<open>Nothing is left open, nothing shared is closed\<close>

lemma close_clean:
  "processor_close None None p =
     (Inr (), p\<lparr>po_http_open := False,
        po_domain_lock := (if po_owns_domain_lock p then None else po_domain_lock p)\<rparr>)"
  by (cases "po_domain_lock p")
    (auto simp: processor_close_def manager_close_def lock_close_def Let_def split: option.split prod.split)

lemma life_end:
  "po_http_open (snd (processor_life s manager server f work None None)) = False"
  "po_domain_lock (snd (processor_life s manager server f work None None)) = map_option (\<lambda>m. snd (work m)) manager"
  by (cases manager;
      auto simp: processor_life_def ensure_lock_manager_def new_processor_def close_clean Let_def
        split: prod.split sum.split)+

text \<open>
  The objects of a task, with settings that were accepted: its HTTP client follows no redirect and has
  positive time-outs and at least one connection; its resolver asks once, with a positive time-out; and unless
  closing the HTTP client raises, when the handler ends, with whatever result, the HTTP client is closed, the
  lock manager of the application is as the work left it (a task never closes it), and a lock manager the
  processor made itself is closed, even if its connection failed.
\<close>

theorem clients_of_a_task:
  assumes "new_settings raw = Inr s"
  shows "\<not> hc_follow_redirects (http_config_of s) \<and>
    list_all float_positive [hc_connect (http_config_of s), hc_read (http_config_of s), hc_write (http_config_of s),
       hc_pool (http_config_of s), rs_timeout (resolver_config_of s)] \<and>
    1 \<le> hc_max_connections (http_config_of s) \<and> rs_tries (resolver_config_of s) = 1 \<and>
    rs_nameservers (resolver_config_of s) \<noteq> Some [] \<and>
    po_http_open (snd (processor_life s manager server ping_fault work None None)) = False \<and>
    po_domain_lock (snd (processor_life s manager server ping_fault work None None)) =
      map_option (\<lambda>m. snd (work m)) manager"
proof -
  have "settings_errors raw = []" "numbers s = raw_numbers raw"
    using assms by (auto simp: new_settings_def split: list.splits sum.splits)
  then have "numbers_ok (numbers s)" by (simp add: settings_errors_empty)
  then show ?thesis
    by (simp add: numbers_ok_def http_config_of_def resolver_config_of_def life_end)
qed

theorem clients_of_a_task_witness:
  "\<exists>s. new_settings default_settings = Inr s \<and> 1 \<le> hc_max_connections (http_config_of s) \<and>
     po_domain_lock (snd (processor_life s None (Map.empty :: string \<rightharpoonup> string)
       (Some (Exn OtherError ''refused'')) (\<lambda>m. (Inr (), m)) None None)) = None"
proof -
  obtain s where s: "new_settings default_settings = Inr s" using default_settings_accepted ..
  from clients_of_a_task [OF s, of None "Map.empty :: string \<rightharpoonup> string" "Some (Exn OtherError ''refused'')"
      "\<lambda>m. (Inr (), m)"] s
  show ?thesis by auto
qed

end
