(* ===== verification/Observability.thy ===== *)
theory Observability
  imports Py_Str Prelude "HOL-Library.AList"
begin

section \<open>Logging, metrics and the middleware (logging.py, metrics.py, middleware.py)\<close>

text \<open>
  What an operator sees of the service: one JSON object for each event, counters for each request, and a
  request identifier that ties them together. The model keeps the dictionaries as association lists in the
  order Python keeps them; the text of a log line is their \<open>json.dumps\<close>.
\<close>

subsection \<open>Log records\<close>

datatype log_value = No_value | Text string | Number int

record log_record =
  lr_logger :: string
  lr_level :: int
  lr_level_name :: string
  lr_message :: string
  lr_created :: string
  lr_extra :: "(string \<times> log_value) list"
  lr_exc_info :: "string option"

text \<open>The attributes every \<open>LogRecord\<close> of Python 3.11 has of its own.\<close>

definition record_attributes :: "string list" where
  "record_attributes =
     [''name'', ''msg'', ''args'', ''levelname'', ''levelno'', ''pathname'', ''filename'', ''module'',
      ''exc_info'', ''exc_text'', ''stack_info'', ''lineno'', ''funcName'', ''created'', ''msecs'',
      ''relativeCreated'', ''thread'', ''threadName'', ''processName'', ''process'']"

definition log_record_reserved :: "string list" where
  "log_record_reserved =
     [''args'', ''asctime'', ''created'', ''exc_info'', ''exc_text'', ''filename'', ''funcName'', ''levelname'',
      ''levelno'', ''lineno'', ''module'', ''msecs'', ''message'', ''msg'', ''name'', ''pathname'', ''process'',
      ''processName'', ''relativeCreated'', ''stack_info'', ''taskName'', ''thread'', ''threadName'']"

definition overwrites :: "string \<Rightarrow> bool" where
  "overwrites key \<longleftrightarrow> key = ''message'' \<or> key = ''asctime'' \<or> key \<in> set record_attributes"

text \<open>
  \<open>Logger.log\<close>: nothing happens below the level of the root logger; \<open>makeRecord\<close> refuses an extra that would
  replace an attribute, with a \<open>KeyError\<close>.
\<close>

definition make_record ::
  "int \<Rightarrow> string \<Rightarrow> string \<Rightarrow> int \<Rightarrow> string \<Rightarrow> string \<Rightarrow> (string \<times> log_value) list \<Rightarrow> exn + log_record option"
where
  "make_record root_level created logger level level_name msg extra =
     (if level < root_level then Inr None
      else
        (case filter (\<lambda>(k, v). overwrites k) extra of
           (k, v) # kvs \<Rightarrow> Inl (Exn OtherError (''Attempt to overwrite '' @ k @ '' in LogRecord''))
         | [] \<Rightarrow>
             Inr (Some \<lparr>lr_logger = logger, lr_level = level, lr_level_name = level_name, lr_message = msg,
                        lr_created = created, lr_extra = extra, lr_exc_info = None\<rparr>)))"

definition log_event ::
  "int \<Rightarrow> string \<Rightarrow> string \<Rightarrow> string \<Rightarrow> int \<Rightarrow> string \<Rightarrow> (string \<times> log_value) list \<Rightarrow> exn + log_record option"
where
  "log_event root_level created logger event level level_name kws =
     make_record root_level created logger level level_name event ((''event'', Text event) # kws)"

subsection \<open>The line of a record\<close>

definition request_context_filter :: "log_value \<Rightarrow> log_record \<Rightarrow> log_record" where
  "request_context_filter ctx r =
     (if map_of (lr_extra r) ''request_id'' = None
      then r\<lparr>lr_extra := lr_extra r @ [(''request_id'', ctx)]\<rparr> else r)"

fun truthy :: "log_value \<Rightarrow> bool" where
  "truthy No_value \<longleftrightarrow> False"
| "truthy (Text s) \<longleftrightarrow> s \<noteq> []"
| "truthy (Number n) \<longleftrightarrow> n \<noteq> 0"

fun get_or :: "log_value \<Rightarrow> log_value option \<Rightarrow> log_value" where
  "get_or dflt None = dflt"
| "get_or dflt (Some v) = v"

text \<open>The loop over the attributes; only extras can be neither reserved nor in the payload already.\<close>

fun add_extras :: "(string \<times> log_value) list \<Rightarrow> (string \<times> log_value) list \<Rightarrow> (string \<times> log_value) list" where
  "add_extras payload [] = payload"
| "add_extras payload ((k, v) # kvs) =
     (if k \<notin> set log_record_reserved \<and> map_of payload k = None \<and> v \<noteq> No_value
      then add_extras (payload @ [(k, v)]) kvs else add_extras payload kvs)"

definition format_record :: "log_value \<Rightarrow> log_record \<Rightarrow> (string \<times> log_value) list" where
  "format_record ctx r =
     (let event = get_or (Text (lr_message r)) (map_of (lr_extra r) ''event'');
          request_id = get_or No_value (map_of (lr_extra r) ''request_id'');
          request_id = (if truthy request_id then request_id else ctx);
          payload = [(''timestamp'', Text (lr_created r)), (''level'', Text (lr_level_name r)),
                     (''logger'', Text (lr_logger r)), (''event'', event)];
          payload = (if truthy request_id then payload @ [(''request_id'', request_id)] else payload);
          payload = add_extras payload (lr_extra r)
      in case lr_exc_info r of
           None \<Rightarrow> payload
         | Some text \<Rightarrow> AList.update ''exc_info'' (Text text) payload)"

text \<open>One call of \<open>log_event\<close> with the handler of \<open>configure_logging\<close>: the line written, if any.\<close>

definition emit ::
  "int \<Rightarrow> log_value \<Rightarrow> string \<Rightarrow> string \<Rightarrow> string \<Rightarrow> int \<Rightarrow> string \<Rightarrow> (string \<times> log_value) list
     \<Rightarrow> exn + (string \<times> log_value) list option" where
  "emit root_level ctx created logger event level level_name kws =
     (case log_event root_level created logger event level level_name kws of
        Inl e \<Rightarrow> Inl e
      | Inr r \<Rightarrow> Inr (map_option (\<lambda>r. format_record ctx (request_context_filter ctx r)) r))"

subsection \<open>What a line holds\<close>

lemma add_extras_lookup:
  "distinct (map fst kvs) \<Longrightarrow>
   map_of (add_extras payload kvs) k =
     (case map_of payload k of
        Some v \<Rightarrow> Some v
      | None \<Rightarrow>
          (case map_of kvs k of
             Some v \<Rightarrow> if k \<in> set log_record_reserved \<or> v = No_value then None else Some v
           | None \<Rightarrow> None))"
proof (induction payload kvs rule: add_extras.induct)
  case (1 payload)
  then show ?case by (simp split: option.split)
next
  case (2 payload k' v kvs)
  then have new: "map_of kvs k' = None" by (auto simp: map_of_eq_None_iff)
  show ?case
  proof (cases "k' \<notin> set log_record_reserved \<and> map_of payload k' = None \<and> v \<noteq> No_value")
    case True
    with 2 show ?thesis by (auto simp: map_add_def new split: option.splits)
  next
    case False
    with 2 show ?thesis by (auto simp: new split: option.splits)
  qed
qed


definition line_keys :: "string set" where
  "line_keys = {''timestamp'', ''level'', ''logger'', ''event'', ''request_id''}"

text \<open>
  No field of an event gets lost: an event at an enabled level, none of whose fields is named like an
  attribute of a log record, becomes one line, with the name of the event, its level, every field that has a
  value, and the request identifier: the one of the event, else the one of the request being served.
\<close>

theorem log_line_complete:
  assumes "root_level \<le> level" and "distinct (map fst kws)" and "\<forall>k \<in> set (map fst kws). \<not> overwrites k \<and> k \<noteq> ''event''"
  shows "\<exists>line. emit root_level ctx created logger event level level_name kws = Inr (Some line) \<and>
    map_of line ''event'' = Some (Text event) \<and> map_of line ''level'' = Some (Text level_name) \<and>
    (\<forall>k v. map_of kws k = Some v \<and> k \<notin> line_keys \<and> k \<notin> set log_record_reserved \<and> v \<noteq> No_value \<longrightarrow>
       map_of line k = Some v) \<and>
    (let given = get_or No_value (map_of kws ''request_id''); shown = (if truthy given then given else ctx) in
     truthy shown \<longrightarrow> map_of line ''request_id'' = Some shown)"
proof -
  let ?extra = "(''event'', Text event) # kws"
  let ?r = "\<lparr>lr_logger = logger, lr_level = level, lr_level_name = level_name, lr_message = event,
      lr_created = created, lr_extra = ?extra, lr_exc_info = None\<rparr>"
  let ?f = "request_context_filter ctx ?r"
  have "\<not> overwrites ''event''" by (simp add: overwrites_def record_attributes_def)
  then have "filter (\<lambda>(k, v). overwrites k) ?extra = []"
    using assms(3) by (auto simp: filter_empty_conv)
  then have emit: "emit root_level ctx created logger event level level_name kws = Inr (Some (format_record ctx ?f))"
    using assms(1) by (simp add: emit_def log_event_def make_record_def)
  have shape: "\<exists>more. lr_extra ?f = ?extra @ more \<and> distinct (map fst (lr_extra ?f)) \<and>
      get_or No_value (map_of (lr_extra ?f) ''request_id'') =
        (case map_of kws ''request_id'' of None \<Rightarrow> ctx | Some v \<Rightarrow> v)"
  proof (cases "map_of kws ''request_id''")
    case None
    then have "''request_id'' \<notin> set (map fst kws)" by (simp add: map_of_eq_None_iff)
    with None assms(2,3) show ?thesis
      by (intro exI [of _ "[(''request_id'', ctx)]"]) (auto simp: request_context_filter_def map_add_def split: option.split)
  next
    case (Some v)
    with assms(2,3) show ?thesis
      by (intro exI [of _ "[]"]) (auto simp: request_context_filter_def)
  qed
  then obtain more where more: "lr_extra ?f = ?extra @ more" and dist: "distinct (map fst (lr_extra ?f))"
    and rid: "get_or No_value (map_of (lr_extra ?f) ''request_id'') =
        (case map_of kws ''request_id'' of None \<Rightarrow> ctx | Some v \<Rightarrow> v)" by blast
  have same: "lr_logger ?f = logger" "lr_level_name ?f = level_name" "lr_created ?f = created" "lr_exc_info ?f = None"
    by (simp_all add: request_context_filter_def)
  define shown where
    "shown = (if truthy (get_or No_value (map_of kws ''request_id'')) then get_or No_value (map_of kws ''request_id'') else ctx)"
  define base where "base = [(''timestamp'', Text created), (''level'', Text level_name), (''logger'', Text logger),
      (''event'', Text event)] @ (if truthy shown then [(''request_id'', shown)] else [])"
  have "(if truthy (case map_of kws ''request_id'' of None \<Rightarrow> ctx | Some v \<Rightarrow> v)
      then (case map_of kws ''request_id'' of None \<Rightarrow> ctx | Some v \<Rightarrow> v) else ctx) = shown"
    by (simp add: shown_def split: option.split)
  then have line: "format_record ctx ?f = add_extras base (lr_extra ?f)"
    by (simp add: format_record_def Let_def same rid base_def) (simp add: more)
  note look = add_extras_lookup [OF dist, of base]
  have "map_of base ''event'' = Some (Text event)" "map_of base ''level'' = Some (Text level_name)"
      "truthy shown \<Longrightarrow> map_of base ''request_id'' = Some shown"
    by (simp_all add: base_def)
  moreover have "map_of base k = None" if "k \<notin> line_keys" for k
    using that by (auto simp: base_def line_keys_def)
  moreover have "map_of (lr_extra ?f) k = Some v" if "map_of kws k = Some v" "k \<notin> line_keys" for k v
    using that by (auto simp: more map_add_def line_keys_def)
  ultimately show ?thesis
    unfolding emit line by (auto simp: look shown_def [symmetric] Let_def)
qed

theorem log_line_complete_witness:
  "\<exists>line. emit 20 (Text ''req-1'') ''t'' ''app'' ''tasks.created'' 20 ''INFO'' [(''count'', Number 3)] = Inr (Some line) \<and>
     map_of line ''count'' = Some (Number 3) \<and> map_of line ''request_id'' = Some (Text ''req-1'')"
proof -
  have "\<exists>line. emit 20 (Text ''req-1'') ''t'' ''app'' ''tasks.created'' 20 ''INFO'' [(''count'', Number 3)] = Inr (Some line) \<and>
    map_of line ''event'' = Some (Text ''tasks.created'') \<and> map_of line ''level'' = Some (Text ''INFO'') \<and>
    (\<forall>k v. map_of [(''count'', Number 3)] k = Some v \<and> k \<notin> line_keys \<and> k \<notin> set log_record_reserved \<and> v \<noteq> No_value \<longrightarrow>
       map_of line k = Some v) \<and>
    (let given = get_or No_value (map_of [(''count'', Number 3)] ''request_id'');
         shown = (if truthy given then given else Text ''req-1'') in
     truthy shown \<longrightarrow> map_of line ''request_id'' = Some shown)"
    by (rule log_line_complete) (simp_all add: overwrites_def record_attributes_def)
  then show ?thesis by (auto simp: line_keys_def log_record_reserved_def Let_def)
qed

text \<open>
  The event of the time-out branch of the shutdown has a field \<open>message\<close>, so reporting the time-out raises.
\<close>

lemma timeout_event_raises:
  "emit 20 ctx created logger ''shutdown.timeout'' 30 ''WARNING''
     [(''message'', Text ''Worker pool drain timed out, forcing stop''), (''grace_seconds'', Number g)] =
   Inl (Exn OtherError (''Attempt to overwrite '' @ ''message'' @ '' in LogRecord''))"
  by (simp add: emit_def log_event_def make_record_def overwrites_def record_attributes_def)

end
