(* ===== verification/Middleware.thy ===== *)
theory Middleware
  imports Observability
begin

section \<open>The middleware of the API (middleware.py, metrics.py)\<close>

text \<open>
  Every HTTP request goes through \<open>RequestIDMiddleware\<close> and, inside it, \<open>MetricsMiddleware\<close>. What is inside a
  middleware is an argument: the answer of the application for the first, the messages it sends and how it
  ends for the second.
\<close>

subsection \<open>The request identifier\<close>

record http_response =
  rs_status :: nat
  rs_headers :: "(string \<times> string) list"

text \<open>Starlette keeps header names in lower case; setting one replaces all its occurrences.\<close>

definition request_id_header :: string where
  "request_id_header = ''x-request-id''"

fun set_header :: "string \<Rightarrow> string \<Rightarrow> (string \<times> string) list \<Rightarrow> (string \<times> string) list" where
  "set_header k v [] = [(k, v)]"
| "set_header k v ((k', v') # hs) =
     (if k' = k then (k, v) # filter (\<lambda>h. fst h \<noteq> k) hs else (k', v') # set_header k v hs)"

record log_call =
  lc_event :: string
  lc_level :: int
  lc_fields :: "(string \<times> log_value) list"

text \<open>
  \<open>dispatch\<close>: \<open>given\<close> is the header of the request, \<open>fresh\<close> the identifier made if it is missing or empty,
  \<open>ctx\<close> the value of the context variable before the call. The application is called with the identifier in
  the state of the request and in the context. The result has the calls of \<open>log_event\<close> and the context after.
\<close>

definition request_id_dispatch ::
  "string option \<Rightarrow> string \<Rightarrow> string \<Rightarrow> string \<Rightarrow> int \<Rightarrow> (string \<Rightarrow> exn + http_response) \<Rightarrow> log_value
     \<Rightarrow> (exn + http_response) \<times> log_call list \<times> log_value" where
  "request_id_dispatch given fresh meth path duration call_next ctx =
     (let request_id = (case given of Some i \<Rightarrow> if i \<noteq> [] then i else fresh | None \<Rightarrow> fresh);
          kws = [(''request_id'', Text request_id), (''http_method'', Text meth), (''path'', Text path)];
          started = \<lparr>lc_event = ''request.started'', lc_level = 20, lc_fields = kws\<rparr>
      in case call_next request_id of
           Inl e \<Rightarrow>
             (Inl e,
              [started, \<lparr>lc_event = ''request.failed'', lc_level = 40,
                 lc_fields = kws @ [(''duration_ms'', Number duration), (''reason'', Text ''unhandled_exception'')]\<rparr>],
              ctx)
         | Inr resp \<Rightarrow>
             (Inr (resp\<lparr>rs_headers := set_header request_id_header request_id (rs_headers resp)\<rparr>),
              [started, \<lparr>lc_event = ''request.completed'', lc_level = 20,
                 lc_fields = kws @ [(''status_code'', Number (int (rs_status resp))), (''duration_ms'', Number duration)]\<rparr>],
              ctx))"

lemma set_header_lookup:
  "filter (\<lambda>h. fst h = k) (set_header k v hs) = [(k, v)]"
  "filter (\<lambda>h. fst h \<noteq> k) (set_header k v hs) = filter (\<lambda>h. fst h \<noteq> k) hs"
  by (induction k v hs rule: set_header.induct) (auto simp: filter_empty_conv)

text \<open>
  A request keeps one identifier from end to end: the application runs under the client's identifier, or
  under a fresh one if the client gives none or an empty one; the response carries exactly this one in its
  header and is otherwise as the application made it; both events of the request have it, and none of their
  fields clashes with an attribute of a log record; an exception is passed on; and the context variable is
  reset in every case.
\<close>

theorem request_id_end_to_end:
  "let request_id = (if given = None \<or> given = Some [] then fresh else the given) in
   (case request_id_dispatch given fresh meth path duration call_next ctx of
      (res, calls, ctx') \<Rightarrow>
        ctx' = ctx \<and> length calls = 2 \<and>
        (\<forall>c \<in> set calls. map_of (lc_fields c) ''request_id'' = Some (Text request_id) \<and>
           (\<forall>k \<in> set (map fst (lc_fields c)). \<not> overwrites k \<and> k \<noteq> ''event'')) \<and>
        (case call_next request_id of
           Inl e \<Rightarrow> res = Inl e \<and> map lc_event calls = [''request.started'', ''request.failed'']
         | Inr resp \<Rightarrow> map lc_event calls = [''request.started'', ''request.completed''] \<and>
             (\<exists>hs. res = Inr (resp\<lparr>rs_headers := hs\<rparr>) \<and>
                filter (\<lambda>h. fst h = request_id_header) hs = [(request_id_header, request_id)] \<and>
                filter (\<lambda>h. fst h \<noteq> request_id_header) hs =
                  filter (\<lambda>h. fst h \<noteq> request_id_header) (rs_headers resp))))"
proof -
  define i where "i = (if given = None \<or> given = Some [] then fresh else the given)"
  have i: "(case given of Some i \<Rightarrow> if i \<noteq> [] then i else fresh | None \<Rightarrow> fresh) = i"
    by (simp add: i_def split: option.split)
  have keys: "\<not> overwrites ''request_id''" "\<not> overwrites ''http_method''" "\<not> overwrites ''path''"
    "\<not> overwrites ''duration_ms''" "\<not> overwrites ''reason''" "\<not> overwrites ''status_code''"
    by (simp_all add: overwrites_def record_attributes_def)
  show ?thesis
    unfolding i_def [symmetric] Let_def request_id_dispatch_def i
    using keys set_header_lookup by (cases "call_next i") auto
qed

theorem request_id_end_to_end_witness:
  "\<exists>hs calls. request_id_dispatch (Some ''abc'') ''f'' ''GET'' ''/'' 3
     (\<lambda>_. Inr \<lparr>rs_status = 200, rs_headers = []\<rparr>) (Number 0) =
       (Inr \<lparr>rs_status = 200, rs_headers = hs\<rparr>, calls, Number 0) \<and>
     filter (\<lambda>h. fst h = request_id_header) hs = [(request_id_header, ''abc'')]"
  using request_id_end_to_end [where given = "Some ''abc''" and fresh = "''f''" and meth = "''GET''" and
     path = "''/''" and duration = 3 and call_next = "\<lambda>_. Inr \<lparr>rs_status = 200, rs_headers = []\<rparr>" and
     ctx = "Number 0"]
  by (cases "request_id_dispatch (Some ''abc'') ''f'' ''GET'' ''/'' 3
     (\<lambda>_. Inr \<lparr>rs_status = 200, rs_headers = []\<rparr>) (Number 0)") (auto simp: Let_def)

subsection \<open>Metrics\<close>

text \<open>The counters and the histogram that the middleware writes, by their labels.\<close>

record metrics =
  api_requests_total :: "string \<times> string \<times> string \<Rightarrow> nat"
  api_latency_seconds :: "string \<times> string \<Rightarrow> int list"
  api_errors_total :: "string \<times> string \<times> string \<Rightarrow> nat"

definition new_metrics :: metrics where
  "new_metrics = \<lparr>api_requests_total = (\<lambda>_. 0), api_latency_seconds = (\<lambda>_. []), api_errors_total = (\<lambda>_. 0)\<rparr>"

definition record_api_request :: "string \<Rightarrow> string \<Rightarrow> nat \<Rightarrow> int \<Rightarrow> metrics \<Rightarrow> metrics" where
  "record_api_request meth endpoint status latency m =
     (let k = (meth, endpoint, digits_of status) in
      m\<lparr>api_requests_total := (api_requests_total m)(k := api_requests_total m k + 1),
        api_latency_seconds := (api_latency_seconds m)
          ((meth, endpoint) := api_latency_seconds m (meth, endpoint) @ [latency])\<rparr>)"

definition record_api_error :: "string \<Rightarrow> string \<Rightarrow> string \<Rightarrow> metrics \<Rightarrow> metrics" where
  "record_api_error meth endpoint error_type m =
     (let k = (meth, endpoint, error_type) in
      m\<lparr>api_errors_total := (api_errors_total m)(k := api_errors_total m k + 1)\<rparr>)"

text \<open>The global collector.\<close>

definition get_metrics :: "metrics option \<Rightarrow> metrics \<times> metrics option" where
  "get_metrics g = (case g of None \<Rightarrow> (new_metrics, Some new_metrics) | Some m \<Rightarrow> (m, Some m))"

definition set_metrics :: "metrics option \<Rightarrow> metrics option \<Rightarrow> metrics option" where
  "set_metrics m g = m"

text \<open>
  A message of ASGI: the start of a response, with its status if it has one, or any other. An application is
  the messages it sends, each with the time since the start of the request, and the exception it ends with.
\<close>

datatype message = Response_start "nat option" | Other_message

definition error_type_of :: "nat \<Rightarrow> string" where
  "error_type_of status = (if status < 500 then ''client_error'' else ''server_error'')"

definition send_wrapper :: "string \<Rightarrow> string \<Rightarrow> message \<times> int \<Rightarrow> metrics \<Rightarrow> metrics" where
  "send_wrapper meth path msg m =
     (case fst msg of
        Other_message \<Rightarrow> m
      | Response_start st \<Rightarrow>
          (let status = (case st of None \<Rightarrow> 500 | Some s \<Rightarrow> s);
               m = record_api_request meth path status (snd msg) m
           in if 400 \<le> status \<and> status < 600 then record_api_error meth path (error_type_of status) m else m))"

definition metrics_call ::
  "string \<Rightarrow> string option \<Rightarrow> string option \<Rightarrow> (message \<times> int) list \<times> exn option \<Rightarrow> metrics
     \<Rightarrow> metrics \<times> message list \<times> exn option" where
  "metrics_call scope_type meth path run m =
     (if scope_type \<noteq> ''http'' then (m, map fst (fst run), snd run)
      else
        (let meth = (case meth of None \<Rightarrow> ''UNKNOWN'' | Some x \<Rightarrow> x);
             path = (case path of None \<Rightarrow> ''/'' | Some x \<Rightarrow> x)
         in (fold (send_wrapper meth path) (fst run) m, map fst (fst run), snd run)))"

text \<open>
  The metrics of the process: the collector that the middleware writes to has a registry of its own, the
  endpoint \<open>/metrics\<close> calls \<open>generate_latest()\<close> with no argument and so exports the default registry.
\<close>

record process_metrics =
  pm_default_registry :: metrics
  pm_collector :: metrics

definition metrics_endpoint :: "(metrics \<Rightarrow> string) \<Rightarrow> process_metrics \<Rightarrow> string" where
  "metrics_endpoint generate_latest p = generate_latest (pm_default_registry p)"

definition export_metrics :: "(metrics \<Rightarrow> string) \<Rightarrow> process_metrics \<Rightarrow> string" where
  "export_metrics generate_latest p = generate_latest (pm_collector p)"

fun start_status :: "message \<Rightarrow> nat option" where
  "start_status Other_message = None"
| "start_status (Response_start None) = Some 500"
| "start_status (Response_start (Some s)) = Some s"

lemma send_wrapper_counts:
  "api_requests_total (send_wrapper meth path x m) (a, b, c) =
     api_requests_total m (a, b, c) +
     (if a = meth \<and> b = path \<and> map_option digits_of (start_status (fst x)) = Some c then 1 else 0)"
  "api_errors_total (send_wrapper meth path x m) (a, b, e) =
     api_errors_total m (a, b, e) +
     (if a = meth \<and> b = path \<and>
         (\<exists>s. start_status (fst x) = Some s \<and> 400 \<le> s \<and> s < 600 \<and> error_type_of s = e) then 1 else 0)"
  by (cases "fst x"; cases "start_status (fst x)";
      force simp: send_wrapper_def record_api_request_def record_api_error_def Let_def split: option.splits)+


lemma fold_send_wrapper_counts:
  "api_requests_total (fold (send_wrapper meth path) msgs m) (a, b, c) =
     api_requests_total m (a, b, c) +
     (if a = meth \<and> b = path
      then length (filter (\<lambda>x. map_option digits_of (start_status (fst x)) = Some c) msgs) else 0)"
  "api_errors_total (fold (send_wrapper meth path) msgs m) (a, b, e) =
     api_errors_total m (a, b, e) +
     (if a = meth \<and> b = path
      then length (filter (\<lambda>x. \<exists>s. start_status (fst x) = Some s \<and> 400 \<le> s \<and> s < 600 \<and> error_type_of s = e) msgs)
      else 0)"
  by (induction msgs arbitrary: m) (auto simp: send_wrapper_counts)

lemma fold_send_wrapper_silent:
  "\<forall>x \<in> set msgs. start_status (fst x) = None \<Longrightarrow> fold (send_wrapper meth path) msgs m = m"
proof (induction msgs)
  case (Cons x msgs)
  then have "send_wrapper meth path x m = m"
    by (cases "fst x") (auto simp: send_wrapper_def elim: start_status.elims)
  with Cons show ?case by simp
qed simp

text \<open>
  Responses are counted, and nothing else is: the middleware forwards every message and exception of the
  application unchanged; each started response adds one to the requests of its method, path and status, and
  one to the errors of its class exactly if the status is from 400 to 599; other methods and paths keep their
  counts; and a request that starts no response, as one whose handler raises, leaves all metrics as they were.
\<close>

theorem metrics_count_responses:
  "(case metrics_call ''http'' meth path (msgs, outcome) m of (m', sent, outcome') \<Rightarrow>
     sent = map fst msgs \<and> outcome' = outcome \<and>
     (\<forall>a b c e. let mine = (a = case_option ''UNKNOWN'' id meth \<and> b = case_option ''/'' id path) in
       api_requests_total m' (a, b, c) = api_requests_total m (a, b, c) +
         (if mine then length (filter (\<lambda>x. map_option digits_of (start_status (fst x)) = Some c) msgs) else 0) \<and>
       api_errors_total m' (a, b, e) = api_errors_total m (a, b, e) +
         (if mine then length (filter (\<lambda>x. \<exists>s. start_status (fst x) = Some s \<and> 400 \<le> s \<and> s < 600 \<and>
            error_type_of s = e) msgs) else 0)) \<and>
     (filter (\<lambda>x. start_status (fst x) \<noteq> None) msgs = [] \<longrightarrow> m' = m))"
  using fold_send_wrapper_counts fold_send_wrapper_silent
  by (auto simp: metrics_call_def Let_def filter_empty_conv split: option.split)

theorem metrics_count_responses_witness:
  "fst (metrics_call ''http'' (Some ''GET'') (Some ''/jobs'') ([(Other_message, 1)], Some (Exn OtherError ''boom'')) new_metrics) =
     new_metrics"
proof -
  have "filter (\<lambda>x. start_status (fst x) \<noteq> None) [(Other_message, 1::int)] = []" by simp
  then show ?thesis
    using metrics_count_responses [where meth = "Some ''GET''" and path = "Some ''/jobs''" and msgs = "[(Other_message, 1)]" and
        outcome = "Some (Exn OtherError ''boom'')" and m = new_metrics]
    by (auto split: prod.splits)
qed

text \<open>What the middleware records is never exported.\<close>

lemma metrics_endpoint_blind:
  "metrics_endpoint generate_latest (p\<lparr>pm_collector := fst (metrics_call scope_type meth path run (pm_collector p))\<rparr>) =
   metrics_endpoint generate_latest p"
  by (simp add: metrics_endpoint_def)

end
