(* ===== verification/Telemetry.thy ===== *)
theory Telemetry
  imports Middleware Settings
begin

section \<open>Declarations of events and metrics, and the logging of the process (logging.py, metrics.py)\<close>

subsection \<open>The events\<close>

text \<open>\<open>LogEventName\<close>: the names that \<open>log_event\<close> accepts.\<close>

definition log_event_names :: "string list" where
  "log_event_names =
     [''app.startup.started'', ''app.startup.completed'', ''app.shutdown.started'',
      ''app.shutdown.completed'', ''request.started'', ''request.completed'', ''request.failed'',
      ''health.live.checked'', ''health.ready.checked'', ''database.connection.started'',
      ''database.connection.ready'', ''database.connection.failed'', ''database.migration.started'',
      ''database.migration.completed'', ''database.migration.failed'', ''request.received'',
      ''request.validated'', ''domain.normalization.started'', ''domain.normalized'',
      ''domain.validation.failed'', ''domain.deduplicated'', ''job.creation.started'',
      ''job.creation.committed'', ''job.created'', ''tasks.created'', ''task_manager.started'',
      ''task_manager.stopped'', ''task_manager.cycle_failed'', ''task_manager.claim_attempt'',
      ''task_manager.tasks_claimed'', ''task_manager.no_tasks_available'', ''worker_pool.started'',
      ''worker_pool.stopped'', ''worker.started'', ''worker.stopped'', ''worker.task_received'',
      ''worker.task_completed'', ''worker.task_failed'', ''worker_pool.queue_full'',
      ''worker_pool.queue_space_available'', ''task_manager.no_worker_pool'', ''worker_pool.task_dispatched'',
      ''worker_pool.queue_full_on_dispatch'', ''task_manager.recovery_cycle_failed'',
      ''task_manager.recovery_no_worker_pool'', ''task_manager.recovery_attempt'',
      ''task_manager.tasks_recovered'', ''task_manager.task_failed_max_attempts'',
      ''task_manager.no_expired_tasks'', ''domain_processing.started'', ''domain_processing.domain_resolved'',
      ''domain_processing.fresh_detail_reused'', ''domain_processing.needs_processing'',
      ''domain_processing.lock_contention'', ''domain_processing.fresh_after_lock'',
      ''domain_processing.lock_acquired'', ''domain_processing.dns_started'',
      ''domain_processing.dns_succeeded'', ''domain_processing.dns_resolved'',
      ''domain_processing.dns_permanent_failure'', ''domain_processing.dns_transient_failure'',
      ''domain_processing.ssrf_rejected'', ''domain_processing.ip_validated'',
      ''domain_processing.http_started'', ''domain_processing.http_succeeded'',
      ''domain_processing.http_completed'', ''domain_processing.http_transient_failure'',
      ''domain_processing.http_permanent_failure'', ''domain_processing.completed'',
      ''domain_processing.failed'', ''domain_processing.rescheduled'',
      ''domain_processing.max_attempts_exceeded'', ''dns.record_lookup_failed'', ''domain_lock.acquired'',
      ''domain_lock.released'', ''domain_lock.failed'', ''domain_lock.release_failed'',
      ''http_client.probe_completed'', ''http_client.probe_failed'', ''ip_validator.rejected'',
      ''redis.connection_failed'', ''redis.close_failed'', ''scheduler.started'', ''scheduler.stopped'',
      ''scheduler.tick_started'', ''scheduler.tick_completed'', ''scheduler.refresh_candidates_discovered'',
      ''scheduler.refresh_candidate_skipped'', ''scheduler.refresh_task_created'',
      ''scheduler.refresh_task_skipped_duplicate'', ''scheduler.backpressure'', ''scheduler.error'',
      ''scheduler.shutdown'', ''idempotency.request_received'', ''idempotency.hit'', ''idempotency.conflict'',
      ''idempotency.record_created'', ''occ.update_attempted'', ''occ.conflict'', ''occ.update_succeeded'',
      ''domain.deactivated'', ''domain.reactivated'', ''domain.inactive_skipped'', ''metrics.exported'',
      ''metrics.collection_failed'', ''shutdown.signal_received'', ''shutdown.initiated'',
      ''shutdown.api_closed'', ''shutdown.task_manager_stopped'', ''shutdown.scheduler_stopped'',
      ''shutdown.worker_pool_draining'', ''shutdown.worker_pool_stopped'', ''shutdown.database_closed'',
      ''shutdown.completed'', ''shutdown.timeout'']"

subsection \<open>The root logger\<close>

text \<open>
  A handler of the root logger is the one of \<open>configure_logging\<close>, with its formatter and filter, or any other one,
  which writes lines in a way of its own.
\<close>

datatype log_handler = Json_handler | Other_handler "log_record \<Rightarrow> string"

record root_logger =
  rl_handlers :: "log_handler list"
  rl_level :: int

fun level_number :: "log_level \<Rightarrow> int" where
  "level_number DEBUG = 10"
| "level_number INFO = 20"
| "level_number WARNING = 30"
| "level_number ERROR = 40"
| "level_number CRITICAL = 50"

definition configure_logging :: "log_level \<Rightarrow> root_logger \<Rightarrow> root_logger" where
  "configure_logging l rl = rl\<lparr>rl_handlers := [Json_handler], rl_level := level_number l\<rparr>"

datatype log_line = Json_line "(string \<times> log_value) list" | Other_line string

definition handle_record :: "log_value \<Rightarrow> log_record \<Rightarrow> log_handler \<Rightarrow> log_line" where
  "handle_record ctx r h =
     (case h of
        Json_handler \<Rightarrow> Json_line (format_record ctx (request_context_filter ctx r))
      | Other_handler f \<Rightarrow> Other_line (f r))"

text \<open>What one call of \<open>log_event\<close> writes in a process with this root logger.\<close>

definition log_lines ::
  "root_logger \<Rightarrow> log_value \<Rightarrow> string \<Rightarrow> string \<Rightarrow> string \<Rightarrow> int \<Rightarrow> string \<Rightarrow> (string \<times> log_value) list
     \<Rightarrow> exn + log_line list" where
  "log_lines rl ctx created logger event level level_name kws =
     (case log_event (rl_level rl) created logger event level level_name kws of
        Inl e \<Rightarrow> Inl e
      | Inr None \<Rightarrow> Inr []
      | Inr (Some r) \<Rightarrow> Inr (map (handle_record ctx r) (rl_handlers rl)))"

text \<open>
  However often the process configures its logging, and whatever handlers were there before, each event at
  or above the level last set is written exactly once, as the JSON object of \<open>log_line_complete\<close>, an event below
  it not at all; and every event of a request has a declared name.
\<close>

theorem logging_writes_once:
  "let rl' = fold configure_logging (ls @ [l]) rl in
   log_lines rl' ctx created logger event level level_name kws =
     (case emit (level_number l) ctx created logger event level level_name kws of
        Inl e \<Rightarrow> Inl e
      | Inr None \<Rightarrow> Inr []
      | Inr (Some line) \<Rightarrow> Inr [Json_line line]) \<and>
   (level < level_number l \<longrightarrow> log_lines rl' ctx created logger event level level_name kws = Inr []) \<and>
   (\<forall>c \<in> set (fst (snd (request_id_dispatch given fresh meth path duration call_next ctx))).
      lc_event c \<in> set log_event_names)"
proof -
  have rl: "fold configure_logging (ls @ [l]) rl =
      (fold configure_logging ls rl)\<lparr>rl_handlers := [Json_handler], rl_level := level_number l\<rparr>"
    by (simp add: configure_logging_def)
  have names: "''request.started'' \<in> set log_event_names \<and> ''request.completed'' \<in> set log_event_names \<and>
      ''request.failed'' \<in> set log_event_names" by (simp add: log_event_names_def)
  show ?thesis
    unfolding Let_def rl using names
    by (auto simp: log_lines_def emit_def log_event_def make_record_def handle_record_def request_id_dispatch_def Let_def
        split: option.split sum.split list.split)
qed

theorem logging_writes_once_witness:
  "log_lines (fold configure_logging [DEBUG, WARNING] \<lparr>rl_handlers = [Other_handler lr_message], rl_level = 0\<rparr>)
     No_value ''t'' ''app'' ''app.startup.started'' 20 ''INFO'' [] = Inr []"
proof -
  let ?rl = "\<lparr>rl_handlers = [Other_handler lr_message], rl_level = 0\<rparr>"
  have "20 < level_number WARNING \<longrightarrow> log_lines (fold configure_logging ([DEBUG] @ [WARNING]) ?rl)
      No_value ''t'' ''app'' ''app.startup.started'' 20 ''INFO'' [] = Inr []"
    using logging_writes_once [of "[DEBUG]" WARNING ?rl No_value "''t''" "''app''" "''app.startup.started''" 20
      "''INFO''" "[]"] unfolding Let_def by blast
  then show ?thesis by simp
qed

subsection \<open>The metrics\<close>

datatype metric_kind = Counter | Gauge | Histogram "rat list"

record metric =
  mt_kind :: metric_kind
  mt_name :: string
  mt_labels :: "string list"

abbreviation met :: "metric_kind \<Rightarrow> string \<Rightarrow> string list \<Rightarrow> metric" where
  "met k n ls \<equiv> \<lparr>mt_kind = k, mt_name = n, mt_labels = ls\<rparr>"

definition collector_metrics :: "metric list" where
  "collector_metrics =
     [met Counter ''api_requests_total'' [''method'', ''endpoint'', ''status_code''],
      met (Histogram [1/100, 1/40, 1/20, 1/10, 1/4, 1/2, 1, 5/2, 5, 10]) ''api_latency_seconds'' [''method'', ''endpoint''],
      met Counter ''api_errors_total'' [''method'', ''endpoint'', ''error_type''],
      met Gauge ''tasks_pending_total'' [''task_type''],
      met Gauge ''tasks_processing_total'' [''task_type''],
      met Counter ''tasks_completed_total'' [''task_type'', ''status''],
      met Counter ''task_retry_total'' [''task_type'', ''retry_reason''],
      met Gauge ''worker_queue_depth'' [],
      met Gauge ''worker_active_count'' [],
      met (Histogram [1/100, 1/40, 1/20, 1/10, 1/4, 1/2, 1, 5/2, 5]) ''domain_dns_latency'' [],
      met (Histogram [1/100, 1/40, 1/20, 1/10, 1/4, 1/2, 1, 5/2, 5, 10, 20]) ''domain_http_latency'' [],
      met Counter ''domain_ssrf_rejections_total'' [''rejection_reason''],
      met Gauge ''db_pool_utilization'' [],
      met Counter ''redis_lock_contention_total'' []]"

text \<open>
  \<open>CollectorRegistry.register\<close> refuses a metric one of whose series names is taken. Which names a metric of a
  kind reserves is up to the library: \<open>series\<close>.
\<close>

definition register_metric ::
  "(metric_kind \<Rightarrow> string \<Rightarrow> string list) \<Rightarrow> metric \<Rightarrow> string list \<Rightarrow> exn + string list" where
  "register_metric series m taken =
     (if list_ex (\<lambda>n. n \<in> set taken) (series (mt_kind m) (mt_name m))
      then Inl (Exn OtherError (''Duplicated timeseries in CollectorRegistry: '' @ mt_name m))
      else Inr (taken @ series (mt_kind m) (mt_name m)))"

fun register_metrics ::
  "(metric_kind \<Rightarrow> string \<Rightarrow> string list) \<Rightarrow> metric list \<Rightarrow> string list \<Rightarrow> exn + string list" where
  "register_metrics series [] taken = Inr taken"
| "register_metrics series (m # ms) taken =
     (case register_metric series m taken of Inl e \<Rightarrow> Inl e | Inr taken \<Rightarrow> register_metrics series ms taken)"

text \<open>\<open>MetricsCollector()\<close>: a registry of its own, then all metrics in it.\<close>

definition new_collector :: "(metric_kind \<Rightarrow> string \<Rightarrow> string list) \<Rightarrow> exn + string list" where
  "new_collector series = register_metrics series collector_metrics []"

text \<open>
  The documented naming: a series is named after the metric, less a trailing \<open>_total\<close>, with one of a few
  suffixes.
\<close>

definition series_suffixes :: "string list" where
  "series_suffixes = [[], ''_total'', ''_created'', ''_bucket'', ''_count'', ''_sum'']"

definition base_name :: "string \<Rightarrow> string" where
  "base_name n = (if ends_with n ''_total'' then take (length n - length ''_total'') n else n)"

definition possible_series :: "string \<Rightarrow> string list" where
  "possible_series n = map (\<lambda>s. base_name n @ s) series_suffixes"

definition series_law :: "(metric_kind \<Rightarrow> string \<Rightarrow> string list) \<Rightarrow> bool" where
  "series_law series \<longleftrightarrow> (\<forall>k n. set (series k n) \<subseteq> set (possible_series n))"

definition forbidden_labels :: "string list" where
  "forbidden_labels = [''domain'', ''job_id'', ''task_id'', ''request_id'', ''url'']"

lemma register_distinct:
  assumes "series_law series"
  shows "distinct (concat (map possible_series (map mt_name ms))) \<Longrightarrow>
    set taken \<inter> (\<Union>m \<in> set ms. set (possible_series (mt_name m))) = {} \<Longrightarrow>
    register_metrics series ms taken = Inr (taken @ concat (map (\<lambda>m. series (mt_kind m) (mt_name m)) ms))"
proof (induction ms arbitrary: taken)
  case Nil
  then show ?case by simp
next
  case (Cons m ms)
  have sub: "set (series (mt_kind m) (mt_name m)) \<subseteq> set (possible_series (mt_name m))"
    using assms by (simp add: series_law_def)
  have new: "register_metric series m taken = Inr (taken @ series (mt_kind m) (mt_name m))"
    using Cons.prems(2) sub by (auto simp: register_metric_def list_ex_iff)
  have "set (possible_series (mt_name m)) \<inter> (\<Union>m \<in> set ms. set (possible_series (mt_name m))) = {}"
    using Cons.prems(1) by simp
  then have "set (taken @ series (mt_kind m) (mt_name m)) \<inter> (\<Union>m \<in> set ms. set (possible_series (mt_name m))) = {}"
    using Cons.prems(2) sub by auto
  moreover have "distinct (concat (map possible_series (map mt_name ms)))" using Cons.prems(1) by simp
  ultimately show ?case using Cons.IH new by simp
qed

lemma collector_names_distinct: "distinct (concat (map possible_series (map mt_name collector_metrics)))"
  by code_simp

text \<open>
  The collector can always be built: its fourteen metrics register in its registry without a clash of
  series names, each metric has distinct labels, none of them one that its documentation forbids, and the
  buckets of the histograms increase strictly.
\<close>

theorem collector_builds:
  assumes "series_law series"
  shows "\<exists>taken. new_collector series = Inr taken \<and>
    list_all (\<lambda>m. distinct (mt_labels m) \<and> list_all (\<lambda>l. l \<notin> set forbidden_labels) (mt_labels m) \<and>
      (case mt_kind m of Histogram bs \<Rightarrow> sorted_wrt (<) bs | _ \<Rightarrow> True)) collector_metrics"
proof -
  have "new_collector series = Inr (concat (map (\<lambda>m. series (mt_kind m) (mt_name m)) collector_metrics))"
    unfolding new_collector_def using register_distinct [OF assms collector_names_distinct, of "[]"] by simp
  moreover have "list_all (\<lambda>m. distinct (mt_labels m) \<and> list_all (\<lambda>l. l \<notin> set forbidden_labels) (mt_labels m) \<and>
      (case mt_kind m of Histogram bs \<Rightarrow> sorted_wrt (<) bs | _ \<Rightarrow> True)) collector_metrics"
    by (simp add: collector_metrics_def forbidden_labels_def)
  ultimately show ?thesis by blast
qed

theorem collector_builds_witness:
  "\<exists>taken. new_collector (\<lambda>k n. [base_name n, base_name n @ ''_total'']) = Inr taken"
proof -
  have "series_law (\<lambda>k n. [base_name n, base_name n @ ''_total''])"
    by (simp add: series_law_def possible_series_def series_suffixes_def)
  from collector_builds [OF this] show ?thesis by blast
qed

end
