(* ===== verification/App.thy ===== *)
theory App
  imports Shutdown Settings Middleware
begin

section \<open>The application (app.py)\<close>

text \<open>
  \<open>create_app\<close> builds the components from the settings: the pool with its queue and workers, the task manager
  and, if wanted, the scheduler; without the pool there is neither. The health endpoints report on the process
  and on the database.
\<close>

definition bare_app :: app where
  "bare_app =
     \<lparr>ap_shutdown = initial_shutdown_state, ap_manager = None, ap_scheduler = None, ap_pool = None,
      ap_database = new_database\<rparr>"

definition new_manager :: manager_state where
  "new_manager = \<lparr>mg_running = False, mg_task = No_loop, mg_recovery_task = No_loop\<rparr>"

definition new_scheduler :: scheduler_state where
  "new_scheduler = \<lparr>sc_running = False, sc_task = No_loop\<rparr>"

text \<open>\<open>names\<close> supplies the random identifiers of the workers.\<close>

definition create_app :: "app_settings \<Rightarrow> (nat \<Rightarrow> string) \<Rightarrow> bool \<Rightarrow> bool \<Rightarrow> exn + app" where
  "create_app s names enable_worker_pool enable_scheduler =
     (if \<not> enable_worker_pool then Inr bare_app
      else
        (case new_pool (worker_queue_capacity (numbers s))
                (map names [0..<nat (worker_concurrency (numbers s))]) of
           Inl e \<Rightarrow> Inl e
         | Inr pool \<Rightarrow>
             Inr (bare_app\<lparr>ap_pool := Some pool, ap_manager := Some new_manager,
                           ap_scheduler := (if enable_scheduler then Some new_scheduler else None)\<rparr>)))"

subsection \<open>The health endpoints\<close>

record health =
  hs_code :: nat
  hs_body :: "(string \<times> string) list"

definition health_live :: "app_settings \<Rightarrow> string \<Rightarrow> health" where
  "health_live s request_id =
     \<lparr>hs_code = 200,
      hs_body = [(''status'', ''live''), (''service'', app_name s), (''request_id'', request_id)]\<rparr>"

definition health_ready :: "app_settings \<Rightarrow> exn option \<Rightarrow> app \<Rightarrow> string \<Rightarrow> health" where
  "health_ready s fault a request_id =
     (let ready = is_ready fault (ap_database a) in
      \<lparr>hs_code = (if ready then 200 else 503),
       hs_body = [(''status'', if ready then ''ready'' else ''not_ready''), (''service'', app_name s),
                  (''postgresql'', if ready then ''ok'' else ''unavailable''), (''request_id'', request_id)]\<rparr>)"

text \<open>The lifespan: start-up, the time in between (\<open>serve\<close>), shutdown with the database.\<close>

definition lifespan ::
  "(string \<Rightarrow> timestamp \<Rightarrow> timestamp option) \<Rightarrow> app_settings \<Rightarrow> exn option \<Rightarrow> (app \<Rightarrow> app) \<Rightarrow> timestamp \<Rightarrow> app
     \<Rightarrow> exn + (app \<times> timestamp) option" where
  "lifespan ends s fault serve now a =
     (case startup fault a of
        Inl e \<Rightarrow> Inl e
      | Inr a1 \<Rightarrow> Inr (shutdown ends (shutdown_grace_seconds (numbers s)) True now (serve a1)))"

subsection \<open>The life cycle of the service\<close>

definition all_up :: "app \<Rightarrow> bool" where
  "all_up a \<longleftrightarrow>
     pred_option (\<lambda>m. mg_running m \<and> mg_task m = Live \<and> mg_recovery_task m = Live) (ap_manager a) \<and>
     pred_option (\<lambda>s. sc_running s \<and> sc_task s = Live) (ap_scheduler a) \<and>
     pred_option (\<lambda>p. wp_running p \<and> list_all (\<lambda>w. wk_running w \<and> wk_loop w = Live) (wp_workers p)) (ap_pool a)"

lemma create_app_cases:
  assumes "new_settings raw = Inr s"
  obtains "\<not> enable" and "create_app s names enable sched = Inr bare_app"
  | q where "enable" and "queue_ok q" and "bq_items q = []"
    and "create_app s names enable sched =
      Inr (bare_app\<lparr>ap_pool := Some \<lparr>wp_queue = q,
          wp_workers = map (\<lambda>i. new_worker (names i)) [0..<nat (worker_concurrency (numbers s))], wp_running = False\<rparr>,
        ap_manager := Some new_manager, ap_scheduler := (if sched then Some new_scheduler else None)\<rparr>)"
proof (cases enable)
  case False
  then show thesis by (intro that(1)) (simp_all add: create_app_def)
next
  case True
  have "settings_errors raw = [] \<and> numbers s = raw_numbers raw"
    using assms by (auto simp: new_settings_def split: list.splits sum.splits)
  then have "1 \<le> worker_queue_capacity (numbers s)"
    by (simp add: settings_errors_empty numbers_ok_def)
  then obtain q :: "task bounded_queue" where q: "new_queue (worker_queue_capacity (numbers s)) = Inr q"
    by (simp add: new_queue_def)
  with queue_ok_new [OF q] True show thesis
    by (intro that(2) [of q]) (simp_all add: create_app_def new_pool_def comp_def)
qed

lemma create_app_ok:
  assumes "new_settings raw = Inr s" and "create_app s names enable sched = Inr a"
  shows "app_ok a" "ap_database a = new_database" "dl_engine (ap_database a)"
proof -
  have bare: "app_ok bare_app" by (simp add: app_ok_def bare_app_def)
  have pool: "app_ok (bare_app\<lparr>ap_pool := Some \<lparr>wp_queue = q, wp_workers = map (\<lambda>i. new_worker (names i)) is,
      wp_running = False\<rparr>, ap_manager := Some new_manager, ap_scheduler := sc\<rparr>)"
    if "queue_ok q" "sc = None \<or> sc = Some new_scheduler" for q "is" sc
    using that
    by (auto simp: app_ok_def bare_app_def new_manager_def new_scheduler_def manager_ok_def scheduler_ok_def pool_ok_def
        worker_ok_def worker_down_def new_worker_def list_all_iff)
  show "app_ok a"
    using assms bare pool by (cases rule: create_app_cases [OF assms(1), where enable = enable and sched = sched and names = names]) auto
  show "ap_database a = new_database"
    using assms by (cases rule: create_app_cases [OF assms(1), where enable = enable and sched = sched and names = names]) (auto simp: bare_app_def)
  then show "dl_engine (ap_database a)" by (simp add: new_database_def)
qed


lemma startup_up:
  assumes "create_app s names enable sched = Inr a" and "new_settings raw = Inr s"
  shows "\<exists>a1. startup None a = Inr a1 \<and> app_ok a1 \<and> all_up a1 \<and> dl_engine (ap_database a1) \<and>
    (ap_pool a1 \<noteq> None \<longleftrightarrow> enable) \<and> (ap_manager a1 \<noteq> None \<longleftrightarrow> enable) \<and>
    (ap_scheduler a1 \<noteq> None \<longleftrightarrow> enable \<and> sched) \<and>
    pred_option (\<lambda>p. length (wp_workers p) = nat (worker_concurrency (numbers s)) \<and> bq_items (wp_queue p) = []) (ap_pool a1)"
proof -
  have connect: "database_connect None new_database = Inr ()"
    by (simp add: database_connect_def ping_def engine_of_def new_database_def)
  obtain a1 where a1: "startup None a = Inr a1"
    using create_app_ok(2) [OF assms(2,1)] by (simp add: startup_def connect)
  have db: "ap_database a1 = new_database"
    using a1 create_app_ok(2) [OF assms(2,1)] by (auto simp: startup_def split: sum.splits)
  have "all_up a1 \<and> (ap_pool a1 \<noteq> None \<longleftrightarrow> enable) \<and> (ap_manager a1 \<noteq> None \<longleftrightarrow> enable) \<and>
    (ap_scheduler a1 \<noteq> None \<longleftrightarrow> enable \<and> sched) \<and>
    pred_option (\<lambda>p. length (wp_workers p) = nat (worker_concurrency (numbers s)) \<and> bq_items (wp_queue p) = []) (ap_pool a1)"
    using a1 assms(1)
    by (cases rule: create_app_cases [OF assms(2), where enable = enable and sched = sched and names = names])
      (auto simp: startup_def bare_app_def connect all_up_def pool_start_def manager_start_def scheduler_start_def
        new_manager_def new_scheduler_def worker_start_def new_worker_def list_all_iff split: if_splits)
  with a1 db app_ok_startup [OF create_app_ok(1) [OF assms(2,1)] a1] show ?thesis
    by (simp add: new_database_def)
qed

text \<open>
  C33. The life cycle of the service: with settings that were accepted the application can be built, whatever
  parts are enabled; if the database answers, start-up brings up every loop, with as many workers as
  configured on an empty queue, and the service reports ready; if it does not, start-up fails and nothing
  runs. After the shutdown, if it returns, nothing runs and the service reports not ready for ever; it does
  return if every handler does.
\<close>

theorem service_life_cycle:
  assumes "new_settings raw = Inr s"
  shows "\<exists>a a1. create_app s names enable sched = Inr a \<and> startup None a = Inr a1 \<and> all_up a1 \<and>
    (ap_pool a1 \<noteq> None \<longleftrightarrow> enable) \<and> (ap_manager a1 \<noteq> None \<longleftrightarrow> enable) \<and>
    (ap_scheduler a1 \<noteq> None \<longleftrightarrow> enable \<and> sched) \<and>
    pred_option (\<lambda>p. length (wp_workers p) = nat (worker_concurrency (numbers s)) \<and> bq_items (wp_queue p) = [])
      (ap_pool a1) \<and>
    hs_code (health_ready s None a1 i) = 200 \<and> (\<forall>e. startup (Some e) a = Inl e) \<and>
    (case lifespan ends s None id now a of
       Inl e \<Rightarrow> False
     | Inr None \<Rightarrow> \<exists>i t. ends i t = None
     | Inr (Some (a2, now')) \<Rightarrow> all_down a2 \<and> now \<le> now' \<and> (\<forall>fault. hs_code (health_ready s fault a2 i) = 503))"
proof -
  obtain a where a: "create_app s names enable sched = Inr a"
    using assms by (cases rule: create_app_cases [OF assms, where enable = enable and sched = sched and names = names])
  from startup_up [OF a assms] obtain a1 where a1: "startup None a = Inr a1" "app_ok a1" "all_up a1"
      "dl_engine (ap_database a1)"
      "(ap_pool a1 \<noteq> None \<longleftrightarrow> enable) \<and> (ap_manager a1 \<noteq> None \<longleftrightarrow> enable) \<and> (ap_scheduler a1 \<noteq> None \<longleftrightarrow> enable \<and> sched) \<and>
       pred_option (\<lambda>p. length (wp_workers p) = nat (worker_concurrency (numbers s)) \<and> bq_items (wp_queue p) = []) (ap_pool a1)"
    by blast
  have ready: "hs_code (health_ready s None a1 i) = 200"
    using a1(4) by (simp add: health_ready_def is_ready_def ping_def engine_of_def Let_def)
  have fail: "startup (Some e) a = Inl e" for e
    using create_app_ok(3) [OF assms a] by (simp add: startup_def database_connect_def ping_def engine_of_def)
  have ends: "case lifespan ends s None id now a of
       Inl e \<Rightarrow> False
     | Inr None \<Rightarrow> \<exists>i t. ends i t = None
     | Inr (Some (a2, now')) \<Rightarrow> all_down a2 \<and> now \<le> now' \<and> (\<forall>fault. hs_code (health_ready s fault a2 i) = 503)"
  proof (cases "shutdown ends (shutdown_grace_seconds (numbers s)) True now a1")
    case None
    with shutdown_None [OF None] show ?thesis by (simp add: lifespan_def a1(1))
  next
    case (Some r)
    obtain a2 now' where r: "r = (a2, now')" by (cases r)
    note down = shutdown_down [OF a1(2) Some [unfolded r]]
    from down(5) have "\<forall>fault. hs_code (health_ready s fault a2 i) = 503"
      by (simp add: health_ready_def is_ready_def Let_def)
    with down(1,2) Some r show ?thesis by (simp add: lifespan_def a1(1))
  qed
  show ?thesis using a a1(1,3,5) ready fail ends by blast
qed

theorem service_life_cycle_witness:
  "\<exists>s a a1. new_settings default_settings = Inr s \<and> create_app s (\<lambda>n. ''worker-'' @ digits_of n) True True = Inr a \<and>
     startup None a = Inr a1 \<and> all_up a1 \<and> ap_scheduler a1 \<noteq> None"
proof -
  obtain s where s: "new_settings default_settings = Inr s" using default_settings_accepted ..
  from service_life_cycle [OF s, of "\<lambda>n. ''worker-'' @ digits_of n" True True "''req-1''"] s show ?thesis by blast
qed

end
