(* ===== verification/Serving.thy ===== *)
theory Serving
  imports Middleware Job_Pages App
begin

section \<open>A request through the whole application (app.py)\<close>

text \<open>
  \<open>create_app\<close> adds \<open>MetricsMiddleware\<close> and then \<open>RequestIDMiddleware\<close>; the one added last is the outer one. An
  \<open>HTTPException\<close> of a handler becomes a response inside both; any other exception passes both and is answered
  with 500 by the server, outside them. A handler is a function of the request identifier, as it takes it from
  the state of the request, and of the database.
\<close>

subsection \<open>The stack\<close>

datatype 'b reply = Answer nat 'b | Unhandled exn

definition chosen_request_id :: "string option \<Rightarrow> string \<Rightarrow> string" where
  "chosen_request_id given fresh = (if truthy_header given then the given else fresh)"

text \<open>The messages of an application that answers: the start of the response and its body.\<close>

definition asgi_messages :: "int \<Rightarrow> 'b reply \<Rightarrow> (message \<times> int) list \<times> exn option" where
  "asgi_messages t r =
     (case r of
        Answer status b \<Rightarrow> ([(Response_start (Some status), t), (Other_message, t)], None)
      | Unhandled e \<Rightarrow> ([], Some e))"

definition response_of_messages :: "message list \<times> exn option \<Rightarrow> exn + http_response" where
  "response_of_messages run =
     (case snd run of
        Some e \<Rightarrow> Inl e
      | None \<Rightarrow>
          (case List.map_filter start_status (fst run) of
             [] \<Rightarrow> Inl (Exn RuntimeError ''No response returned.'')
           | s # ss \<Rightarrow> Inr \<lparr>rs_status = s, rs_headers = []\<rparr>))"

record 'b served =
  sv_status :: nat
  sv_headers :: "(string \<times> string) list"
  sv_body :: "'b option"
  sv_database :: db
  sv_metrics :: metrics
  sv_log :: "log_call list"
  sv_context :: log_value

definition serve ::
  "string option \<Rightarrow> string \<Rightarrow> string \<Rightarrow> string \<Rightarrow> int \<Rightarrow> (string \<Rightarrow> db \<Rightarrow> 'b reply \<times> db) \<Rightarrow> db \<Rightarrow> metrics
     \<Rightarrow> log_value \<Rightarrow> 'b served" where
  "serve given fresh meth path duration handler d m ctx =
     (let (r, d') = handler (chosen_request_id given fresh) d;
          (m', sent, outcome) = metrics_call ''http'' (Some meth) (Some path) (asgi_messages duration r) m;
          (res, calls, ctx') =
            request_id_dispatch given fresh meth path duration (\<lambda>_. response_of_messages (sent, outcome)) ctx
      in \<lparr>sv_status = (case res of Inl e \<Rightarrow> 500 | Inr resp \<Rightarrow> rs_status resp),
          sv_headers = (case res of Inl e \<Rightarrow> [] | Inr resp \<Rightarrow> rs_headers resp),
          sv_body = (case r of Answer s b \<Rightarrow> Some b | Unhandled e \<Rightarrow> None),
          sv_database = d', sv_metrics = m', sv_log = calls, sv_context = ctx'\<rparr>)"

subsection \<open>The handlers behind it\<close>

datatype create_body = Job_body (jb_job_id: uuid) (jb_status: string) | Create_error string

text \<open>Created jobs are answered with the declared 202; a replay is a \<open>JSONResponse\<close> with 200 and a fixed status.\<close>

definition create_reply :: "http_exn + create_response \<Rightarrow> create_body reply" where
  "create_reply r =
     (case r of
        Inr (Created j) \<Rightarrow> Answer 202 (Job_body j (task_status_value PENDING))
      | Inr (Replayed j) \<Rightarrow> Answer 200 (Job_body j (task_status_value PENDING))
      | Inl (HTTP s msg) \<Rightarrow> Answer s (Create_error msg))"

definition post_jobs :: "api_env \<Rightarrow> create_request \<Rightarrow> string \<Rightarrow> db \<Rightarrow> create_body reply \<times> db" where
  "post_jobs env req request_id d =
     (let (r, d') = create_job env (req\<lparr>cr_request_id := request_id\<rparr>) d in (create_reply r, d'))"

text \<open>The payload: without the key \<open>domains\<close> the list is empty, which the handler refuses.\<close>

definition payload_domains :: "string list option \<Rightarrow> string list" where
  "payload_domains given = (case given of None \<Rightarrow> [] | Some ds \<Rightarrow> ds)"

definition get_jobs ::
  "lenient_parsers \<Rightarrow> page_settings \<Rightarrow> uuid \<Rightarrow> int option \<Rightarrow> string option \<Rightarrow> string \<Rightarrow> db
     \<Rightarrow> (string + job_response) reply \<times> db" where
  "get_jobs lp st i limit cursor request_id d =
     (case read_job lp st i limit cursor d of
        Inr page \<Rightarrow> Answer 200 (Inr page)
      | Inl (HTTP s msg) \<Rightarrow>
          if s = 500 then Unhandled (Exn OtherError msg) else Answer s (Inl msg), d)"

definition get_health_ready :: "app_settings \<Rightarrow> exn option \<Rightarrow> app \<Rightarrow> string \<Rightarrow> db \<Rightarrow> health reply \<times> db" where
  "get_health_ready s fault a request_id d =
     (let h = health_ready s fault a request_id in (Answer (hs_code h) h, d))"

subsection \<open>What a client and an operator see\<close>

lemma dispatch_response:
  "request_id_dispatch given fresh meth path duration (\<lambda>_. Inr resp) ctx =
     (Inr (resp\<lparr>rs_headers := set_header request_id_header (chosen_request_id given fresh) (rs_headers resp)\<rparr>),
      fst (snd (request_id_dispatch given fresh meth path duration (\<lambda>_. Inr resp) ctx)), ctx)"
  "request_id_dispatch given fresh meth path duration (\<lambda>_. Inl e) ctx =
     (Inl e, fst (snd (request_id_dispatch given fresh meth path duration (\<lambda>_. Inl e) ctx)), ctx)"
  by (auto simp: request_id_dispatch_def chosen_request_id_def truthy_header_def Let_def split: option.split)

lemma dispatch_events:
  "map lc_event (fst (snd (request_id_dispatch given fresh meth path duration (\<lambda>_. res) ctx))) =
     [''request.started'', (case res of Inl e \<Rightarrow> ''request.failed'' | Inr resp \<Rightarrow> ''request.completed'')]"
  "\<forall>c \<in> set (fst (snd (request_id_dispatch given fresh meth path duration (\<lambda>_. res) ctx))).
     map_of (lc_fields c) ''request_id'' = Some (Text (chosen_request_id given fresh))"
  by (cases res; auto simp: request_id_dispatch_def chosen_request_id_def truthy_header_def Let_def split: option.split)+

lemma serve_answer:
  assumes "handler (chosen_request_id given fresh) d = (Answer s b, d')"
  shows "\<exists>calls. serve given fresh meth path duration handler d m ctx =
      \<lparr>sv_status = s, sv_headers = [(request_id_header, chosen_request_id given fresh)], sv_body = Some b,
       sv_database = d',
       sv_metrics = send_wrapper meth path (Response_start (Some s), duration) m, sv_log = calls, sv_context = ctx\<rparr> \<and>
    map lc_event calls = [''request.started'', ''request.completed''] \<and>
    (\<forall>c \<in> set calls. map_of (lc_fields c) ''request_id'' = Some (Text (chosen_request_id given fresh)))"
proof -
  let ?resp = "\<lparr>rs_status = s, rs_headers = []\<rparr> :: http_response"
  have call: "metrics_call ''http'' (Some meth) (Some path) (asgi_messages duration (Answer s b)) m =
      (send_wrapper meth path (Response_start (Some s), duration) m, [Response_start (Some s), Other_message], None)"
    by (simp add: metrics_call_def asgi_messages_def send_wrapper_def)
  have resp: "response_of_messages ([Response_start (Some s), Other_message], None) = Inr ?resp"
    by (simp add: response_of_messages_def map_filter_simps)
  show ?thesis
    using dispatch_response(1) [of given fresh meth path duration ?resp ctx]
      dispatch_events [of given fresh meth path duration "Inr ?resp" ctx]
    by (auto simp: serve_def assms call resp split: prod.splits)
qed

lemma serve_unhandled:
  assumes "handler (chosen_request_id given fresh) d = (Unhandled e, d')"
  shows "\<exists>calls. serve given fresh meth path duration handler d m ctx =
      \<lparr>sv_status = 500, sv_headers = [], sv_body = None, sv_database = d', sv_metrics = m, sv_log = calls,
       sv_context = ctx\<rparr> \<and>
    map lc_event calls = [''request.started'', ''request.failed''] \<and>
    (\<forall>c \<in> set calls. map_of (lc_fields c) ''request_id'' = Some (Text (chosen_request_id given fresh)))"
proof -
  have call: "metrics_call ''http'' (Some meth) (Some path) (asgi_messages duration (Unhandled e :: 'a reply)) m =
      (m, [], Some e)"
    by (simp add: metrics_call_def asgi_messages_def)
  have resp: "response_of_messages ([], Some e) = Inl e"
    by (simp add: response_of_messages_def)
  show ?thesis
    using dispatch_response(2) [of given fresh meth path duration e ctx]
      dispatch_events [of given fresh meth path duration "Inl e" ctx]
    by (auto simp: serve_def assms call resp split: prod.splits)
qed

lemma create_or_replay_http:
  "create_or_replay env req w = Inl (Inl h) \<Longrightarrow> http_status h = 409"
  by (auto simp: create_or_replay_def create_job_with_key_def split: option.splits list.splits sum.splits if_splits)

lemma try_create_http: "try_create env req w = Inl (Inl h) \<Longrightarrow> http_status h = 409"
  by (auto simp: try_create_def Let_def split: sum.splits prod.splits if_splits dest: create_or_replay_http)

lemma create_job_status:
  "create_job env req d = (Inl (HTTP s msg), d') \<Longrightarrow> s \<in> {400, 409, 413, 500, 503}"
  using try_create_http [of env req d "HTTP s msg"]
  by (auto simp: create_job_def refusal_def answered_def split: if_splits sum.splits prod.splits)

lemma create_job_replayed: "create_job env req d = (Inr (Replayed j), d') \<Longrightarrow> d' = d"
proof -
  assume "create_job env req d = (Inr (Replayed j), d')"
  from create_job_success(1) [OF this] show ?thesis
    by (auto simp: try_create_def Let_def split: sum.splits prod.splits if_splits dest!: create_or_replay_cases)
qed

lemma send_wrapper_start:
  "api_requests_total (send_wrapper meth path (Response_start (Some s), t) m) =
     (api_requests_total m)((meth, path, digits_of s) := Suc (api_requests_total m (meth, path, digits_of s)))"
  by (simp add: send_wrapper_def record_api_request_def record_api_error_def Let_def)

text \<open>
  C13. A request for a job through the whole stack: the answer has one of seven statuses and carries the
  identifier of the request, both log events have it, the context variable is restored, and exactly the counter of
  the method, the path and the status is raised by one. The status tells what happened to the database: with 202 it
  has gained exactly one job, the one named in the body, PENDING as the body says; with any other status it is
  untouched, whatever the reason.
\<close>

theorem post_jobs_served:
  assumes "schema_ok d"
  shows "let sv = serve given fresh ''POST'' ''/jobs'' duration (post_jobs env req) d m ctx;
             i = chosen_request_id given fresh;
             k = (''POST'', ''/jobs'', digits_of (sv_status sv)) in
    sv_status sv \<in> {200, 202, 400, 409, 413, 500, 503} \<and>
    sv_headers sv = [(request_id_header, i)] \<and> sv_context sv = ctx \<and>
    map lc_event (sv_log sv) = [''request.started'', ''request.completed''] \<and>
    (\<forall>c \<in> set (sv_log sv). map_of (lc_fields c) ''request_id'' = Some (Text i)) \<and>
    api_requests_total (sv_metrics sv) = (api_requests_total m)(k := Suc (api_requests_total m k)) \<and>
    (if sv_status sv = 202
     then \<exists>j. sv_body sv = Some (Job_body j ''PENDING'') \<and> schema_ok (sv_database sv) \<and>
       db_jobs (sv_database sv) = db_jobs d @ [new_job j (ae_now env)] \<and>
       get_job j (sv_database sv) = Some (new_job j (ae_now env))
     else sv_database sv = d)"
proof -
  let ?i = "chosen_request_id given fresh"
  let ?req = "req\<lparr>cr_request_id := ?i\<rparr>"
  obtain r d' where run: "create_job env ?req d = (r, d')" by fastforce
  have reply: "\<exists>s b. create_reply r = Answer s b \<and> s \<in> {200, 202, 400, 409, 413, 500, 503} \<and>
      (if s = 202 then \<exists>j. r = Inr (Created j) \<and> b = Job_body j ''PENDING'' else d' = d)"
  proof (cases r)
    case (Inl h)
    then obtain s msg where h: "r = Inl (HTTP s msg)" by (cases h) auto
    with create_job_status [of env ?req d s msg d'] create_job_failure [of env ?req d] run
    show ?thesis by (auto simp: create_reply_def)
  next
    case (Inr resp)
    with create_job_replayed [of env ?req d] run show ?thesis
      by (cases resp) (auto simp: create_reply_def)
  qed
  then obtain s b where sb: "create_reply r = Answer s b" "s \<in> {200, 202, 400, 409, 413, 500, 503}"
    "if s = 202 then \<exists>j. r = Inr (Created j) \<and> b = Job_body j ''PENDING'' else d' = d" by blast
  have made: "\<exists>j. b = Job_body j ''PENDING'' \<and> schema_ok d' \<and> db_jobs d' = db_jobs d @ [new_job j (ae_now env)] \<and>
      get_job j d' = Some (new_job j (ae_now env))" if "s = 202"
  proof -
    from that sb(3) obtain j where j: "r = Inr (Created j)" "b = Job_body j ''PENDING''" by auto
    from create_job_success(1) [OF run [unfolded j(1)]]
    have created: "try_create env ?req d = Inr (Created j, d')" .
    from try_create_Created [OF assms created] obtain w1 where w1: "schema_ok w1"
      "create_domains_and_tasks env j (accepted env ?req) (refused env ?req) w1 = Inr d'"
      "db_jobs w1 = db_jobs d @ [new_job j (ae_now env)]" by metis
    from create_domains_and_tasks_effect [OF w1(1,2)] w1(3)
    have "schema_ok d'" "db_jobs d' = db_jobs d @ [new_job j (ae_now env)]" by auto
    moreover from this have "get_job j d' = Some (new_job j (ae_now env))"
      using find_by_member [of j_id "db_jobs d'" "new_job j (ae_now env)"]
      by (simp add: get_job_def schema_ok_def keys_ok_def new_job_def)
    ultimately show ?thesis using j(2) by blast
  qed
  have h: "post_jobs env req ?i d = (Answer s b, d')" by (simp add: post_jobs_def run sb(1))
  from serve_answer [of "post_jobs env req", OF h, of "''POST''" "''/jobs''" duration m ctx]
  show ?thesis
    using sb(2,3) made by (auto simp: Let_def send_wrapper_start)
qed

theorem post_jobs_served_witness:
  "sv_headers (serve None ''r9'' ''POST'' ''/jobs'' 5 (post_jobs demo_api demo_request) empty_db new_metrics No_value) =
     [(request_id_header, ''r9'')]"
  using post_jobs_served [OF schema_ok_empty, of None "''r9''" 5 demo_api demo_request new_metrics No_value]
  by (simp add: Let_def chosen_request_id_def truthy_header_def)

text \<open>Without domains, whether the key is missing or its list is empty, the answer is 400.\<close>

lemma no_domains_refused:
  assumes "cr_domains req = payload_domains given" and "given = None \<or> given = Some []"
    and "\<not> ae_shutting_down env"
  shows "post_jobs env req i d = (Answer 400 (Create_error ''domains list cannot be empty''), d)"
  using assms by (auto simp: post_jobs_def create_job_def refusal_def payload_domains_def create_reply_def)

text \<open>
  What goes wrong unseen: a cursor that is valid base64 and JSON but no object of two texts makes the handler
  of a page raise something it does not catch. The client then gets 500 without the identifier of the request, and
  no counter moves, neither the one of requests nor the one of errors; only the log shows the request.
\<close>

theorem uncaught_cursor_unseen:
  assumes "get_job i d \<noteq> None" and "cursor_decode lp text = Uncaught" and "0 < ps_default_page_size st"
  shows "\<exists>calls. serve given fresh ''GET'' path duration (get_jobs lp st i None (Some text)) d m ctx =
    \<lparr>sv_status = 500, sv_headers = [], sv_body = None, sv_database = d, sv_metrics = m, sv_log = calls,
     sv_context = ctx\<rparr> \<and> map lc_event calls = [''request.started'', ''request.failed'']"
proof -
  have "read_job lp st i None (Some text) d = Inl (HTTP 500 ''Internal Server Error'')"
    using assms by (auto simp: read_job_def Let_def)
  then have "get_jobs lp st i None (Some text) (chosen_request_id given fresh) d =
      (Unhandled (Exn OtherError ''Internal Server Error''), d)" by (simp add: get_jobs_def)
  from serve_unhandled [of "get_jobs lp st i None (Some text)", OF this, of "''GET''" path duration m ctx]
  show ?thesis by auto
qed

theorem uncaught_cursor_unseen_witness:
  "sv_status (serve None ''r9'' ''GET'' ''/jobs/1'' 5 (get_jobs strict_parsers demo_page_settings 1 None (Some ''W10='')) two_tasks
     new_metrics No_value) = 500"
proof -
  have "get_job 1 two_tasks \<noteq> None"
    by (simp add: two_tasks_def get_job_def row_simps demo_defs)
  moreover have "cursor_decode strict_parsers ''W10='' = Uncaught"
  proof -
    have "b64_encode [91, 93] = cps ''W10=''" by (simp add: b64_char_def cps_def)
    then have "b64_decode (utf8_encode (cps ''W10='')) = Some [91, 93]"
      using b64_round_trip [of "[91, 93]"] utf8_encode_ascii [OF b64_encode_ascii, of "[91, 93]"] by simp
    moreover have "utf8_decode [91, 93] = Some [91, 93]" by (rule utf8_decode_ascii) simp
    moreover have "json_value (Suc n) [91, 93] = Parsed (JArr []) []" for n
      by (simp add: skip_ws_def json_space_def)
    from this [of 4] have "json_loads [91, 93] = Parsed (JArr []) []"
      by (simp add: json_loads_def skip_ws_def json_space_def)
    ultimately show ?thesis by (simp add: cursor_decode_def cursor_of_json_def)
  qed
  moreover have "0 < ps_default_page_size demo_page_settings" by (simp add: demo_page_settings_def)
  ultimately have "\<exists>calls. serve None ''r9'' ''GET'' ''/jobs/1'' 5
      (get_jobs strict_parsers demo_page_settings 1 None (Some ''W10='')) two_tasks new_metrics No_value =
    \<lparr>sv_status = 500, sv_headers = [], sv_body = None, sv_database = two_tasks, sv_metrics = new_metrics,
     sv_log = calls, sv_context = No_value\<rparr> \<and> map lc_event calls = [''request.started'', ''request.failed'']"
    by (rule uncaught_cursor_unseen)
  then show ?thesis by auto
qed

end
