(* ===== verification/Signals.thy ===== *)
theory Signals
  imports App
begin

section \<open>Signals and the global coordinator (shutdown.py)\<close>

text \<open>
  The part of \<open>shutdown.py\<close> that belongs to the process and not to one application: the module variables
  \<open>_signal_handlers_installed\<close> and \<open>_shutdown_coordinator\<close>, the handlers of the event loop, and the event that a
  signal sets. A process may build several applications (the tests do); a coordinator is named by its position.
\<close>

record coordinator =
  co_state :: shutdown_state
  co_event :: bool

record signal_process =
  sp_installed :: bool
  sp_handlers :: "int \<rightharpoonup> nat"
  sp_coordinators :: "coordinator list"
  sp_global :: "nat option"

definition new_coordinator :: coordinator where
  "new_coordinator = \<lparr>co_state = initial_shutdown_state, co_event = False\<rparr>"

definition new_process :: signal_process where
  "new_process = \<lparr>sp_installed = False, sp_handlers = Map.empty, sp_coordinators = [], sp_global = None\<rparr>"

definition sigterm :: int where "sigterm = 15"
definition sigint :: int where "sigint = 2"

text \<open>
  \<open>declined\<close> are the signals for which \<open>add_signal_handler\<close> raises one of the caught exceptions (on Windows, or
  outside the main thread). The flag is set all the same.
\<close>

definition install_signal_handlers :: "(int \<Rightarrow> bool) \<Rightarrow> nat \<Rightarrow> signal_process \<Rightarrow> signal_process" where
  "install_signal_handlers declined i p =
     (if sp_installed p then p
      else
        p\<lparr>sp_handlers := fold (\<lambda>sig h. if declined sig then h else h(sig \<mapsto> i)) [sigterm, sigint] (sp_handlers p),
          sp_installed := True\<rparr>)"

text \<open>\<open>_on_signal\<close>: the second and later signals are ignored; the first also sets the event.\<close>

definition coordinator_on_signal :: "int \<Rightarrow> coordinator \<Rightarrow> coordinator" where
  "coordinator_on_signal sig c =
     (if ss_initiated (co_state c) then c else \<lparr>co_state = on_signal sig (co_state c), co_event = True\<rparr>)"

definition update_coordinator :: "nat \<Rightarrow> (coordinator \<Rightarrow> coordinator) \<Rightarrow> signal_process \<Rightarrow> signal_process" where
  "update_coordinator i f p =
     (if i < length (sp_coordinators p)
      then p\<lparr>sp_coordinators := (sp_coordinators p)[i := f (sp_coordinators p ! i)]\<rparr> else p)"

definition deliver_signal :: "int \<Rightarrow> signal_process \<Rightarrow> signal_process" where
  "deliver_signal sig p =
     (case sp_handlers p sig of None \<Rightarrow> p | Some i \<Rightarrow> update_coordinator i (coordinator_on_signal sig) p)"

text \<open>\<open>wait_for_shutdown\<close> returns exactly when the event is set.\<close>

definition wait_for_shutdown :: "coordinator \<Rightarrow> unit option" where
  "wait_for_shutdown c = (if co_event c then Some () else None)"

definition get_shutdown_coordinator :: "signal_process \<Rightarrow> nat option" where
  "get_shutdown_coordinator p = sp_global p"

definition set_shutdown_coordinator :: "nat option \<Rightarrow> signal_process \<Rightarrow> signal_process" where
  "set_shutdown_coordinator i p = p\<lparr>sp_global := i\<rparr>"

text \<open>The module function, not the property of a coordinator.\<close>

definition is_shutting_down_global :: "signal_process \<Rightarrow> bool" where
  "is_shutting_down_global p =
     (case get_shutdown_coordinator p of
        None \<Rightarrow> False
      | Some i \<Rightarrow> is_shutting_down (co_state (sp_coordinators p ! i)))"

subsection \<open>What happens in a process\<close>

text \<open>
  The calls the program makes: \<open>create_app\<close> builds a coordinator, the start of its lifespan installs the
  handlers, signals arrive, and the end of a lifespan runs the shutdown. Nothing under src/ calls
  \<open>set_shutdown_coordinator\<close> or \<open>wait_for_shutdown\<close>.
\<close>

inductive process_step :: "signal_process \<Rightarrow> signal_process \<Rightarrow> bool" where
  step_create_app: "process_step p (p\<lparr>sp_coordinators := sp_coordinators p @ [new_coordinator]\<rparr>)"
| step_startup: "i < length (sp_coordinators p) \<Longrightarrow> process_step p (install_signal_handlers declined i p)"
| step_signal: "process_step p (deliver_signal sig p)"
| step_lifespan_end:
    "i < length (sp_coordinators p) \<Longrightarrow> ap_shutdown a = co_state (sp_coordinators p ! i) \<Longrightarrow>
     shutdown ends grace True now a = Some (a', now') \<Longrightarrow>
     process_step p (update_coordinator i (\<lambda>c. c\<lparr>co_state := ap_shutdown a'\<rparr>) p)"

definition coordinator_ok :: "coordinator \<Rightarrow> bool" where
  "coordinator_ok c \<longleftrightarrow>
     (co_event c \<longrightarrow> ss_initiated (co_state c)) \<and> (ss_signal (co_state c) \<noteq> None \<longleftrightarrow> co_event c)"

definition process_ok :: "signal_process \<Rightarrow> bool" where
  "process_ok p \<longleftrightarrow>
     sp_global p = None \<and> list_all coordinator_ok (sp_coordinators p) \<and>
     (\<not> sp_installed p \<longrightarrow> sp_handlers p = Map.empty) \<and>
     (\<exists>i. ran (sp_handlers p) \<subseteq> {i} \<and> (ran (sp_handlers p) \<noteq> {} \<longrightarrow> i < length (sp_coordinators p)))"

lemma shutdown_state_after:
  assumes "shutdown ends grace db now a = Some (a', now')"
  shows "ss_initiated (ap_shutdown a')" "ss_signal (ap_shutdown a') = ss_signal (ap_shutdown a)"
    "ss_completed (ap_shutdown a')"
  using assms by (auto simp: shutdown_def Let_def split: option.splits prod.splits if_splits)

lemma install_handlers:
  "sp_handlers (install_signal_handlers declined i p) =
     (if sp_installed p then sp_handlers p
      else (\<lambda>sig. if (sig = sigterm \<or> sig = sigint) \<and> \<not> declined sig then Some i else sp_handlers p sig))"
  "sp_coordinators (install_signal_handlers declined i p) = sp_coordinators p"
  "sp_global (install_signal_handlers declined i p) = sp_global p"
  "sp_installed (install_signal_handlers declined i p)"
  by (auto simp: install_signal_handlers_def fun_eq_iff)

lemma update_coordinator_simps [simp]:
  "sp_handlers (update_coordinator i f p) = sp_handlers p"
  "sp_installed (update_coordinator i f p) = sp_installed p"
  "sp_global (update_coordinator i f p) = sp_global p"
  "length (sp_coordinators (update_coordinator i f p)) = length (sp_coordinators p)"
  by (simp_all add: update_coordinator_def)

lemma process_ok_update:
  assumes "process_ok p" and "i < length (sp_coordinators p) \<Longrightarrow> coordinator_ok (f (sp_coordinators p ! i))"
  shows "process_ok (update_coordinator i f p)"
proof -
  have "list_all coordinator_ok (sp_coordinators (update_coordinator i f p))"
    using assms by (auto simp: update_coordinator_def process_ok_def list_all_length nth_list_update)
  with assms(1) show ?thesis by (simp add: process_ok_def)
qed

lemma process_ok_step: "process_step p q \<Longrightarrow> process_ok p \<Longrightarrow> process_ok q"
proof (induction rule: process_step.induct)
  case (step_create_app p)
  then show ?case
    by (auto simp: process_ok_def new_coordinator_def coordinator_ok_def initial_shutdown_state_def intro: less_SucI)
next
  case (step_startup i p declined)
  show ?case
  proof (cases "sp_installed p")
    case True
    with step_startup show ?thesis by (simp add: install_signal_handlers_def)
  next
    case False
    with step_startup have "ran (sp_handlers (install_signal_handlers declined i p)) \<subseteq> {i}"
      by (auto simp: install_handlers process_ok_def ran_def split: if_splits)
    moreover have "sp_global p = None" "list_all coordinator_ok (sp_coordinators p)"
      using step_startup by (simp_all add: process_ok_def)
    ultimately show ?thesis
      unfolding process_ok_def using step_startup(1) install_handlers by (intro conjI exI [of _ i]) simp_all
  qed
next
  case (step_signal p sig)
  show ?case
  proof (cases "sp_handlers p sig")
    case None
    with step_signal show ?thesis by (simp add: deliver_signal_def)
  next
    case (Some i)
    have "process_ok (update_coordinator i (coordinator_on_signal sig) p)"
      using step_signal
      by (intro process_ok_update)
        (auto simp: process_ok_def list_all_length coordinator_on_signal_def coordinator_ok_def on_signal_def)
    with Some show ?thesis by (simp add: deliver_signal_def)
  qed
next
  case (step_lifespan_end i p a ends grace now a' now')
  note after = shutdown_state_after [OF step_lifespan_end(3)]
  show ?case
    using step_lifespan_end after
    by (intro process_ok_update) (auto simp: process_ok_def list_all_length coordinator_ok_def)
qed

lemma process_reachable: "process_step\<^sup>*\<^sup>* new_process p \<Longrightarrow> process_ok p"
proof (induction rule: rtranclp_induct)
  case base
  show ?case by (auto simp: process_ok_def new_process_def)
next
  case (step p q)
  then show ?case by (blast intro: process_ok_step)
qed

text \<open>
  Whatever a process does: the module function \<open>is_shutting_down()\<close> answers False, even when every
  application is shutting down, because nothing registers a coordinator; at most one application hears
  signals, and once any start-up has tried to install the handlers (even if it was refused) no other ever will;
  the event a coordinator could be waited for is set exactly by a signal, never by an explicit shutdown.
\<close>

theorem signals_in_a_process:
  assumes "process_step\<^sup>*\<^sup>* new_process p"
  shows "\<not> is_shutting_down_global p \<and>
    (\<exists>i. \<forall>sig. deliver_signal sig p = p \<or> deliver_signal sig p = update_coordinator i (coordinator_on_signal sig) p) \<and>
    (sp_installed p \<longrightarrow> (\<forall>declined j. install_signal_handlers declined j p = p)) \<and>
    (\<forall>c \<in> set (sp_coordinators p).
       (wait_for_shutdown c = Some () \<longleftrightarrow> ss_signal (co_state c) \<noteq> None) \<and>
       (wait_for_shutdown c = Some () \<longrightarrow> is_shutting_down (co_state c)))"
proof -
  from process_reachable [OF assms] have ok: "process_ok p" .
  then obtain i where i: "ran (sp_handlers p) \<subseteq> {i}" by (auto simp: process_ok_def)
  have "deliver_signal sig p = p \<or> deliver_signal sig p = update_coordinator i (coordinator_on_signal sig) p" for sig
    using i by (auto simp: deliver_signal_def ran_def split: option.split)
  moreover have "\<not> is_shutting_down_global p"
    using ok by (simp add: process_ok_def is_shutting_down_global_def get_shutdown_coordinator_def)
  moreover have "\<forall>c \<in> set (sp_coordinators p). coordinator_ok c"
    using ok by (simp add: process_ok_def list_all_iff)
  ultimately show ?thesis
    by (auto simp: install_signal_handlers_def coordinator_ok_def wait_for_shutdown_def is_shutting_down_def)
qed

text \<open>Two applications in one process, the signal reaching the first only.\<close>

definition two_apps :: signal_process where
  "two_apps =
     deliver_signal sigterm
       (install_signal_handlers (\<lambda>_. False) 1
          (install_signal_handlers (\<lambda>_. False) 0 (new_process\<lparr>sp_coordinators := [new_coordinator, new_coordinator]\<rparr>)))"

lemma two_apps_reachable: "process_step\<^sup>*\<^sup>* new_process two_apps"
proof -
  let ?p1 = "new_process\<lparr>sp_coordinators := [new_coordinator]\<rparr>"
  let ?p2 = "new_process\<lparr>sp_coordinators := [new_coordinator, new_coordinator]\<rparr>"
  let ?p3 = "install_signal_handlers (\<lambda>_. False) 0 ?p2"
  have "process_step new_process ?p1" using step_create_app [of new_process] by (simp add: new_process_def)
  moreover have "process_step ?p1 ?p2" using step_create_app [of ?p1] by (simp add: new_process_def)
  moreover have "process_step ?p2 ?p3" by (rule step_startup) simp
  moreover have "process_step ?p3 (install_signal_handlers (\<lambda>_. False) 1 ?p3)"
    by (rule step_startup) (simp add: install_handlers)
  moreover have "process_step (install_signal_handlers (\<lambda>_. False) 1 ?p3) two_apps"
    unfolding two_apps_def by (rule step_signal)
  ultimately show ?thesis by (meson rtranclp.rtrancl_into_rtrancl rtranclp.rtrancl_refl)
qed

theorem signals_in_a_process_witness:
  "\<not> is_shutting_down_global two_apps \<and>
   map (\<lambda>c. is_shutting_down (co_state c)) (sp_coordinators two_apps) = [True, False]"
proof -
  have "map (\<lambda>c. is_shutting_down (co_state c)) (sp_coordinators two_apps) = [True, False]"
    by code_simp
  with signals_in_a_process [OF two_apps_reachable] show ?thesis by blast
qed

end
