(* ===== verification/Migrations.thy ===== *)
theory Migrations
  imports Model
begin

section \<open>The migrations (alembic/versions) and the schema of models.py\<close>

text \<open>
  A catalog is what PostgreSQL knows of the schema: enum types, and tables with their columns, keys and indexes.
  The operations of alembic that the migrations use change it or fail, as the database does; a migration is a
  sequence of them in one transaction. Of the data only the column that a migration deletes rows by is kept.
  The tables that \<open>models.py\<close> declares are a second catalog, to compare with.
\<close>

subsection \<open>Catalogs\<close>

datatype column_type = Uuid_type | Timestamptz | Varchar | Bool_type | Int4 | Jsonb | Enum_type string

record column =
  cn_name :: string
  cn_type :: column_type
  cn_nullable :: bool

record foreign_key =
  fk_columns :: "string list"
  fk_table :: string
  fk_target :: "string list"
  fk_ondelete :: string

record index =
  ix_name :: string
  ix_columns :: "string list"
  ix_unique :: bool

record table =
  tb_name :: string
  tb_columns :: "column list"
  tb_primary_key :: "string list"
  tb_foreign_keys :: "foreign_key list"
  tb_uniques :: "(string \<times> string list) list"
  tb_indexes :: "index list"

record catalog =
  ct_enums :: "(string \<times> string list) list"
  ct_tables :: "table list"
  ct_idempotency_job_ids :: "uuid option list"

definition empty_catalog :: catalog where
  "empty_catalog = \<lparr>ct_enums = [], ct_tables = [], ct_idempotency_job_ids = []\<rparr>"

abbreviation required :: "string \<Rightarrow> column_type \<Rightarrow> column" where
  "required n ty \<equiv> \<lparr>cn_name = n, cn_type = ty, cn_nullable = False\<rparr>"

abbreviation optional :: "string \<Rightarrow> column_type \<Rightarrow> column" where
  "optional n ty \<equiv> \<lparr>cn_name = n, cn_type = ty, cn_nullable = True\<rparr>"

abbreviation references :: "string \<Rightarrow> string \<Rightarrow> foreign_key" where
  "references c t \<equiv> \<lparr>fk_columns = [c], fk_table = t, fk_target = [''id''], fk_ondelete = ''RESTRICT''\<rparr>"

definition find_table :: "string \<Rightarrow> catalog \<Rightarrow> table option" where
  "find_table n c = find (\<lambda>t. tb_name t = n) (ct_tables c)"

definition has_column :: "string \<Rightarrow> table \<Rightarrow> bool" where
  "has_column n t \<longleftrightarrow> list_ex (\<lambda>k. cn_name k = n) (tb_columns t)"

definition put_table :: "table \<Rightarrow> catalog \<Rightarrow> catalog" where
  "put_table t c = c\<lparr>ct_tables := map (\<lambda>u. if tb_name u = tb_name t then t else u) (ct_tables c)\<rparr>"

definition type_known :: "catalog \<Rightarrow> column_type \<Rightarrow> bool" where
  "type_known c ty = (case ty of Enum_type e \<Rightarrow> e \<in> fst ` set (ct_enums c) | _ \<Rightarrow> True)"

definition reference_ok :: "catalog \<Rightarrow> foreign_key \<Rightarrow> bool" where
  "reference_ok c k =
     (case find_table (fk_table k) c of None \<Rightarrow> False | Some t \<Rightarrow> fk_target k = tb_primary_key t)"

definition index_names :: "catalog \<Rightarrow> string list" where
  "index_names c = concat (map (\<lambda>t. map ix_name (tb_indexes t)) (ct_tables c))"

subsection \<open>Operations\<close>

type_synonym operation = "catalog \<Rightarrow> string + catalog"

text \<open>With \<open>checkfirst\<close>: a type that exists is left alone, one that does not is not dropped.\<close>

definition create_enum :: "string \<Rightarrow> string list \<Rightarrow> operation" where
  "create_enum n vs c =
     (if n \<in> fst ` set (ct_enums c) then Inr c else Inr (c\<lparr>ct_enums := ct_enums c @ [(n, vs)]\<rparr>))"

definition drop_enum :: "string \<Rightarrow> operation" where
  "drop_enum n c =
     (if n \<notin> fst ` set (ct_enums c) then Inr c
      else if list_ex (\<lambda>t. list_ex (\<lambda>k. cn_type k = Enum_type n) (tb_columns t)) (ct_tables c)
      then Inl ''other objects depend on the type''
      else Inr (c\<lparr>ct_enums := filter (\<lambda>e. fst e \<noteq> n) (ct_enums c)\<rparr>))"

definition create_table :: "table \<Rightarrow> operation" where
  "create_table t c =
     (if find_table (tb_name t) c \<noteq> None then Inl ''table exists''
      else if \<not> list_all (\<lambda>k. type_known c (cn_type k)) (tb_columns t) then Inl ''type does not exist''
      else if \<not> list_all (reference_ok c) (tb_foreign_keys t) then Inl ''referenced table does not exist''
      else Inr (c\<lparr>ct_tables := ct_tables c @ [t]\<rparr>))"

definition drop_table :: "string \<Rightarrow> operation" where
  "drop_table n c =
     (if find_table n c = None then Inl ''table does not exist''
      else if list_ex (\<lambda>t. tb_name t \<noteq> n \<and> list_ex (\<lambda>k. fk_table k = n) (tb_foreign_keys t)) (ct_tables c)
      then Inl ''other objects depend on the table''
      else Inr (c\<lparr>ct_tables := filter (\<lambda>t. tb_name t \<noteq> n) (ct_tables c),
                  ct_idempotency_job_ids :=
                    (if n = ''idempotency_record'' then [] else ct_idempotency_job_ids c)\<rparr>))"

definition create_index :: "string \<Rightarrow> string \<Rightarrow> string list \<Rightarrow> bool \<Rightarrow> operation" where
  "create_index ix tbl cols unique c =
     (case find_table tbl c of
        None \<Rightarrow> Inl ''table does not exist''
      | Some t \<Rightarrow>
          if ix \<in> set (index_names c) then Inl ''index exists''
          else if \<not> list_all (\<lambda>k. has_column k t) cols then Inl ''column does not exist''
          else Inr (put_table
                 (t\<lparr>tb_indexes := tb_indexes t @ [\<lparr>ix_name = ix, ix_columns = cols, ix_unique = unique\<rparr>]\<rparr>) c))"

definition drop_index :: "string \<Rightarrow> string \<Rightarrow> operation" where
  "drop_index ix tbl c =
     (case find_table tbl c of
        None \<Rightarrow> Inl ''table does not exist''
      | Some t \<Rightarrow>
          if ix \<notin> ix_name ` set (tb_indexes t) then Inl ''index does not exist''
          else Inr (put_table (t\<lparr>tb_indexes := filter (\<lambda>i. ix_name i \<noteq> ix) (tb_indexes t)\<rparr>) c))"

text \<open>\<open>alter_column(nullable=...)\<close>: NOT NULL is refused while a row holds NULL.\<close>

definition alter_nullable :: "string \<Rightarrow> string \<Rightarrow> bool \<Rightarrow> operation" where
  "alter_nullable tbl col b c =
     (case find_table tbl c of
        None \<Rightarrow> Inl ''table does not exist''
      | Some t \<Rightarrow>
          if \<not> has_column col t then Inl ''column does not exist''
          else if \<not> b \<and> tbl = ''idempotency_record'' \<and> col = ''job_id'' \<and> None \<in> set (ct_idempotency_job_ids c)
          then Inl ''column contains null values''
          else Inr (put_table
                 (t\<lparr>tb_columns := map (\<lambda>k. if cn_name k = col then k\<lparr>cn_nullable := b\<rparr> else k) (tb_columns t)\<rparr>) c))"

definition delete_records_without_job :: operation where
  "delete_records_without_job c =
     (case find_table ''idempotency_record'' c of
        None \<Rightarrow> Inl ''table does not exist''
      | Some t \<Rightarrow> Inr (c\<lparr>ct_idempotency_job_ids := filter (\<lambda>j. j \<noteq> None) (ct_idempotency_job_ids c)\<rparr>))"

fun run_operations :: "operation list \<Rightarrow> operation" where
  "run_operations [] c = Inr c"
| "run_operations (op # ops) c = (case op c of Inl e \<Rightarrow> Inl e | Inr c' \<Rightarrow> run_operations ops c')"

subsection \<open>The tables of the initial schema\<close>

definition status_values :: "string list" where
  "status_values = [''PENDING'', ''PROCESSING'', ''COMPLETED'', ''FAILED'']"

definition type_values :: "string list" where
  "type_values = [''USER_REQUEST'', ''REFRESH'']"

definition job_table :: table where
  "job_table =
     \<lparr>tb_name = ''job'',
      tb_columns = [required ''id'' Uuid_type, required ''status'' (Enum_type ''task_status''),
                    required ''created_at'' Timestamptz, required ''updated_at'' Timestamptz],
      tb_primary_key = [''id''], tb_foreign_keys = [], tb_uniques = [], tb_indexes = []\<rparr>"

definition domain_table :: table where
  "domain_table =
     \<lparr>tb_name = ''domain'',
      tb_columns = [required ''id'' Uuid_type, required ''normalized_domain'' Varchar,
                    required ''is_active'' Bool_type, optional ''deactivated_at'' Timestamptz,
                    required ''created_at'' Timestamptz, required ''updated_at'' Timestamptz],
      tb_primary_key = [''id''], tb_foreign_keys = [], tb_uniques = [], tb_indexes = []\<rparr>"

definition task_table :: table where
  "task_table =
     \<lparr>tb_name = ''task'',
      tb_columns = [required ''id'' Uuid_type, optional ''job_id'' Uuid_type, required ''domain_id'' Uuid_type,
                    required ''type'' (Enum_type ''task_type''), required ''status'' (Enum_type ''task_status''),
                    required ''attempts'' Int4, required ''next_attempt_at'' Timestamptz,
                    optional ''lease_expires_at'' Timestamptz, optional ''error_payload'' Jsonb,
                    required ''created_at'' Timestamptz, required ''updated_at'' Timestamptz],
      tb_primary_key = [''id''],
      tb_foreign_keys = [references ''job_id'' ''job'', references ''domain_id'' ''domain''],
      tb_uniques = [], tb_indexes = []\<rparr>"

definition detail_table :: table where
  "detail_table =
     \<lparr>tb_name = ''domain_detail'',
      tb_columns = [required ''domain_id'' Uuid_type, required ''ip_addresses'' Jsonb, required ''dns_records'' Jsonb,
                    optional ''http_status'' Int4, optional ''page_title'' Varchar, optional ''response_time'' Int4,
                    required ''response_headers'' Jsonb, required ''fetched_at'' Timestamptz,
                    required ''next_refresh_at'' Timestamptz, required ''version'' Int4],
      tb_primary_key = [''domain_id''], tb_foreign_keys = [references ''domain_id'' ''domain''],
      tb_uniques = [], tb_indexes = []\<rparr>"

definition idempotency_table :: table where
  "idempotency_table =
     \<lparr>tb_name = ''idempotency_record'',
      tb_columns = [required ''id'' Uuid_type, required ''client_id'' Varchar, required ''idempotency_key'' Varchar,
                    required ''request_hash'' Varchar, required ''job_id'' Uuid_type,
                    required ''created_at'' Timestamptz],
      tb_primary_key = [''id''], tb_foreign_keys = [references ''job_id'' ''job''],
      tb_uniques = [(''uq_idempotency_record_client_id_idempotency_key'', [''client_id'', ''idempotency_key''])],
      tb_indexes = []\<rparr>"

subsection \<open>The migrations\<close>

definition upgrade_0001 :: operation where
  "upgrade_0001 = run_operations
     [create_enum ''task_status'' status_values,
      create_enum ''task_type'' type_values,
      create_table job_table,
      create_table domain_table,
      create_index ''idx_domain_normalized'' ''domain'' [''normalized_domain''] True,
      create_table task_table,
      create_index ''idx_tasks_claim'' ''task'' [''status'', ''next_attempt_at'', ''type''] False,
      create_index ''idx_tasks_lease'' ''task'' [''status'', ''lease_expires_at''] False,
      create_index ''idx_tasks_job_id'' ''task'' [''job_id''] False,
      create_table detail_table,
      create_index ''idx_domain_detail_refresh'' ''domain_detail'' [''next_refresh_at''] False,
      create_table idempotency_table]"

definition downgrade_0001 :: operation where
  "downgrade_0001 = run_operations
     [drop_table ''idempotency_record'',
      drop_index ''idx_domain_detail_refresh'' ''domain_detail'',
      drop_table ''domain_detail'',
      drop_index ''idx_tasks_job_id'' ''task'',
      drop_index ''idx_tasks_lease'' ''task'',
      drop_index ''idx_tasks_claim'' ''task'',
      drop_table ''task'',
      drop_index ''idx_domain_normalized'' ''domain'',
      drop_table ''domain'',
      drop_table ''job'',
      drop_enum ''task_type'',
      drop_enum ''task_status'']"

definition upgrade_cursor :: operation where
  "upgrade_cursor = create_index ''idx_tasks_cursor'' ''task'' [''job_id'', ''created_at'', ''id''] False"

definition downgrade_cursor :: operation where
  "downgrade_cursor = drop_index ''idx_tasks_cursor'' ''task''"

definition upgrade_0002 :: operation where
  "upgrade_0002 = run_operations
     [delete_records_without_job, alter_nullable ''idempotency_record'' ''job_id'' False]"

definition downgrade_0002 :: operation where
  "downgrade_0002 = alter_nullable ''idempotency_record'' ''job_id'' True"


subsection \<open>The tables that models.py declares\<close>

definition indexed :: "string \<Rightarrow> string list \<Rightarrow> bool \<Rightarrow> index" where
  "indexed n cols unique = \<lparr>ix_name = n, ix_columns = cols, ix_unique = unique\<rparr>"

definition model_job :: table where
  "model_job =
     \<lparr>tb_name = ''job'',
      tb_columns = [required ''id'' Uuid_type, required ''status'' (Enum_type ''task_status''),
                    required ''created_at'' Timestamptz, required ''updated_at'' Timestamptz],
      tb_primary_key = [''id''], tb_foreign_keys = [], tb_uniques = [], tb_indexes = []\<rparr>"

definition model_domain :: table where
  "model_domain =
     \<lparr>tb_name = ''domain'',
      tb_columns = [required ''id'' Uuid_type, required ''normalized_domain'' Varchar,
                    required ''is_active'' Bool_type, required ''deactivated_at'' Timestamptz,
                    required ''created_at'' Timestamptz, required ''updated_at'' Timestamptz],
      tb_primary_key = [''id''], tb_foreign_keys = [], tb_uniques = [],
      tb_indexes = [indexed ''idx_domain_normalized'' [''normalized_domain''] True]\<rparr>"

definition model_task :: table where
  "model_task =
     \<lparr>tb_name = ''task'',
      tb_columns = [required ''id'' Uuid_type, required ''job_id'' Uuid_type, required ''domain_id'' Uuid_type,
                    required ''type'' (Enum_type ''task_type''), required ''status'' (Enum_type ''task_status''),
                    required ''attempts'' Int4, required ''next_attempt_at'' Timestamptz,
                    required ''lease_expires_at'' Timestamptz, required ''error_payload'' Jsonb,
                    required ''created_at'' Timestamptz, required ''updated_at'' Timestamptz],
      tb_primary_key = [''id''],
      tb_foreign_keys = [references ''job_id'' ''job'', references ''domain_id'' ''domain''],
      tb_uniques = [],
      tb_indexes = [indexed ''idx_tasks_claim'' [''status'', ''next_attempt_at'', ''type''] False,
                    indexed ''idx_tasks_lease'' [''status'', ''lease_expires_at''] False,
                    indexed ''idx_tasks_job_id'' [''job_id''] False,
                    indexed ''idx_tasks_cursor'' [''job_id'', ''created_at'', ''id''] False]\<rparr>"

definition model_detail :: table where
  "model_detail =
     \<lparr>tb_name = ''domain_detail'',
      tb_columns = [required ''domain_id'' Uuid_type, required ''ip_addresses'' Jsonb, required ''dns_records'' Jsonb,
                    required ''http_status'' Int4, required ''page_title'' Varchar, required ''response_time'' Int4,
                    required ''response_headers'' Jsonb, required ''fetched_at'' Timestamptz,
                    required ''next_refresh_at'' Timestamptz, required ''version'' Int4],
      tb_primary_key = [''domain_id''], tb_foreign_keys = [references ''domain_id'' ''domain''],
      tb_uniques = [], tb_indexes = [indexed ''idx_domain_detail_refresh'' [''next_refresh_at''] False]\<rparr>"

definition model_idempotency :: table where
  "model_idempotency =
     \<lparr>tb_name = ''idempotency_record'',
      tb_columns = [required ''id'' Uuid_type, required ''client_id'' Varchar, required ''idempotency_key'' Varchar,
                    required ''request_hash'' Varchar, required ''job_id'' Uuid_type,
                    required ''created_at'' Timestamptz],
      tb_primary_key = [''id''], tb_foreign_keys = [references ''job_id'' ''job''],
      tb_uniques = [(''uq_idempotency_record_client_id_idempotency_key'', [''client_id'', ''idempotency_key''])],
      tb_indexes = []\<rparr>"

definition models_catalog :: catalog where
  "models_catalog =
     \<lparr>ct_enums = [(''task_status'', map task_status_value [PENDING, PROCESSING, COMPLETED, FAILED]),
                  (''task_type'', map task_type_value [USER_REQUEST, REFRESH])],
      ct_tables = [model_job, model_domain, model_task, model_detail, model_idempotency],
      ct_idempotency_job_ids = []\<rparr>"

subsection \<open>Up and down again\<close>

definition outcome :: "string + catalog \<Rightarrow> catalog" where
  "outcome r = (case r of Inl e \<Rightarrow> empty_catalog | Inr c \<Rightarrow> c)"

definition schema_0001 :: catalog where
  "schema_0001 = outcome (upgrade_0001 empty_catalog)"

definition schema_cursor :: catalog where
  "schema_cursor = outcome (upgrade_cursor schema_0001)"

definition schema_head :: catalog where
  "schema_head = outcome (upgrade_0002 schema_cursor)"

definition with_records :: "uuid option list \<Rightarrow> catalog \<Rightarrow> catalog" where
  "with_records js c = c\<lparr>ct_idempotency_job_ids := js\<rparr>"

definition nullable_columns :: "catalog \<Rightarrow> (string \<times> string) list" where
  "nullable_columns c =
     concat (map (\<lambda>t. map (\<lambda>k. (tb_name t, cn_name k)) (filter cn_nullable (tb_columns t))) (ct_tables c))"

definition forget_nullable :: "catalog \<Rightarrow> catalog" where
  "forget_nullable c =
     c\<lparr>ct_tables := map (\<lambda>t. t\<lparr>tb_columns := map (\<lambda>k. k\<lparr>cn_nullable := False\<rparr>) (tb_columns t)\<rparr>) (ct_tables c)\<rparr>"

lemma upgrade_0001_runs: "upgrade_0001 empty_catalog = Inr schema_0001"
  by code_simp

lemma upgrade_cursor_runs: "upgrade_cursor schema_0001 = Inr schema_cursor"
  by code_simp

lemma schema_head_unchanged: "schema_head = schema_cursor"
  by code_simp


lemma with_records_simps [simp]:
  "find_table n (with_records js c) = find_table n c"
  "put_table t (with_records js c) = with_records js (put_table t c)"
  "ct_idempotency_job_ids (with_records js c) = js"
  "with_records js (with_records ks c) = with_records js c"
  by (simp_all add: find_table_def put_table_def with_records_def)

lemma with_records_fold: "c'\<lparr>ct_idempotency_job_ids := js\<rparr> = with_records js c'"
  by (simp add: with_records_def)

definition nullable_job :: table where
  "nullable_job = idempotency_table
     \<lparr>tb_columns := map (\<lambda>k. if cn_name k = ''job_id'' then k\<lparr>cn_nullable := True\<rparr> else k) (tb_columns idempotency_table)\<rparr>"

lemma idempotency_facts:
  "find_table ''idempotency_record'' schema_cursor = Some idempotency_table"
  "has_column ''job_id'' idempotency_table" "has_column ''job_id'' nullable_job"
  "idempotency_table\<lparr>tb_columns := map (\<lambda>k. if cn_name k = ''job_id'' then k\<lparr>cn_nullable := False\<rparr> else k)
     (tb_columns idempotency_table)\<rparr> = idempotency_table"
  "nullable_job\<lparr>tb_columns := map (\<lambda>k. if cn_name k = ''job_id'' then k\<lparr>cn_nullable := False\<rparr> else k)
     (tb_columns nullable_job)\<rparr> = idempotency_table"
  "put_table idempotency_table schema_cursor = schema_cursor"
  "find_table ''idempotency_record'' (put_table nullable_job schema_cursor) = Some nullable_job"
  "put_table idempotency_table (put_table nullable_job schema_cursor) = schema_cursor"
  by code_simp+

lemma upgrade_0002_effect:
  "upgrade_0002 (with_records js schema_cursor) = Inr (with_records (filter (\<lambda>j. j \<noteq> None) js) schema_cursor)"
  by (simp add: upgrade_0002_def delete_records_without_job_def alter_nullable_def idempotency_facts with_records_fold)

lemma downgrade_0002_effect:
  "downgrade_0002 (with_records js schema_cursor) = Inr (with_records js (put_table nullable_job schema_cursor))"
  by (simp add: downgrade_0002_def alter_nullable_def idempotency_facts nullable_job_def [symmetric])

lemma upgrade_0002_again:
  "upgrade_0002 (with_records js (put_table nullable_job schema_cursor)) =
     Inr (with_records (filter (\<lambda>j. j \<noteq> None) js) schema_cursor)"
  by (simp add: upgrade_0002_def delete_records_without_job_def alter_nullable_def idempotency_facts with_records_fold)

text \<open>
  The migrations run and undo each other: from an empty database the first two reach the schema of the
  head, and their downgrades lead back to exactly what was before, down to the empty database. The third never
  fails, whatever records there are: it deletes those without a job and leaves the schema as it is, because the
  column never was nullable. Its downgrade is the exception: it makes the column nullable, which is not the
  schema of the revision before; upgrading again repairs that.
\<close>

theorem migrations_round_trip:
  "upgrade_0001 empty_catalog = Inr schema_0001 \<and> downgrade_0001 schema_0001 = Inr empty_catalog \<and>
   upgrade_cursor schema_0001 = Inr schema_cursor \<and> downgrade_cursor schema_cursor = Inr schema_0001 \<and>
   (\<forall>js. upgrade_0002 (with_records js schema_cursor) =
      Inr (with_records (filter (\<lambda>j. j \<noteq> None) js) schema_head)) \<and>
   (\<forall>js. \<exists>c. downgrade_0002 (with_records js schema_head) = Inr c \<and> c \<noteq> with_records js schema_cursor \<and>
      upgrade_0002 c = Inr (with_records (filter (\<lambda>j. j \<noteq> None) js) schema_head))"
proof -
  have down: "downgrade_0001 schema_0001 = Inr empty_catalog" "downgrade_cursor schema_cursor = Inr schema_0001"
    by code_simp+
  have "find_table ''idempotency_record'' (with_records js (put_table nullable_job schema_cursor)) \<noteq>
      find_table ''idempotency_record'' (with_records js schema_cursor)" for js
  proof -
    have "nullable_job \<noteq> idempotency_table" by code_simp
    then show ?thesis by (simp add: idempotency_facts)
  qed
  then have "with_records js (put_table nullable_job schema_cursor) \<noteq> with_records js schema_cursor" for js
    by metis
  then show ?thesis
    unfolding schema_head_unchanged
    using upgrade_0001_runs upgrade_cursor_runs down upgrade_0002_effect downgrade_0002_effect upgrade_0002_again
    by blast
qed


end
