(* ===== verification/Alembic_Env.thy ===== *)
theory Alembic_Env
  imports Migrations Settings
begin

section \<open>Running the migrations (alembic/env.py)\<close>

text \<open>
  The script that alembic runs for every command: it chooses the URL and the kind of the engine, opens a
  connection and a transaction, and calls \<open>context.run_migrations()\<close>. What that call does to the database, what
  opening the connection raises, and the settings of the process are arguments; for \<open>alembic upgrade head\<close> the
  call applies the revisions after the current one in the order of their \<open>down_revision\<close>.
\<close>

subsection \<open>The revisions\<close>

record revision =
  rv_id :: string
  rv_down :: "string option"
  rv_upgrade :: operation
  rv_downgrade :: operation

definition revision_initial :: revision where
  "revision_initial =
     \<lparr>rv_id = ''20260822_0001'', rv_down = None, rv_upgrade = upgrade_0001, rv_downgrade = downgrade_0001\<rparr>"

definition revision_cursor :: revision where
  "revision_cursor =
     \<lparr>rv_id = ''20260823_0001'', rv_down = Some ''20260822_0001'', rv_upgrade = upgrade_cursor,
      rv_downgrade = downgrade_cursor\<rparr>"

definition revision_idempotency :: revision where
  "revision_idempotency =
     \<lparr>rv_id = ''20260824_0002'', rv_down = Some ''20260823_0001'', rv_upgrade = upgrade_0002,
      rv_downgrade = downgrade_0002\<rparr>"

definition revisions :: "revision list" where
  "revisions = [revision_initial, revision_cursor, revision_idempotency]"

text \<open>A database with the row of \<open>alembic_version\<close>, if there is one.\<close>

record versioned =
  vd_version :: "string option"
  vd_catalog :: catalog

text \<open>Each step looks for the revision that follows the current one; there are as many steps as revisions.\<close>

fun upgrade_steps :: "nat \<Rightarrow> versioned \<Rightarrow> string + versioned" where
  "upgrade_steps 0 d = Inr d"
| "upgrade_steps (Suc n) d =
     (case find (\<lambda>r. rv_down r = vd_version d) revisions of
        None \<Rightarrow> Inr d
      | Some r \<Rightarrow>
          (case rv_upgrade r (vd_catalog d) of
             Inl e \<Rightarrow> Inl e
           | Inr c \<Rightarrow> upgrade_steps n \<lparr>vd_version = Some (rv_id r), vd_catalog = c\<rparr>))"

definition upgrade_to_head :: "versioned \<Rightarrow> string + versioned" where
  "upgrade_to_head = upgrade_steps (length revisions)"

subsection \<open>The script\<close>

record alembic_context =
  ac_offline :: bool
  ac_configured_url :: "string option"
  ac_settings :: "field_error list + app_settings"
  ac_connect_fault :: "string option"
  ac_run_migrations :: "versioned \<Rightarrow> string + versioned"

definition get_database_url :: "alembic_context \<Rightarrow> string + string" where
  "get_database_url ac =
     (case ac_configured_url ac of
        Some (c # cs) \<Rightarrow> Inr (c # cs)
      | _ \<Rightarrow>
          (case ac_settings ac of
             Inl errors \<Rightarrow> Inl ''ValidationError''
           | Inr s \<Rightarrow> Inr (database_url s)))"

text \<open>\<open>with context.begin_transaction(): context.run_migrations()\<close>: committed, or rolled back by the exception.\<close>

definition do_run_migrations :: "alembic_context \<Rightarrow> versioned \<Rightarrow> string option \<times> versioned" where
  "do_run_migrations ac d =
     (case ac_run_migrations ac d of Inl e \<Rightarrow> (Some e, d) | Inr d' \<Rightarrow> (None, d'))"

datatype engine_kind = Async_engine | Sync_engine

record migration_run =
  mr_engine :: "(engine_kind \<times> string) option"
  mr_disposed :: bool
  mr_error :: "string option"
  mr_database :: versioned

text \<open>
  Offline, the statements are written out and no database is touched. Online, the engine is disposed of after
  the connection has been left, not in a \<open>finally\<close>.
\<close>

definition run_migrations_offline :: "alembic_context \<Rightarrow> versioned \<Rightarrow> migration_run" where
  "run_migrations_offline ac d =
     \<lparr>mr_engine = None, mr_disposed = False,
      mr_error = (case get_database_url ac of Inl e \<Rightarrow> Some e | Inr u \<Rightarrow> fst (do_run_migrations ac d)),
      mr_database = d\<rparr>"

definition run_on_engine :: "alembic_context \<Rightarrow> engine_kind \<Rightarrow> string \<Rightarrow> versioned \<Rightarrow> migration_run" where
  "run_on_engine ac kind url d =
     (case ac_connect_fault ac of
        Some e \<Rightarrow> \<lparr>mr_engine = Some (kind, url), mr_disposed = False, mr_error = Some e, mr_database = d\<rparr>
      | None \<Rightarrow>
          (case do_run_migrations ac d of
             (Some e, d') \<Rightarrow> \<lparr>mr_engine = Some (kind, url), mr_disposed = False, mr_error = Some e, mr_database = d'\<rparr>
           | (None, d') \<Rightarrow> \<lparr>mr_engine = Some (kind, url), mr_disposed = True, mr_error = None, mr_database = d'\<rparr>))"

definition run_async_migrations :: "alembic_context \<Rightarrow> versioned \<Rightarrow> migration_run" where
  "run_async_migrations ac d =
     (case get_database_url ac of
        Inl e \<Rightarrow> \<lparr>mr_engine = None, mr_disposed = False, mr_error = Some e, mr_database = d\<rparr>
      | Inr url \<Rightarrow> run_on_engine ac Async_engine url d)"

definition run_migrations_online :: "alembic_context \<Rightarrow> versioned \<Rightarrow> migration_run" where
  "run_migrations_online ac d =
     (case get_database_url ac of
        Inl e \<Rightarrow> \<lparr>mr_engine = None, mr_disposed = False, mr_error = Some e, mr_database = d\<rparr>
      | Inr url \<Rightarrow>
          if contains url ''+asyncpg'' then run_async_migrations ac d
          else run_on_engine ac Sync_engine url d)"

definition run_env :: "alembic_context \<Rightarrow> versioned \<Rightarrow> migration_run" where
  "run_env ac d = (if ac_offline ac then run_migrations_offline ac d else run_migrations_online ac d)"

definition truthy_url :: "string option \<Rightarrow> bool" where
  "truthy_url u \<longleftrightarrow> u \<noteq> None \<and> u \<noteq> Some []"

subsection \<open>All or nothing, and to the head\<close>

lemma run_on_engine_cases:
  "mr_engine (run_on_engine ac kind url d) = Some (kind, url)"
  "mr_error (run_on_engine ac kind url d) = None \<longleftrightarrow>
     ac_connect_fault ac = None \<and> ac_run_migrations ac d = Inr (mr_database (run_on_engine ac kind url d))"
  "mr_error (run_on_engine ac kind url d) \<noteq> None \<Longrightarrow> mr_database (run_on_engine ac kind url d) = d"
  "mr_disposed (run_on_engine ac kind url d) \<longleftrightarrow> mr_error (run_on_engine ac kind url d) = None"
  by (auto simp: run_on_engine_def do_run_migrations_def split: option.splits sum.splits)

lemma run_online_cases:
  "run_migrations_online ac d =
     (case get_database_url ac of
        Inl e \<Rightarrow> \<lparr>mr_engine = None, mr_disposed = False, mr_error = Some e, mr_database = d\<rparr>
      | Inr url \<Rightarrow> run_on_engine ac (if contains url ''+asyncpg'' then Async_engine else Sync_engine) url d)"
  by (simp add: run_migrations_online_def run_async_migrations_def split: sum.split)

lemma upgrade_from_nothing:
  "upgrade_to_head \<lparr>vd_version = None, vd_catalog = empty_catalog\<rparr> =
     Inr \<lparr>vd_version = Some ''20260824_0002'', vd_catalog = schema_head\<rparr>"
proof -
  have last: "upgrade_0002 schema_cursor = Inr schema_head" by code_simp
  show ?thesis
    by (simp add: upgrade_to_head_def revisions_def revision_initial_def revision_cursor_def
        revision_idempotency_def upgrade_0001_runs upgrade_cursor_runs last)
qed

lemma head_is_final: "vd_version d = Some ''20260824_0002'' \<Longrightarrow> upgrade_to_head d = Inr d"
  by (simp add: upgrade_to_head_def revisions_def revision_initial_def revision_cursor_def revision_idempotency_def)

text \<open>
  A run of the migrations is all or nothing: it works on the configured URL, else on the one of the
  settings, with the asynchronous engine exactly if that URL names asyncpg; if anything raises, or offline, the
  database is as it was, otherwise it is what the migrations made of it; and the engine is disposed of exactly
  when nothing raised. For \<open>upgrade head\<close>, an empty database gets the schema of the head and its version, and
  running it again changes nothing.
\<close>

theorem migrations_all_or_nothing:
  "let r = run_env ac d in
   (mr_error r \<noteq> None \<or> ac_offline ac \<longrightarrow> mr_database r = d) \<and>
   (mr_disposed r \<longleftrightarrow> mr_engine r \<noteq> None \<and> mr_error r = None) \<and>
   (mr_engine r \<noteq> None \<and> mr_error r = None \<longrightarrow> ac_run_migrations ac d = Inr (mr_database r)) \<and>
   (\<forall>kind url. mr_engine r = Some (kind, url) \<longrightarrow>
      (kind = Async_engine \<longleftrightarrow> contains url ''+asyncpg'') \<and>
      (if truthy_url (ac_configured_url ac) then Some url = ac_configured_url ac
       else \<exists>s. ac_settings ac = Inr s \<and> url = database_url s)) \<and>
   (ac_run_migrations ac = upgrade_to_head \<and> mr_engine r \<noteq> None \<and> mr_error r = None \<longrightarrow>
      (d = \<lparr>vd_version = None, vd_catalog = empty_catalog\<rparr> \<longrightarrow>
         mr_database r = \<lparr>vd_version = Some ''20260824_0002'', vd_catalog = schema_head\<rparr>) \<and>
      (vd_version d = Some ''20260824_0002'' \<longrightarrow> mr_database r = d))"
proof (cases "ac_offline ac")
  case True
  then show ?thesis by (simp add: run_env_def run_migrations_offline_def)
next
  case False
  then have r: "run_env ac d = run_migrations_online ac d" by (simp add: run_env_def)
  show ?thesis
  proof (cases "get_database_url ac")
    case (Inl e)
    then show ?thesis by (simp add: r run_online_cases)
  next
    case (Inr url)
    let ?kind = "if contains url ''+asyncpg'' then Async_engine else Sync_engine"
    have run: "run_env ac d = run_on_engine ac ?kind url d" by (simp add: r run_online_cases Inr)
    note cases = run_on_engine_cases [of ac ?kind url d, folded run]
    have url: "if truthy_url (ac_configured_url ac) then Some url = ac_configured_url ac
       else \<exists>s. ac_settings ac = Inr s \<and> url = database_url s"
      using Inr by (auto simp: get_database_url_def truthy_url_def split: option.splits list.splits sum.splits)
    show ?thesis
      using cases url False upgrade_from_nothing head_is_final [of d] by (auto simp: Let_def)
  qed
qed

theorem migrations_all_or_nothing_witness:
  "\<exists>s. new_settings default_settings = Inr s \<and>
     mr_database (run_env \<lparr>ac_offline = False, ac_configured_url = None, ac_settings = Inr s, ac_connect_fault = None,
         ac_run_migrations = upgrade_to_head\<rparr> \<lparr>vd_version = None, vd_catalog = empty_catalog\<rparr>) =
       \<lparr>vd_version = Some ''20260824_0002'', vd_catalog = schema_head\<rparr>"
proof -
  obtain s where s: "new_settings default_settings = Inr s" using default_settings_accepted ..
  let ?ac = "\<lparr>ac_offline = False, ac_configured_url = None, ac_settings = Inr s, ac_connect_fault = None,
      ac_run_migrations = upgrade_to_head\<rparr>"
  let ?d = "\<lparr>vd_version = None, vd_catalog = empty_catalog\<rparr>"
  have url: "get_database_url ?ac = Inr (database_url s)" by (simp add: get_database_url_def)
  have "mr_engine (run_env ?ac ?d) \<noteq> None" "mr_error (run_env ?ac ?d) = None"
    by (simp_all add: run_env_def run_online_cases url run_on_engine_cases)
      (simp_all add: run_on_engine_def do_run_migrations_def upgrade_from_nothing)
  with migrations_all_or_nothing [of ?ac ?d] s show ?thesis by (auto simp: Let_def)
qed

text \<open>The revisions form one chain, in the order of the list.\<close>

lemma revisions_chain:
  "map rv_down revisions = None # map (\<lambda>r. Some (rv_id r)) (butlast revisions)"
  by (simp add: revisions_def revision_initial_def revision_cursor_def revision_idempotency_def)

end
