(* ===== verification/Spec2Isabelle.thy ===== *)
theory Spec2Isabelle
  imports Service Completion Async_Queue Lock_Lease Clients Telemetry Serving Signals Alembic_Env
begin

text \<open>
  A verification library for the Domain Processing Service (Python, src/src/domain\_processing\_service).

  \<^bold>\<open>The program.\<close> Clients submit batches of domains (routes.py). A request becomes a job with one task
  for each domain, in PostgreSQL. The task manager (manager.py) claims PENDING tasks with a lease and
  puts them into a bounded in-memory queue; workers take them out and run the pipeline
  (domain\_processor.py): reuse a fresh observation, take the Redis lock of the domain, resolve the name,
  refuse addresses that are not public, probe the first allowed one, and write the observation under a
  version check together with the end of the task. Transient failures go back to PENDING with a backoff,
  expired leases are recovered, the refresh scheduler (scheduler.py) creates tasks for observations that
  are due.

  \<^bold>\<open>Theories.\<close>
  \<^item> Prelude: identifiers, time in microseconds, the exception classes, tables as lists of rows, and the
    locale \<open>row_store\<close>, the contract of reading and writing one row, interpreted by every repository.
  \<^item> Model (models.py): enums, rows, the database \<open>db\<close>, the constraints \<open>schema_ok\<close>, sessions.
  \<^item> Task\_Repo, Job\_Repo, Domain\_Repo, Detail\_Repo (repositories/): the queries and updates, each a function
    on \<open>db\<close>; constraint violations are values of \<open>exn + 'a\<close>. Each keeps \<open>schema_ok\<close>.
  \<^item> Task\_Queue: claims, leases, recovery and backoff; the life-cycle invariant \<open>tasks_ok m\<close>.
  \<^item> Py\_Str: the operations of Python strings in use. Normalization (normalization.py): from user input to
    a canonical domain.
  \<^item> Ip\_Validator (ip\_validator.py): the filter against requests to internal addresses, with the parsers
    of Python's ipaddress module it calls, and its equivalence with ranges of 32-bit and 128-bit words.
  \<^item> Dns (dns.py), Http\_Client (http\_client.py): resolution and probing as functions of the answers.
  \<^item> Domain\_Lock (domain\_lock.py): the Redis lock over the two commands it sends; the laws of those
    commands are the named hypothesis \<open>redis_laws\<close>, shown for a map with \<open>map_redis\<close>. Lock\_Lease: the keys with
    their time to live, and what other processes can do while it runs. Lock\_Client: the object with the connection, and why the pipeline may leave it out. Clients: the objects a task is processed with,
    their configuration, and that none stays open.
  \<^item> Processor\_Writes, Processor (domain\_processor.py): the sessions that write, and the pipeline
    \<open>process_task\<close>. The locale \<open>write_invariant\<close> is the contract between the two: what every writing session
    keeps, every run of the pipeline keeps. It is interpreted for the schema, for the life cycle of the
    tasks, and for the steps of the system.
  \<^item> Bounded\_Queue (worker/worker.py), Manager (manager.py), Scheduler (scheduler.py): the queue (locale
    \<open>bounded_buffer\<close>: first in first out, never above capacity), one cycle of each loop. Async\_Queue: the
    queue below it, with waiting producers and consumers, cancellation and join: what goes in comes out in
    order, and nobody sleeps who could go on.
  \<^item> Worker\_Pool (worker/worker.py): the loop of a worker with its handlers, the start and stop of workers and
    of the pool. Loops: the polling loops of manager and scheduler as one scheme, \<open>poll_loop\<close>.
  \<^item> Calendar, Json, Cursor (dtos.py): the cursor of a page, with the parts of datetime, json, base64, UTF-8 and
    uuid it uses, and the round trip through all of them.
  \<^item> Routes, Job\_Pages (routes.py, dtos.py): creating a job with its idempotency record, reading a job page
    by page; the text that is hashed for idempotency and that it forgets only the order; a request that
    another one overtakes between two of its statements.
  \<^item> System: all of them as steps on one database, in any interleaving, with the invariants of every
    reachable database, and the pipeline as a sequence of such steps.
  \<^item> Progress: liveness. In every run in which the two cycles of the manager keep getting their turn, every
    task is COMPLETED or FAILED in the end; \<open>work_left\<close> is the measure that falls. Jobs\_Done: in those of them
    where workers end the last tasks, every job is COMPLETED in the end.
  \<^item> Completion: the sessions that end tasks, statement by statement with their row locks, in any interleaving.
    The locks order them: the effect is that of the whole sessions one after the other, which is what the
    other theories assume, they do not deadlock, and the last task of a job completes it.
  \<^item> Service: each background loop, whatever is raised in it, is a sequence of steps of the system.
  \<^item> Settings (config.py): validators, bounds, and the type of an accepted settings object. Database
    (database.py), Shutdown (shutdown.py and the start and stop of manager and scheduler), App (app.py): the
    object of the connection pool, the shutdown sequence with its grace period, the wiring of the components,
    the health endpoints, and the life cycle from the settings to the end of the process. Signals: signal
    handlers and module variables of a process with any number of applications.
  \<^item> Observability, Middleware (logging.py, metrics.py, middleware.py): log lines, request identifiers, the
    counters of the API. Telemetry: the declared events and metrics and the root logger. Serving: a request
    through both middlewares and its handler, to status, header, counters, log and database.
  \<^item> Migrations (alembic/versions, models.py): the migrations as operations on a schema catalog, up and down,
    and their agreement with the declared models. Alembic\_Env (alembic/env.py): the script that runs them.

  \<^bold>\<open>What is an argument.\<close> Everything outside the program: the clock (one reading for each call), random
  numbers, uuid4, SHA-256, IDNA encoding, the answers of DNS and HTTP servers, the decoding of a body, the
  Redis server, the exceptions a database or network call raises, what other transactions commit
  between two sessions of a run, and when the loop of a worker ends that has been told to stop. The second
  read of the version in one session is an argument too, because SQLAlchemy may return the object it has
  already loaded. SELECT ... FOR UPDATE SKIP LOCKED leaves out the rows of an argument \<open>locked\<close>. What
  \<open>fromisoformat\<close> and \<open>UUID\<close> make of texts in other formats than their own is \<open>lenient_parsers\<close>. Settings
  arrive with the types of their fields, as pydantic converts them.

  \<^bold>\<open>Granularity.\<close> The statements of one database session are one step, committed or undone as a whole, with
  three exceptions: the session that persists an observation is interleaved with others, since its version
  check is about them; so are the sessions that end tasks (Completion), since their job status is; and the
  creation of a job, between its lookup and its insert of domains (\<open>create_job_raced\<close>). Loops over data are structural recursion; an endless loop is given one environment for each of
  its rounds, so a statement for all lists of environments is one for every number of rounds, and the liveness
  of Progress is about infinite runs. Fuel is used twice: by \<open>read_pages\<close>, a client that follows the cursors,
  where a page for each task of the job, plus one, is shown to be enough, and by the parser of JSON, where
  \<open>json_loads_total\<close> shows that twice the length of the text is. Waiting that may not end is \<open>None\<close>. Characters
  have code points below 256 except in the texts that the cursor decodes.

  \<^bold>\<open>What is not modelled.\<close> The pool of SQLAlchemy connections and the protocol of Redis; reading the environment
  (pydantic) and the validation of requests by FastAPI; the sums of histogram buckets, and the rendering of
  metrics and of a log line as text; what alembic does inside \<open>run_migrations\<close> other than for upgrade head; what
  the web server does with a signal; main.py. The cancellation of a run of the pipeline in the middle of a
  session is covered only as far as a session that was never committed has no effect. In Bounded\_Queue a call
  that would wait is \<open>None\<close>; its waiting is in Async\_Queue.
\<close>

end
